(* ===== verification/Prelude.thy ===== *)
theory Prelude
  imports Main "HOL-Library.Word"
begin

text \<open>
  The prelude of the development: names for the Python types the service uses, programs
  that read and write a state and may raise, and the rules by which the proofs of the
  other theories run and invert such programs.
\<close>

section \<open>Types of the source\<close>

text \<open>
  A Python \<open>str\<close> is a HOL \<open>string\<close>: each \<open>char\<close> is one code point, so strings range over
  the code points 0 to 255. A \<open>datetime\<close> (always aware and in UTC in the service) counts
  microseconds from the epoch, a \<open>timedelta\<close> counts microseconds; both are unbounded.
  A \<open>UUID\<close> is its 128-bit integer value.
\<close>

type_synonym byte = "8 word"
type_synonym bytes = "8 word list"
type_synonym uuid = "128 word"
type_synonym datetime = int
type_synonym timedelta = int

section \<open>Programs with state and exceptions\<close>

text \<open>
  A program takes the state and returns either an exception (\<open>Inl\<close>) or a value (\<open>Inr\<close>),
  with the state it leaves behind. An exception keeps the state changes made before it.
\<close>

type_synonym ('s, 'x, 'a) prog = "'s \<Rightarrow> ('x + 'a) \<times> 's"

definition retM :: "'a \<Rightarrow> ('s, 'x, 'a) prog" where
  "retM a = (\<lambda>s. (Inr a, s))"

definition raiseM :: "'x \<Rightarrow> ('s, 'x, 'a) prog" where
  "raiseM e = (\<lambda>s. (Inl e, s))"

definition bindM :: "('s, 'x, 'a) prog \<Rightarrow> ('a \<Rightarrow> ('s, 'x, 'b) prog) \<Rightarrow> ('s, 'x, 'b) prog" where
  "bindM m f = (\<lambda>s. case m s of (Inl e, s') \<Rightarrow> (Inl e, s') | (Inr a, s') \<Rightarrow> f a s')"

text \<open>\<open>tryM m h\<close> is \<open>try: m except ... as e: h e\<close>; the handler re-raises what it does not catch.\<close>

definition tryM :: "('s, 'x, 'a) prog \<Rightarrow> ('x \<Rightarrow> ('s, 'x, 'a) prog) \<Rightarrow> ('s, 'x, 'a) prog" where
  "tryM m h = (\<lambda>s. case m s of (Inl e, s') \<Rightarrow> h e s' | (Inr a, s') \<Rightarrow> (Inr a, s'))"

definition liftM :: "'x + 'a \<Rightarrow> ('s, 'x, 'a) prog" where
  "liftM r = (\<lambda>s. (r, s))"

definition getsM :: "('s \<Rightarrow> 'a) \<Rightarrow> ('s, 'x, 'a) prog" where
  "getsM f = (\<lambda>s. (Inr (f s), s))"

definition modifyM :: "('s \<Rightarrow> 's) \<Rightarrow> ('s, 'x, unit) prog" where
  "modifyM f = (\<lambda>s. (Inr (), f s))"

text \<open>\<open>if c: raise e\<close>\<close>

definition raise_if :: "bool \<Rightarrow> 'x \<Rightarrow> ('s, 'x, unit) prog" where
  "raise_if c e = (if c then raiseM e else retM ())"

subsection \<open>Running programs\<close>

named_theorems run_simps "equations that run a program on a state"

lemma run_retM [run_simps]: "retM a s = (Inr a, s)"
  by (simp add: retM_def)

lemma run_raiseM [run_simps]: "raiseM e s = (Inl e, s)"
  by (simp add: raiseM_def)

lemma run_bindM [run_simps]:
  "bindM m f s = (case m s of (Inl e, s') \<Rightarrow> (Inl e, s') | (Inr a, s') \<Rightarrow> f a s')"
  by (simp add: bindM_def)

lemma run_tryM [run_simps]:
  "tryM m h s = (case m s of (Inl e, s') \<Rightarrow> h e s' | (Inr a, s') \<Rightarrow> (Inr a, s'))"
  by (simp add: tryM_def)

lemma run_liftM [run_simps]: "liftM r s = (r, s)"
  by (simp add: liftM_def)

lemma run_getsM [run_simps]: "getsM f s = (Inr (f s), s)"
  by (simp add: getsM_def)

lemma run_modifyM [run_simps]: "modifyM f s = (Inr (), f s)"
  by (simp add: modifyM_def)

lemma run_raise_if [run_simps]: "raise_if c e s = (if c then (Inl e, s) else (Inr (), s))"
  by (simp add: raise_if_def raiseM_def retM_def)

subsection \<open>Inverting a run\<close>

lemma bindM_InrE:
  assumes "bindM m f s = (Inr b, s')"
  obtains a s1 where "m s = (Inr a, s1)" and "f a s1 = (Inr b, s')"
  using assms by (auto simp: bindM_def split: prod.splits sum.splits)

lemma bindM_InlE:
  assumes "bindM m f s = (Inl e, s')"
  obtains (first) "m s = (Inl e, s')"
    | (second) a s1 where "m s = (Inr a, s1)" and "f a s1 = (Inl e, s')"
  using assms by (auto simp: bindM_def split: prod.splits sum.splits)

subsection \<open>Invariants of programs\<close>

text \<open>
  \<open>keeps I m\<close>: whatever the outcome, \<open>m\<close> leads from states of \<open>I\<close> to states of \<open>I\<close>.
  \<open>ensures I m Q\<close>: from a state of \<open>I\<close>, \<open>m\<close> stays in \<open>I\<close> and a value it returns satisfies \<open>Q\<close>.
\<close>

definition keeps :: "('s \<Rightarrow> bool) \<Rightarrow> ('s, 'x, 'a) prog \<Rightarrow> bool" where
  "keeps I m \<longleftrightarrow> (\<forall>s. I s \<longrightarrow> I (snd (m s)))"

definition ensures :: "('s \<Rightarrow> bool) \<Rightarrow> ('s, 'x, 'a) prog \<Rightarrow> ('a \<Rightarrow> bool) \<Rightarrow> bool" where
  "ensures I m Q \<longleftrightarrow> (\<forall>s. I s \<longrightarrow> I (snd (m s)) \<and> (\<forall>a. fst (m s) = Inr a \<longrightarrow> Q a))"

named_theorems keeps_intros "rules that show that a program keeps an invariant"

lemma keepsI: "(\<And>s. I s \<Longrightarrow> I (snd (m s))) \<Longrightarrow> keeps I m"
  by (simp add: keeps_def)

lemma keepsD: "keeps I m \<Longrightarrow> I s \<Longrightarrow> I (snd (m s))"
  by (simp add: keeps_def)

lemma keeps_retM [keeps_intros]: "keeps I (retM a)"
  by (simp add: keeps_def retM_def)

lemma keeps_raiseM [keeps_intros]: "keeps I (raiseM e)"
  by (simp add: keeps_def raiseM_def)

lemma keeps_liftM [keeps_intros]: "keeps I (liftM r)"
  by (simp add: keeps_def liftM_def)

lemma keeps_getsM [keeps_intros]: "keeps I (getsM f)"
  by (simp add: keeps_def getsM_def)

lemma keeps_raise_if [keeps_intros]: "keeps I (raise_if c e)"
  by (simp add: raise_if_def keeps_raiseM keeps_retM)

lemma keeps_modifyM: "(\<And>s. I s \<Longrightarrow> I (f s)) \<Longrightarrow> keeps I (modifyM f)"
  by (simp add: keeps_def modifyM_def)

lemma keeps_bindM [keeps_intros]:
  assumes m: "keeps I m" and f: "\<And>a. keeps I (f a)"
  shows "keeps I (bindM m f)"
proof (rule keepsI)
  fix s assume "I s"
  with m have s': "I (snd (m s))" by (rule keepsD)
  show "I (snd (bindM m f s))"
    using s' keepsD [OF f] by (cases "m s"; cases "fst (m s)") (simp_all add: bindM_def)
qed

lemma keeps_tryM [keeps_intros]:
  assumes m: "keeps I m" and h: "\<And>e. keeps I (h e)"
  shows "keeps I (tryM m h)"
proof (rule keepsI)
  fix s assume "I s"
  with m have s': "I (snd (m s))" by (rule keepsD)
  show "I (snd (tryM m h s))"
    using s' keepsD [OF h] by (cases "m s"; cases "fst (m s)") (simp_all add: tryM_def)
qed

lemma keeps_if [keeps_intros]:
  "(c \<Longrightarrow> keeps I m) \<Longrightarrow> (\<not> c \<Longrightarrow> keeps I m') \<Longrightarrow> keeps I (if c then m else m')"
  by simp

lemma keeps_case_option [keeps_intros]:
  "(r = None \<Longrightarrow> keeps I m) \<Longrightarrow> (\<And>a. r = Some a \<Longrightarrow> keeps I (f a)) \<Longrightarrow>
    keeps I (case r of None \<Rightarrow> m | Some a \<Rightarrow> f a)"
  by (cases r) auto

lemma keeps_case_prod [keeps_intros]:
  "(\<And>a b. p = (a, b) \<Longrightarrow> keeps I (f a b)) \<Longrightarrow> keeps I (case p of (a, b) \<Rightarrow> f a b)"
  by (cases p) auto

lemma keeps_case_sum [keeps_intros]:
  "(\<And>a. r = Inl a \<Longrightarrow> keeps I (f a)) \<Longrightarrow> (\<And>b. r = Inr b \<Longrightarrow> keeps I (g b)) \<Longrightarrow>
    keeps I (case r of Inl a \<Rightarrow> f a | Inr b \<Rightarrow> g b)"
  by (cases r) auto

lemma ensuresI:
  assumes "keeps I m" and "\<And>s a s'. I s \<Longrightarrow> m s = (Inr a, s') \<Longrightarrow> Q a"
  shows "ensures I m Q"
  unfolding ensures_def
proof (intro allI impI conjI)
  fix s assume I: "I s"
  then show "I (snd (m s))" by (rule keepsD [OF assms(1)])
  fix a assume "fst (m s) = Inr a"
  then have "m s = (Inr a, snd (m s))" by (simp add: prod_eq_iff)
  with I show "Q a" by (rule assms(2))
qed

lemma ensures_keeps: "ensures I m Q \<Longrightarrow> keeps I m"
  by (simp add: ensures_def keeps_def)

lemma ensuresD:
  "ensures I m Q \<Longrightarrow> I s \<Longrightarrow> I (snd (m s))"
  "ensures I m Q \<Longrightarrow> I s \<Longrightarrow> m s = (Inr a, s') \<Longrightarrow> Q a"
  by (simp_all add: ensures_def)

lemma ensures_bindM:
  assumes m: "ensures I m Q" and f: "\<And>a. Q a \<Longrightarrow> ensures I (f a) R"
  shows "ensures I (bindM m f) R"
  unfolding ensures_def
proof (intro allI impI)
  fix s assume I: "I s"
  obtain r s1 where m1: "m s = (r, s1)" by fastforce
  with ensuresD(1) [OF m I] have I1: "I s1" by simp
  show "I (snd (bindM m f s)) \<and> (\<forall>b. fst (bindM m f s) = Inr b \<longrightarrow> R b)"
  proof (cases r)
    case (Inl e)
    then show ?thesis using m1 I1 by (simp add: bindM_def)
  next
    case (Inr a)
    with m1 have "Q a" using ensuresD(2) [OF m I] by simp
    then have "ensures I (f a) R" by (rule f)
    with I1 show ?thesis using m1 Inr by (simp add: bindM_def ensures_def)
  qed
qed

lemma ensures_True: "ensures I m (\<lambda>_. True) \<longleftrightarrow> keeps I m"
  by (simp add: ensures_def keeps_def)

lemma keeps_bindM_ensures:
  assumes "ensures I m Q" and "\<And>a. Q a \<Longrightarrow> keeps I (f a)"
  shows "keeps I (bindM m f)"
  using ensures_bindM [OF assms(1), of f "\<lambda>_. True"] assms(2) by (simp add: ensures_True)

section \<open>Results\<close>

lemma map_sum_eq_Inr [simp]: "map_sum f g x = Inr y \<longleftrightarrow> (\<exists>z. x = Inr z \<and> y = g z)"
  by (cases x) auto

lemma map_sum_eq_Inl [simp]: "map_sum f g x = Inl y \<longleftrightarrow> (\<exists>z. x = Inl z \<and> y = f z)"
  by (cases x) auto

section \<open>Python slices\<close>

text \<open>\<open>xs[i:j]\<close> for indices that are not negative, as every slice of the service is.\<close>

definition py_slice :: "nat \<Rightarrow> nat \<Rightarrow> 'a list \<Rightarrow> 'a list" where
  "py_slice i j xs = take (j - i) (drop i xs)"

lemma length_py_slice [simp]: "length (py_slice i j xs) = min (j - i) (length xs - i)"
  by (simp add: py_slice_def)

lemma py_slice_append:
  assumes "i \<le> j" and "j \<le> k"
  shows "py_slice i j xs @ py_slice j k xs = py_slice i k xs"
proof -
  have "drop j xs = drop (j - i) (drop i xs)" and "k - i = (j - i) + (k - j)"
    using assms by simp_all
  then show ?thesis by (simp add: py_slice_def take_add)
qed

lemma nth_py_slice: "n < j - i \<Longrightarrow> i + n < length xs \<Longrightarrow> py_slice i j xs ! n = xs ! (i + n)"
  by (simp add: py_slice_def)

end
