(* ===== verification/Exceptions.thy ===== *)
theory Exceptions
  imports Prelude
begin

text \<open>
  The exception classes of \<^verbatim>\<open>app/core/domain/exceptions\<close> and \<^verbatim>\<open>app/application/exceptions\<close>:
  the class tree with its default messages, and the exceptions of other origin (the
  standard library, the database driver, SQLAlchemy, bcrypt) that the service lets through.
\<close>

datatype err_class =
    BaseError
  | DomainError
  | TokenError
  | RefreshTokenReuse
  | InvalidAccessToken
  | AccessTokenExpired
  | UserError
  | EmailValidationError
  | PasswordValidationError
  | ApplicationError
  | ConcurrencyError
  | UserAlreadyExists
  | UserNotFound
  | OneTimeTokenNotFound
  | RefreshTokenNotFound

text \<open>The class a class statement derives from; \<open>BaseError\<close> derives from Python's \<open>Exception\<close>.\<close>

fun class_base :: "err_class \<Rightarrow> err_class option" where
  "class_base BaseError = None"
| "class_base DomainError = Some BaseError"
| "class_base TokenError = Some DomainError"
| "class_base RefreshTokenReuse = Some TokenError"
| "class_base InvalidAccessToken = Some TokenError"
| "class_base AccessTokenExpired = Some TokenError"
| "class_base UserError = Some DomainError"
| "class_base EmailValidationError = Some DomainError"
| "class_base PasswordValidationError = Some DomainError"
| "class_base ApplicationError = Some BaseError"
| "class_base ConcurrencyError = Some ApplicationError"
| "class_base UserAlreadyExists = Some ApplicationError"
| "class_base UserNotFound = Some ApplicationError"
| "class_base OneTimeTokenNotFound = Some ApplicationError"
| "class_base RefreshTokenNotFound = Some ApplicationError"

text \<open>The class attribute \<open>message\<close>.\<close>

fun class_message :: "err_class \<Rightarrow> string" where
  "class_message BaseError = ''Base error''"
| "class_message DomainError = ''Domain error''"
| "class_message TokenError = ''Invalid email token''"
| "class_message RefreshTokenReuse = ''Refresh token replaced by another token''"
| "class_message InvalidAccessToken = ''Invalid access token''"
| "class_message AccessTokenExpired = ''Access token expired''"
| "class_message UserError = ''User error''"
| "class_message EmailValidationError = ''Email validation error''"
| "class_message PasswordValidationError = ''Password validation error''"
| "class_message ApplicationError = ''Application error''"
| "class_message ConcurrencyError = ''Concurrency error''"
| "class_message UserAlreadyExists = ''User already exists''"
| "class_message UserNotFound = ''User not found''"
| "class_message OneTimeTokenNotFound = ''One time token not found''"
| "class_message RefreshTokenNotFound = ''Refresh token not found''"

text \<open>The depth of a class in the tree bounds the walk along its bases.\<close>

fun class_depth :: "err_class \<Rightarrow> nat" where
  "class_depth BaseError = 0"
| "class_depth DomainError = 1"
| "class_depth ApplicationError = 1"
| "class_depth TokenError = 2"
| "class_depth RefreshTokenReuse = 3"
| "class_depth InvalidAccessToken = 3"
| "class_depth AccessTokenExpired = 3"
| "class_depth _ = 2"

function issubclass :: "err_class \<Rightarrow> err_class \<Rightarrow> bool" where
  "issubclass c d = (c = d \<or> (case class_base c of None \<Rightarrow> False | Some b \<Rightarrow> issubclass b d))"
  by pat_completeness auto
termination
proof (relation "measure (\<lambda>(c, d). class_depth c)")
  show "wf (measure (\<lambda>(c, d). class_depth c))" by simp
next
  fix c d b
  assume "class_base c = Some b"
  then show "((b, d), (c, d)) \<in> measure (\<lambda>(c, d). class_depth c)" by (cases c) auto
qed

declare issubclass.simps [simp del]

text \<open>
  Exceptions from outside the class tree. None of them is a \<open>BaseError\<close>, so no
  \<open>except BaseError\<close> of the service catches them.
\<close>

datatype lib_error =
    ValueError
  | KeyError
  | ValidationError
  | IntegrityError
  | DBAPIError
  | MultipleResultsFound
  | AttributeError
  | TypeError

datatype exn =
    AppError err_class string
  | LibError lib_error

text \<open>\<open>BaseError.__init__\<close>: a message that is not given is the class attribute.\<close>

definition mk_error :: "err_class \<Rightarrow> string option \<Rightarrow> exn" where
  "mk_error c m = AppError c (case m of None \<Rightarrow> class_message c | Some t \<Rightarrow> t)"

text \<open>\<open>str(exc)\<close> of an exception of the tree is its message.\<close>

fun err_str :: "exn \<Rightarrow> string" where
  "err_str (AppError c m) = m"
| "err_str (LibError l) = []"

text \<open>\<open>isinstance(exc, cls)\<close>, which an \<open>except cls\<close> clause asks.\<close>

fun isinstance :: "exn \<Rightarrow> err_class \<Rightarrow> bool" where
  "isinstance (AppError c m) d = issubclass c d"
| "isinstance (LibError l) d = False"

lemma isinstance_BaseError: "isinstance e BaseError \<longleftrightarrow> (\<exists>c m. e = AppError c m)"
proof (cases e)
  case (AppError c m)
  have "issubclass c BaseError"
    by (cases c) (simp_all add: issubclass.simps)
  then show ?thesis by (simp add: AppError)
qed simp

lemma isinstance_mk_error [simp]: "isinstance (mk_error c m) BaseError"
  by (simp add: isinstance_BaseError mk_error_def)

lemma issubclass_RefreshTokenReuse: "issubclass c RefreshTokenReuse \<longleftrightarrow> c = RefreshTokenReuse"
  by (cases c) (simp_all add: issubclass.simps)

lemma isinstance_RefreshTokenReuse:
  "isinstance e RefreshTokenReuse \<longleftrightarrow> (\<exists>m. e = AppError RefreshTokenReuse m)"
  by (cases e) (auto simp: issubclass_RefreshTokenReuse)

lemma mk_error_eq [simp]:
  "mk_error c m = mk_error c' m' \<longleftrightarrow>
    c = c' \<and> (case m of None \<Rightarrow> class_message c | Some t \<Rightarrow> t) =
      (case m' of None \<Rightarrow> class_message c' | Some t \<Rightarrow> t)"
  by (simp add: mk_error_def)

lemma mk_error_not_LibError [simp]: "mk_error c m \<noteq> LibError l" "LibError l \<noteq> mk_error c m"
  by (simp_all add: mk_error_def)

end
