(* ===== verification/PyText.thy ===== *)
theory PyText
  imports Prelude
begin

text \<open>
  What the service uses of Python's \<open>str\<close>, \<open>bytes\<close>, \<open>re\<close>, \<open>base64\<close> and \<open>uuid\<close>: \<open>strip\<close>,
  \<open>lower\<close>, \<open>upper\<close>, \<open>split\<close>, \<open>replace\<close>, UTF-8 encoding, regular expressions with
  \<open>fullmatch\<close>, URL-safe base64, hexadecimal digits, and the text form of a UUID.
  Characters are the code points 0 to 255 (see the prelude).
\<close>

section \<open>Characters\<close>

definition chr_ord :: "char \<Rightarrow> nat" where
  "chr_ord c = of_char c"

definition ord_chr :: "nat \<Rightarrow> char" where
  "ord_chr n = char_of n"

lemma chr_ord_bound [simp]: "chr_ord c < 256"
  by (simp add: chr_ord_def)

lemma chr_ord_ord_chr [simp]: "n < 256 \<Longrightarrow> chr_ord (ord_chr n) = n"
  by (simp add: chr_ord_def ord_chr_def)

lemma ord_chr_chr_ord [simp]: "ord_chr (chr_ord c) = c"
  by (simp add: chr_ord_def ord_chr_def)

lemma chr_ord_eq [simp]: "chr_ord c = chr_ord d \<longleftrightarrow> c = d"
  by (simp add: chr_ord_def)

lemma char_eq_chr_ord: "c = d \<longleftrightarrow> chr_ord c = chr_ord d"
  by simp

text \<open>\<open>str.isspace\<close> on one character.\<close>

definition py_isspace :: "char \<Rightarrow> bool" where
  "py_isspace c \<longleftrightarrow>
    (let n = chr_ord c in 9 \<le> n \<and> n \<le> 13 \<or> 28 \<le> n \<and> n \<le> 32 \<or> n = 133 \<or> n = 160)"

definition lower_char :: "char \<Rightarrow> char" where
  "lower_char c =
    (let n = chr_ord c in
     if 65 \<le> n \<and> n \<le> 90 \<or> 192 \<le> n \<and> n \<le> 222 \<and> n \<noteq> 215 then ord_chr (n + 32) else c)"

text \<open>
  \<open>upper\<close> of the letter at 223 is two letters; those of 181 and 255 lie beyond
  code point 255 and are left as they are.
\<close>

definition upper_char :: "char \<Rightarrow> string" where
  "upper_char c =
    (let n = chr_ord c in
     if 97 \<le> n \<and> n \<le> 122 \<or> 224 \<le> n \<and> n \<le> 254 \<and> n \<noteq> 247 then [ord_chr (n - 32)]
     else if n = 223 then ''SS'' else [c])"

definition py_strip :: "string \<Rightarrow> string" where
  "py_strip s = rev (dropWhile py_isspace (rev (dropWhile py_isspace s)))"

definition py_lower :: "string \<Rightarrow> string" where
  "py_lower s = map lower_char s"

definition py_upper :: "string \<Rightarrow> string" where
  "py_upper s = concat (map upper_char s)"

text \<open>\<open>s.split(c)\<close> for a separator of one character: never empty.\<close>

fun py_split :: "char \<Rightarrow> string \<Rightarrow> string list" where
  "py_split c [] = [[]]"
| "py_split c (x # xs) =
    (if x = c then [] # py_split c xs
     else (case py_split c xs of [] \<Rightarrow> [[x]] | p # ps \<Rightarrow> (x # p) # ps))"

subsection \<open>Stripping and lowering\<close>

lemma lower_char_idem [simp]: "lower_char (lower_char c) = lower_char c"
proof (cases "65 \<le> chr_ord c \<and> chr_ord c \<le> 90 \<or> 192 \<le> chr_ord c \<and> chr_ord c \<le> 222 \<and> chr_ord c \<noteq> 215")
  case True
  then have "chr_ord (lower_char c) = chr_ord c + 32"
    by (auto simp: lower_char_def Let_def)
  with True show ?thesis by (auto simp: lower_char_def [of "lower_char c"] Let_def)
next
  case False
  then have "lower_char c = c" by (auto simp: lower_char_def Let_def)
  then show ?thesis by simp
qed

lemma py_isspace_lower_char [simp]: "py_isspace (lower_char c) = py_isspace c"
proof (cases "65 \<le> chr_ord c \<and> chr_ord c \<le> 90 \<or> 192 \<le> chr_ord c \<and> chr_ord c \<le> 222 \<and> chr_ord c \<noteq> 215")
  case True
  then have "chr_ord (lower_char c) = chr_ord c + 32"
    by (auto simp: lower_char_def Let_def)
  with True show ?thesis by (auto simp: py_isspace_def Let_def)
next
  case False
  then have "lower_char c = c" by (auto simp: lower_char_def Let_def)
  then show ?thesis by simp
qed

lemma py_lower_idem [simp]: "py_lower (py_lower s) = py_lower s"
  by (simp add: py_lower_def)

lemma length_py_lower [simp]: "length (py_lower s) = length s"
  by (simp add: py_lower_def)

lemma length_py_strip: "length (py_strip s) \<le> length s"
proof -
  have "length (py_strip s) \<le> length (rev (dropWhile py_isspace s))"
    unfolding py_strip_def length_rev [of "dropWhile _ (rev _)"] by (rule length_dropWhile_le)
  also have "\<dots> \<le> length s"
    by (simp add: length_dropWhile_le)
  finally show ?thesis .
qed

text \<open>A string is stripped when neither end is white space; stripping changes no other string.\<close>

definition stripped :: "string \<Rightarrow> bool" where
  "stripped s \<longleftrightarrow> s = [] \<or> \<not> py_isspace (hd s) \<and> \<not> py_isspace (last s)"

lemma dropWhile_head: "\<not> P (hd xs) \<Longrightarrow> dropWhile P xs = xs"
  by (cases xs) auto

lemma py_strip_stripped: "stripped s \<Longrightarrow> py_strip s = s"
  by (cases "s = []") (auto simp: stripped_def py_strip_def dropWhile_head hd_rev)

lemma hd_dropWhile_space: "dropWhile P xs \<noteq> [] \<Longrightarrow> \<not> P (hd (dropWhile P xs))"
  by (rule hd_dropWhile)

lemma stripped_py_strip [simp]: "stripped (py_strip s)"
proof (cases "py_strip s = []")
  case False
  define t where "t = dropWhile py_isspace s"
  define u where "u = dropWhile py_isspace (rev t)"
  have s: "py_strip s = rev u" by (simp add: py_strip_def t_def u_def)
  with False have u: "u \<noteq> []" by simp
  then have "t \<noteq> []" by (auto simp: u_def)
  then have ht: "\<not> py_isspace (hd t)" unfolding t_def by (rule hd_dropWhile)
  have hu: "\<not> py_isspace (hd u)" using u unfolding u_def by (rule hd_dropWhile)
  have "\<exists>pre. rev t = pre @ u"
    unfolding u_def by (metis takeWhile_dropWhile_id)
  then have "last u = last (rev t)" using u by auto
  then have "last u = hd t" using \<open>t \<noteq> []\<close> by (simp add: last_rev)
  with hu ht u s show ?thesis by (simp add: stripped_def hd_rev last_rev)
qed (simp add: stripped_def)

lemma py_strip_idem [simp]: "py_strip (py_strip s) = py_strip s"
  by (rule py_strip_stripped) simp

lemma stripped_py_lower [simp]: "stripped (py_lower s) = stripped s"
  by (cases "s = []") (simp_all add: stripped_def py_lower_def hd_map last_map)

lemma py_strip_lower_strip [simp]: "py_strip (py_lower (py_strip s)) = py_lower (py_strip s)"
  by (rule py_strip_stripped) simp

section \<open>UTF-8\<close>

text \<open>\<open>s.encode()\<close>: one byte below code point 128, two from there to 255.\<close>

definition utf8_char :: "char \<Rightarrow> bytes" where
  "utf8_char c =
    (let n = chr_ord c in
     if n < 128 then [word_of_nat n] else [word_of_nat (192 + n div 64), word_of_nat (128 + n mod 64)])"

definition utf8_encode :: "string \<Rightarrow> bytes" where
  "utf8_encode s = concat (map utf8_char s)"

text \<open>\<open>b.decode()\<close> where every character fits below 256; \<open>None\<close> otherwise.\<close>

fun utf8_decode :: "bytes \<Rightarrow> string option" where
  "utf8_decode [] = Some []"
| "utf8_decode [b] = (if unat b < 128 then Some [ord_chr (unat b)] else None)"
| "utf8_decode (b # d # bs) =
    (if unat b < 128 then map_option ((#) (ord_chr (unat b))) (utf8_decode (d # bs))
     else if (unat b = 194 \<or> unat b = 195) \<and> 128 \<le> unat d \<and> unat d < 192
     then map_option ((#) (ord_chr ((unat b - 192) * 64 + (unat d - 128)))) (utf8_decode bs)
     else None)"

lemma unat_byte: "n < 256 \<Longrightarrow> unat (word_of_nat n :: byte) = n"
  by (simp add: unat_of_nat)

lemma utf8_decode_encode: "utf8_decode (utf8_encode s) = Some s"
proof (induction s)
  case (Cons c s)
  have n: "chr_ord c < 256" by simp
  show ?case
  proof (cases "chr_ord c < 128")
    case True
    then have u: "unat (word_of_nat (chr_ord c) :: byte) = chr_ord c"
      by (simp add: unat_byte)
    have e: "utf8_encode (c # s) = word_of_nat (chr_ord c) # utf8_encode s"
      using True by (simp add: utf8_encode_def utf8_char_def Let_def)
    show ?thesis
    proof (cases "utf8_encode s")
      case Nil
      with Cons.IH have "s = []" by simp
      with Nil e u True show ?thesis by simp
    next
      case (Cons b bs)
      with Cons.IH e u True show ?thesis by simp
    qed
  next
    case False
    have d: "chr_ord c div 64 = 2 \<or> chr_ord c div 64 = 3"
    proof -
      have "2 \<le> chr_ord c div 64" using False by (simp add: less_eq_div_iff_mult_less_eq)
      moreover have "chr_ord c div 64 < 4" using n by (simp add: less_mult_imp_div_less)
      ultimately show ?thesis by linarith
    qed
    have m: "chr_ord c mod 64 < 64" by simp
    have u1: "unat (word_of_nat (192 + chr_ord c div 64) :: byte) = 192 + chr_ord c div 64"
      using d by (intro unat_byte) auto
    have u2: "unat (word_of_nat (128 + chr_ord c mod 64) :: byte) = 128 + chr_ord c mod 64"
      using m by (intro unat_byte) simp
    have e: "utf8_encode (c # s) =
        word_of_nat (192 + chr_ord c div 64) # word_of_nat (128 + chr_ord c mod 64) # utf8_encode s"
      using False by (simp add: utf8_encode_def utf8_char_def Let_def)
    have c: "chr_ord c div 64 * 64 + chr_ord c mod 64 = chr_ord c" by simp
    have l: "192 + chr_ord c div 64 = 194 \<or> 192 + chr_ord c div 64 = 195" using d by auto
    have i: "(192 + chr_ord c div 64 - 192) * 64 + (128 + chr_ord c mod 64 - 128) = chr_ord c"
      using c by simp
    show ?thesis
      unfolding e utf8_decode.simps u1 u2 i Cons.IH using l m by simp
  qed
qed (simp add: utf8_encode_def)

lemma utf8_encode_inj: "utf8_encode s = utf8_encode t \<longleftrightarrow> s = t"
  by (metis option.inject utf8_decode_encode)

lemma length_utf8_encode: "length s \<le> length (utf8_encode s)"
  by (induction s) (auto simp: utf8_encode_def utf8_char_def Let_def)

lemma utf8_encode_Cons: "utf8_encode (c # s) = utf8_char c @ utf8_encode s"
  by (simp add: utf8_encode_def)

lemma utf8_char_ascii: "unat b < 128 \<Longrightarrow> utf8_char (ord_chr (unat b)) = [b]"
  by (simp add: utf8_char_def Let_def)

lemma utf8_char_latin:
  assumes "unat b = 194 \<or> unat b = 195" and "128 \<le> unat d" and "unat d < 192"
  shows "utf8_char (ord_chr ((unat b - 192) * 64 + (unat d - 128))) = [b, d]"
proof -
  let ?n = "(unat b - 192) * 64 + (unat d - 128)"
  have k: "unat d - 128 < 64" using assms(2,3) by linarith
  have "?n mod 64 = (unat d - 128) mod 64" by (rule mod_mult_self3)
  then have "?n mod 64 = unat d - 128" using k by simp
  then have n: "128 \<le> ?n" "?n < 256" "?n div 64 = unat b - 192" "?n mod 64 = unat d - 128"
    using assms k by auto
  have b: "192 + (unat b - 192) = unat b" and d: "128 + (unat d - 128) = unat d" using assms by auto
  show ?thesis
    using n(1,2) by (simp only: utf8_char_def Let_def chr_ord_ord_chr n(3,4) b d of_nat_unat ucast_id not_less [symmetric]) simp
qed

text \<open>Text that decodes encodes to the same bytes.\<close>

lemma utf8_encode_decode: "utf8_decode b = Some s \<Longrightarrow> utf8_encode s = b"
proof (induction b arbitrary: s rule: utf8_decode.induct)
  case 1
  then show ?case by (simp add: utf8_encode_def)
next
  case (2 b)
  then show ?case by (auto simp: utf8_encode_Cons utf8_char_ascii utf8_encode_def split: if_splits)
next
  case (3 b d bs)
  show ?case
  proof (cases "unat b < 128")
    case True
    with 3(3) obtain t where "utf8_decode (d # bs) = Some t" "s = ord_chr (unat b) # t" by auto
    with 3(1) [OF True] show ?thesis by (simp add: utf8_encode_Cons utf8_char_ascii [OF True])
  next
    case False
    with 3(3) obtain t where c: "unat b = 194 \<or> unat b = 195" "128 \<le> unat d" "unat d < 192"
      and t: "utf8_decode bs = Some t" "s = ord_chr ((unat b - 192) * 64 + (unat d - 128)) # t"
      by (auto split: if_splits)
    from 3(2) [OF False _ t(1)] c have "utf8_encode t = bs" by blast
    with t(2) show ?thesis by (simp only: utf8_encode_Cons utf8_char_latin [OF c] append_Cons append_Nil)
  qed
qed

end
