(* ===== verification/PyCodec.thy ===== *)
theory PyCodec
  imports PyText
begin

text \<open>
  The encodings of the standard library behind the service's tokens and identifiers:
  URL-safe base64 (\<open>secrets.token_urlsafe\<close>), hexadecimal digits (\<open>hexdigest\<close>), and
  \<open>str(UUID)\<close> with its inverse, the constructor \<open>UUID(text)\<close>.
\<close>

section \<open>URL-safe base64\<close>

definition b64_alphabet :: string where
  "b64_alphabet = ''ABCDEFGHIJKLMNOPQRSTUVWXYZabcdefghijklmnopqrstuvwxyz0123456789-_''"

text \<open>Three bytes become four sextets; one or two bytes at the end become two or three.\<close>

fun b64_sextets :: "nat list \<Rightarrow> nat list" where
  "b64_sextets (a # b # c # r) =
    (a div 4) # ((a mod 4) * 16 + b div 16) # ((b mod 16) * 4 + c div 64) # (c mod 64) # b64_sextets r"
| "b64_sextets [a, b] = [a div 4, (a mod 4) * 16 + b div 16, (b mod 16) * 4]"
| "b64_sextets [a] = [a div 4, (a mod 4) * 16]"
| "b64_sextets [] = []"

definition urlsafe_b64encode :: "bytes \<Rightarrow> string" where
  "urlsafe_b64encode bs =
    map (\<lambda>i. b64_alphabet ! i) (b64_sextets (map unat bs))
      @ replicate ((3 - length bs mod 3) mod 3) (CHR ''='')"

definition py_rstrip_char :: "char \<Rightarrow> string \<Rightarrow> string" where
  "py_rstrip_char c s = rev (dropWhile (\<lambda>x. x = c) (rev s))"

text \<open>\<open>base64.urlsafe_b64encode(tok).rstrip(b'=')\<close>, the text of a token.\<close>

definition b64_token :: "bytes \<Rightarrow> string" where
  "b64_token bs = py_rstrip_char (CHR ''='') (urlsafe_b64encode bs)"

fun b64_unsextets :: "nat list \<Rightarrow> nat list" where
  "b64_unsextets (p # q # r # s # t) =
    (p * 4 + q div 16) # ((q mod 16) * 16 + r div 4) # ((r mod 4) * 64 + s) # b64_unsextets t"
| "b64_unsextets [p, q, r] = [p * 4 + q div 16, (q mod 16) * 16 + r div 4]"
| "b64_unsextets [p, q] = [p * 4 + q div 16]"
| "b64_unsextets _ = []"

lemma div_mod_join: "x div 4 * 4 + x mod 4 = (x::nat)" "x div 16 * 16 + x mod 16 = (x::nat)"
  "x div 64 * 64 + x mod 64 = (x::nat)"
  by simp_all

lemma sextet_parts:
  assumes "b < (256::nat)"
  shows "((a mod 4) * 16 + b div 16) div 16 = a mod 4" and "((a mod 4) * 16 + b div 16) mod 16 = b div 16"
    and "((a mod 16) * 4 + b div 64) div 4 = a mod 16" and "((a mod 16) * 4 + b div 64) mod 4 = b div 64"
proof -
  have "b div 16 < 16" and "b div 64 < 4" using assms by (simp_all add: less_mult_imp_div_less)
  then show "((a mod 4) * 16 + b div 16) div 16 = a mod 4" "((a mod 4) * 16 + b div 16) mod 16 = b div 16"
    "((a mod 16) * 4 + b div 64) div 4 = a mod 16" "((a mod 16) * 4 + b div 64) mod 4 = b div 64"
    by simp_all
qed

lemma small_parts:
  assumes "b < (256::nat)"
  shows "b div 16 div 16 = 0" and "b div 16 mod 16 = b div 16"
    and "b div 64 div 4 = 0" and "b div 64 mod 4 = b div 64"
proof -
  have "b div 16 < 16" and "b div 64 < 4" using assms by (simp_all add: less_mult_imp_div_less)
  then show "b div 16 div 16 = 0" "b div 16 mod 16 = b div 16"
    "b div 64 div 4 = 0" "b div 64 mod 4 = b div 64" by simp_all
qed

lemma b64_unsextets_sextets:
  "\<forall>x \<in> set xs. x < 256 \<Longrightarrow> b64_unsextets (b64_sextets xs) = xs"
  by (induction xs rule: b64_sextets.induct) (simp_all add: sextet_parts small_parts div_mod_join)

lemma b64_sextets_bound: "\<forall>x \<in> set xs. x < 256 \<Longrightarrow> \<forall>y \<in> set (b64_sextets xs). y < 64"
proof (induction xs rule: b64_sextets.induct)
  case (1 a b c r)
  have "a div 4 < 64" "b div 16 < 16" "c div 64 < 4" using "1.prems" by (simp_all add: less_mult_imp_div_less)
  moreover have "a mod 4 < 4" "b mod 16 < 16" "c mod 64 < 64" by simp_all
  ultimately show ?case using 1 by (auto simp: less_mult_imp_div_less)
next
  case (2 a b)
  have "a div 4 < 64" "b div 16 < 16" using "2.prems" by (simp_all add: less_mult_imp_div_less)
  moreover have "a mod 4 < 4" "b mod 16 < 16" by simp_all
  ultimately show ?case by auto
next
  case (3 a)
  have "a div 4 < 64" using "3.prems" by (simp add: less_mult_imp_div_less)
  moreover have "a mod 4 < 4" by simp
  ultimately show ?case by auto
qed simp

lemma length_b64_sextets: "length (b64_sextets xs) = (4 * length xs + 2) div 3"
proof (induction xs rule: b64_sextets.induct)
  case (1 a b c r)
  have "(4 * length (a # b # c # r) + 2) div 3 = (12 + (4 * length r + 2)) div 3" by simp
  also have "\<dots> = 4 + (4 * length r + 2) div 3" by simp
  finally show ?case using 1 by simp
qed simp_all

lemma length_b64_alphabet: "length b64_alphabet = 64"
  by (simp add: b64_alphabet_def)

lemma distinct_b64_alphabet: "distinct b64_alphabet"
  by (simp add: b64_alphabet_def)

lemma unat_byte_bound: "\<forall>x \<in> set (map unat (bs :: bytes)). x < 256"
proof -
  have "unat b < 256" for b :: byte using unsigned_less [of b] by simp
  then show ?thesis by simp
qed

lemma pad_not_in_alphabet: "CHR ''='' \<notin> set b64_alphabet"
  by (simp add: b64_alphabet_def)

lemma b64_chars_in_alphabet:
  "set (map (\<lambda>i. b64_alphabet ! i) (b64_sextets (map unat (bs :: bytes)))) \<subseteq> set b64_alphabet"
proof
  fix c assume "c \<in> set (map (\<lambda>i. b64_alphabet ! i) (b64_sextets (map unat bs)))"
  then obtain i where i: "i \<in> set (b64_sextets (map unat bs))" and c: "c = b64_alphabet ! i" by auto
  have "i < 64" using b64_sextets_bound [OF unat_byte_bound] i by blast
  then show "c \<in> set b64_alphabet" by (simp add: c length_b64_alphabet)
qed

lemma rstrip_replicate: "c \<notin> set s \<Longrightarrow> py_rstrip_char c (s @ replicate n c) = s"
proof -
  assume c: "c \<notin> set s"
  have "dropWhile (\<lambda>x. x = c) (replicate n c @ rev s) = dropWhile (\<lambda>x. x = c) (rev s)"
    by (induction n) auto
  also have "\<dots> = rev s" using c by (intro dropWhile_eq_self_iff [THEN iffD2]) (metis hd_in_set set_rev)
  finally show ?thesis by (simp add: py_rstrip_char_def)
qed

lemma b64_token_eq:
  "b64_token bs = map (\<lambda>i. b64_alphabet ! i) (b64_sextets (map unat bs))"
  unfolding b64_token_def urlsafe_b64encode_def
  using b64_chars_in_alphabet [of bs] pad_not_in_alphabet by (intro rstrip_replicate) blast

lemma length_b64_token: "length (b64_token bs) = (4 * length bs + 2) div 3"
  by (simp add: b64_token_eq length_b64_sextets)

lemma set_b64_token: "set (b64_token bs) \<subseteq> set b64_alphabet"
  unfolding b64_token_eq by (rule b64_chars_in_alphabet)

lemma b64_token_inj: "b64_token bs = b64_token cs \<Longrightarrow> bs = cs"
proof -
  assume eq: "b64_token bs = b64_token cs"
  have inj: "inj_on (\<lambda>i. b64_alphabet ! i) {..<64}"
    using distinct_b64_alphabet by (simp add: inj_on_def nth_eq_iff_index_eq length_b64_alphabet)
  have "set (b64_sextets (map unat xs)) \<subseteq> {..<64}" for xs :: bytes
    using b64_sextets_bound [OF unat_byte_bound] by blast
  then have "b64_sextets (map unat bs) = b64_sextets (map unat cs)"
    using eq unfolding b64_token_eq by (subst (asm) inj_on_map_eq_map) (auto intro: inj_on_subset [OF inj])
  then have "map unat bs = map unat cs"
    by (metis b64_unsextets_sextets unat_byte_bound)
  moreover have "inj (unat :: byte \<Rightarrow> nat)" by (rule injI) (simp add: word_unat_eq_iff)
  ultimately show "bs = cs" by (rule map_injective)
qed

section \<open>Hexadecimal digits\<close>

definition hex_alphabet :: string where
  "hex_alphabet = ''0123456789abcdef''"

definition hex_digit :: "nat \<Rightarrow> char" where
  "hex_digit n = hex_alphabet ! (n mod 16)"

text \<open>\<open>bytes.hex()\<close>\<close>

definition bytes_hex :: "bytes \<Rightarrow> string" where
  "bytes_hex bs = concat (map (\<lambda>b. [hex_digit (unat b div 16), hex_digit (unat b)]) bs)"

lemma hex_digit_in_alphabet: "hex_digit n \<in> set hex_alphabet"
  unfolding hex_digit_def by (rule nth_mem) (simp add: hex_alphabet_def)

lemma length_bytes_hex [simp]: "length (bytes_hex bs) = 2 * length bs"
  by (induction bs) (simp_all add: bytes_hex_def)

lemma set_bytes_hex: "set (bytes_hex bs) \<subseteq> set hex_alphabet"
  using hex_digit_in_alphabet by (auto simp: bytes_hex_def)

text \<open>\<open>'%0kx' % n\<close> for a number below \<open>16 ^ k\<close>.\<close>

fun hex_fixed :: "nat \<Rightarrow> nat \<Rightarrow> string" where
  "hex_fixed 0 n = []"
| "hex_fixed (Suc k) n = hex_fixed k (n div 16) @ [hex_digit n]"

lemma length_hex_fixed [simp]: "length (hex_fixed k n) = k"
  by (induction k arbitrary: n) simp_all

lemma set_hex_fixed: "set (hex_fixed k n) \<subseteq> set hex_alphabet"
  by (induction k arbitrary: n) (auto simp: hex_digit_in_alphabet)

section \<open>UUIDs as text\<close>

text \<open>\<open>str(u)\<close>: 32 digits in groups of 8, 4, 4, 4 and 12.\<close>

definition uuid_str :: "uuid \<Rightarrow> string" where
  "uuid_str u =
    (let h = hex_fixed 32 (unat u) in
     py_slice 0 8 h @ ''-'' @ py_slice 8 12 h @ ''-'' @ py_slice 12 16 h @ ''-''
       @ py_slice 16 20 h @ ''-'' @ py_slice 20 32 h)"

text \<open>\<open>s.replace(old, new)\<close> for \<open>old = c # cs\<close>.\<close>

function py_replace :: "char \<Rightarrow> string \<Rightarrow> string \<Rightarrow> string \<Rightarrow> string" where
  "py_replace c cs new [] = []"
| "py_replace c cs new (x # xs) =
    (if take (Suc (length cs)) (x # xs) = c # cs
     then new @ py_replace c cs new (drop (length cs) xs)
     else x # py_replace c cs new xs)"
  by pat_completeness auto
termination by (relation "measure (\<lambda>(c, cs, new, s). length s)") auto

definition strip_chars :: "char list \<Rightarrow> string \<Rightarrow> string" where
  "strip_chars cs s = rev (dropWhile (\<lambda>x. x \<in> set cs) (rev (dropWhile (\<lambda>x. x \<in> set cs) s)))"

definition hex_val :: "char \<Rightarrow> nat option" where
  "hex_val c =
    (let n = chr_ord c in
     if 48 \<le> n \<and> n \<le> 57 then Some (n - 48)
     else if 97 \<le> n \<and> n \<le> 102 then Some (n - 87)
     else if 65 \<le> n \<and> n \<le> 70 then Some (n - 55)
     else None)"

text \<open>
  \<open>int(s, 16)\<close>: white space around, one sign, an optional \<open>0x\<close>, digits with single
  underscores between them.
\<close>

fun int16_more :: "nat \<Rightarrow> string \<Rightarrow> nat option" where
  "int16_more acc [] = Some acc"
| "int16_more acc (c # cs) =
    (if c = CHR ''_''
     then (case cs of [] \<Rightarrow> None
           | d # ds \<Rightarrow> (case hex_val d of None \<Rightarrow> None | Some v \<Rightarrow> int16_more (16 * acc + v) ds))
     else (case hex_val c of None \<Rightarrow> None | Some v \<Rightarrow> int16_more (16 * acc + v) cs))"

definition int16_digits :: "string \<Rightarrow> nat option" where
  "int16_digits s =
    (case s of [] \<Rightarrow> None
     | d # ds \<Rightarrow> (case hex_val d of None \<Rightarrow> None | Some v \<Rightarrow> int16_more v ds))"

definition int16_body :: "string \<Rightarrow> nat option" where
  "int16_body s =
    (case s of
       z # x # r \<Rightarrow>
         if z = CHR ''0'' \<and> (x = CHR ''x'' \<or> x = CHR ''X'')
         then int16_digits (case r of [] \<Rightarrow> [] | u # r' \<Rightarrow> if u = CHR ''_'' then r' else r)
         else int16_digits s
     | _ \<Rightarrow> int16_digits s)"

definition py_int16 :: "string \<Rightarrow> int option" where
  "py_int16 s =
    (case py_strip s of
       [] \<Rightarrow> None
     | c # cs \<Rightarrow>
         if c = CHR ''+'' then map_option int (int16_body cs)
         else if c = CHR ''-'' then map_option (\<lambda>n. - int n) (int16_body cs)
         else map_option int (int16_body (c # cs)))"

text \<open>\<open>UUID(text)\<close>; \<open>None\<close> stands for its \<open>ValueError\<close>.\<close>

definition uuid_parse :: "string \<Rightarrow> uuid option" where
  "uuid_parse s =
    (let h = py_replace (CHR ''u'') ''uid:'' [] (py_replace (CHR ''u'') ''rn:'' [] s);
         h = py_replace (CHR ''-'') [] [] (strip_chars ''{}'' h)
     in if length h \<noteq> 32 then None
        else (case py_int16 h of
                None \<Rightarrow> None
              | Some i \<Rightarrow> if 0 \<le> i \<and> i < 2 ^ 128 then Some (word_of_int i) else None))"

subsection \<open>The constructor inverts the text form\<close>

lemma py_replace_absent: "c \<notin> set s \<Longrightarrow> py_replace c cs new s = s"
  by (induction c cs new s rule: py_replace.induct) auto

lemma py_replace_single: "py_replace c [] [] s = filter (\<lambda>x. x \<noteq> c) s"
  by (induction c "[] :: string" "[] :: string" s rule: py_replace.induct) auto

lemma strip_chars_absent: "set cs \<inter> set s = {} \<Longrightarrow> strip_chars cs s = s"
proof -
  assume d: "set cs \<inter> set s = {}"
  then have "dropWhile (\<lambda>x. x \<in> set cs) s = s"
    by (intro dropWhile_eq_self_iff [THEN iffD2]) (metis disjoint_iff hd_in_set)
  moreover have "dropWhile (\<lambda>x. x \<in> set cs) (rev s) = rev s"
    using d by (intro dropWhile_eq_self_iff [THEN iffD2]) (metis disjoint_iff hd_in_set set_rev)
  ultimately show ?thesis by (simp add: strip_chars_def)
qed

lemma hex_alphabet_cases:
  assumes "c \<in> set hex_alphabet"
  shows "c \<noteq> CHR ''_'' \<and> c \<noteq> CHR ''x'' \<and> c \<noteq> CHR ''X'' \<and> c \<noteq> CHR ''+'' \<and> c \<noteq> CHR ''-''
    \<and> c \<noteq> CHR ''u'' \<and> c \<noteq> CHR ''{'' \<and> c \<noteq> CHR ''}'' \<and> \<not> py_isspace c \<and> hex_val c \<noteq> None"
  using assms unfolding hex_alphabet_def
  by (auto simp: py_isspace_def hex_val_def chr_ord_def)

lemma hex_val_hex_digit: "hex_val (hex_digit n) = Some (n mod 16)"
proof -
  have "\<forall>i \<in> set [0..<16]. hex_val (hex_alphabet ! i) = Some i"
    by (simp add: upt_rec hex_alphabet_def hex_val_def chr_ord_def numeral_eq_Suc)
  then show ?thesis by (simp add: hex_digit_def)
qed

lemma int16_more_append:
  "set s \<subseteq> set hex_alphabet \<Longrightarrow>
    int16_more acc (s @ t) = (case int16_more acc s of None \<Rightarrow> None | Some v \<Rightarrow> int16_more v t)"
proof (induction s arbitrary: acc)
  case (Cons c s)
  then show ?case using hex_alphabet_cases [of c] by (auto split: option.split)
qed simp

lemma int16_more_hex_fixed: "int16_more acc (hex_fixed k n) = Some (acc * 16 ^ k + n mod 16 ^ k)"
proof (induction k arbitrary: n)
  case (Suc k)
  have d: "hex_digit n \<noteq> CHR ''_''"
    using hex_alphabet_cases [OF hex_digit_in_alphabet] by blast
  have "n mod 16 ^ Suc k = 16 * (n div 16 mod 16 ^ k) + n mod 16"
    by (simp add: mod_mult2_eq)
  then show ?case
    using Suc d by (simp add: int16_more_append set_hex_fixed hex_val_hex_digit algebra_simps)
qed simp

lemma py_int16_hex:
  assumes "set s \<subseteq> set hex_alphabet" and "s \<noteq> []"
  shows "py_int16 s = map_option int (int16_more 0 s)"
proof -
  obtain c cs where s: "s = c # cs" using assms(2) by (cases s) auto
  have "\<not> py_isspace (hd s)" "\<not> py_isspace (last s)"
    using assms hex_alphabet_cases by (meson hd_in_set last_in_set subsetD)+
  then have st: "py_strip s = s" by (intro py_strip_stripped) (simp add: stripped_def)
  have c: "c \<noteq> CHR ''+''" "c \<noteq> CHR ''-''" "c \<noteq> CHR ''_''"
    using assms s hex_alphabet_cases [of c] by auto
  have "int16_body s = int16_digits s"
  proof (cases cs)
    case (Cons x r)
    then have "x \<noteq> CHR ''x''" "x \<noteq> CHR ''X''" using assms s hex_alphabet_cases [of x] by auto
    then show ?thesis by (simp add: int16_body_def s Cons)
  qed (simp add: int16_body_def s)
  moreover have "int16_digits s = int16_more 0 s"
    using c by (auto simp: int16_digits_def s split: option.split)
  ultimately show ?thesis using c st by (simp add: py_int16_def s)
qed

lemma uuid_groups:
  assumes "length h = 32"
  shows "py_slice 0 8 h @ py_slice 8 12 h @ py_slice 12 16 h @ py_slice 16 20 h @ py_slice 20 32 h = h"
proof -
  have "py_slice 16 20 h @ py_slice 20 32 h = py_slice 16 32 h" by (rule py_slice_append) simp_all
  moreover have "py_slice 12 16 h @ py_slice 16 32 h = py_slice 12 32 h" by (rule py_slice_append) simp_all
  moreover have "py_slice 8 12 h @ py_slice 12 32 h = py_slice 8 32 h" by (rule py_slice_append) simp_all
  moreover have "py_slice 0 8 h @ py_slice 8 32 h = py_slice 0 32 h" by (rule py_slice_append) simp_all
  ultimately show ?thesis using assms by (simp add: py_slice_def)
qed

lemma set_py_slice: "set (py_slice i j xs) \<subseteq> set xs"
  unfolding py_slice_def by (meson set_drop_subset set_take_subset subset_trans)

lemma uuid_parse_str: "uuid_parse (uuid_str u) = Some u"
proof -
  define h where "h = hex_fixed 32 (unat u)"
  have hs: "set h \<subseteq> set hex_alphabet" and hl: "length h = 32"
    by (simp_all only: h_def set_hex_fixed length_hex_fixed)
  have us: "uuid_str u = py_slice 0 8 h @ ''-'' @ py_slice 8 12 h @ ''-'' @ py_slice 12 16 h @ ''-''
       @ py_slice 16 20 h @ ''-'' @ py_slice 20 32 h"
    by (simp add: uuid_str_def h_def Let_def)
  have sub: "set (uuid_str u) \<subseteq> insert (CHR ''-'') (set hex_alphabet)"
    unfolding us using set_py_slice [of _ _ h] hs by (simp, blast)
  then have u: "CHR ''u'' \<notin> set (uuid_str u)" and b: "set ''{}'' \<inter> set (uuid_str u) = {}"
    by (auto simp: hex_alphabet_def)
  have nd: "filter (\<lambda>x. x \<noteq> CHR ''-'') (py_slice i j h) = py_slice i j h" for i j
    using set_py_slice [of i j h] hs hex_alphabet_cases by (intro filter_True) blast
  have f: "filter (\<lambda>x. x \<noteq> CHR ''-'') (uuid_str u) = h"
    unfolding us using uuid_groups [OF hl] by (simp add: nd)
  have lt: "unat u < 16 ^ 32" using unsigned_less [of u] by simp
  have "h \<noteq> []" using hl by auto
  then have "py_int16 h = map_option int (int16_more 0 h)" by (rule py_int16_hex [OF hs])
  moreover have "int16_more 0 h = Some (unat u)"
    using lt by (simp add: h_def int16_more_hex_fixed del: hex_fixed.simps)
  ultimately have "py_int16 h = Some (int (unat u))" by simp
  moreover have "uint u < 2 ^ 128" using unsigned_less [of u] by simp
  moreover have "word_of_int (int (unat u)) = u" by simp
  ultimately show ?thesis
    by (simp add: uuid_parse_def Let_def py_replace_absent [OF u] strip_chars_absent [OF b]
        py_replace_single f hl)
qed

lemma uuid_str_inj: "uuid_str u = uuid_str v \<Longrightarrow> u = v"
  by (metis option.inject uuid_parse_str)

end
