(* ===== verification/Sha256.thy ===== *)
theory Sha256
  imports PyCodec
begin

text \<open>
  SHA-256 (FIPS 180-4) on bytes, as \<open>hashlib.sha256(data).hexdigest()\<close> computes it: 32-bit
  words that wrap around, blocks of 64 bytes, the digest as 64 hexadecimal digits.
\<close>

unbundle bit_operations_syntax

type_synonym u32 = "32 word"

definition rotr :: "nat \<Rightarrow> u32 \<Rightarrow> u32" where
  "rotr n x = drop_bit n x OR push_bit (32 - n) x"

definition sha_ch :: "u32 \<Rightarrow> u32 \<Rightarrow> u32 \<Rightarrow> u32" where
  "sha_ch x y z = (x AND y) XOR (NOT x AND z)"

definition sha_maj :: "u32 \<Rightarrow> u32 \<Rightarrow> u32 \<Rightarrow> u32" where
  "sha_maj x y z = (x AND y) XOR (x AND z) XOR (y AND z)"

definition sha_S0 :: "u32 \<Rightarrow> u32" where
  "sha_S0 x = rotr 2 x XOR rotr 13 x XOR rotr 22 x"

definition sha_S1 :: "u32 \<Rightarrow> u32" where
  "sha_S1 x = rotr 6 x XOR rotr 11 x XOR rotr 25 x"

definition sha_s0 :: "u32 \<Rightarrow> u32" where
  "sha_s0 x = rotr 7 x XOR rotr 18 x XOR drop_bit 3 x"

definition sha_s1 :: "u32 \<Rightarrow> u32" where
  "sha_s1 x = rotr 17 x XOR rotr 19 x XOR drop_bit 10 x"

text \<open>
  The constants are the first 32 bits of the fractional parts of the cube roots of the first
  64 primes, and of the square roots of the first eight for the initial state.
\<close>

definition small_primes :: "nat list" where
  "small_primes = filter (\<lambda>n. list_all (\<lambda>d. n mod d \<noteq> 0) [2..<n]) [2..<312]"

definition root_fraction :: "nat \<Rightarrow> nat \<Rightarrow> u32" where
  "root_fraction k p =
    word_of_nat (foldl (\<lambda>r i. if (r + 2 ^ i) ^ k \<le> p * (2 ^ 32) ^ k then r + 2 ^ i else r) 0 (rev [0..<37]))"

definition sha_K :: "u32 list" where
  "sha_K = map (root_fraction 3) small_primes"

text \<open>The eight words of the state, as a tuple.\<close>

type_synonym sha_state = "u32 \<times> u32 \<times> u32 \<times> u32 \<times> u32 \<times> u32 \<times> u32 \<times> u32"

definition sha_H0 :: sha_state where
  "sha_H0 =
    (case map (root_fraction 2) (take 8 small_primes) of
       [a, b, c, d, e, f, g, h] \<Rightarrow> (a, b, c, d, e, f, g, h)
     | _ \<Rightarrow> (0, 0, 0, 0, 0, 0, 0, 0))"

text \<open>
  The message schedule, newest word first: each step puts one more word in front of the
  list, and 48 steps extend the 16 words of a block to 64.
\<close>

fun sha_extend :: "nat \<Rightarrow> u32 list \<Rightarrow> u32 list" where
  "sha_extend 0 ws = ws"
| "sha_extend (Suc n) ws =
    sha_extend n ((sha_s1 (ws ! 1) + ws ! 6 + sha_s0 (ws ! 14) + ws ! 15) # ws)"

definition sha_round :: "u32 \<times> u32 \<Rightarrow> sha_state \<Rightarrow> sha_state" where
  "sha_round = (\<lambda>(k, w) (a, b, c, d, e, f, g, h).
    (let t1 = h + sha_S1 e + sha_ch e f g + k + w;
         t2 = sha_S0 a + sha_maj a b c
     in (t1 + t2, a, b, c, d + t1, e, f, g)))"

definition sha_add :: "sha_state \<Rightarrow> sha_state \<Rightarrow> sha_state" where
  "sha_add = (\<lambda>(a, b, c, d, e, f, g, h) (a', b', c', d', e', f', g', h').
    (a + a', b + b', c + c', d + d', e + e', f + f', g + g', h + h'))"

definition be_word :: "bytes \<Rightarrow> u32" where
  "be_word bs = foldl (\<lambda>acc b. push_bit 8 acc OR ucast b) 0 bs"

fun be_words :: "bytes \<Rightarrow> u32 list" where
  "be_words (a # b # c # d # r) = be_word [a, b, c, d] # be_words r"
| "be_words _ = []"

definition sha_compress :: "sha_state \<Rightarrow> bytes \<Rightarrow> sha_state" where
  "sha_compress st block =
    sha_add st (fold sha_round (zip sha_K (rev (sha_extend 48 (rev (be_words block))))) st)"

definition be_bytes64 :: "64 word \<Rightarrow> bytes" where
  "be_bytes64 n = map (\<lambda>k. ucast (drop_bit k n)) [56, 48, 40, 32, 24, 16, 8, 0]"

text \<open>One \<open>0x80\<close> byte, zeros up to 56 modulo 64, the length in bits in eight bytes.\<close>

definition sha_pad :: "bytes \<Rightarrow> bytes" where
  "sha_pad m = m @ [0x80] @ replicate ((119 - length m mod 64) mod 64) 0 @ be_bytes64 (word_of_nat (8 * length m))"

function sha_blocks :: "sha_state \<Rightarrow> bytes \<Rightarrow> sha_state" where
  "sha_blocks st m =
    (if length m < 64 then st else sha_blocks (sha_compress st (take 64 m)) (drop 64 m))"
  by pat_completeness auto
termination by (relation "measure (\<lambda>(st, m). length m)") auto

declare sha_blocks.simps [simp del]

definition word_be_bytes :: "u32 \<Rightarrow> bytes" where
  "word_be_bytes w = [ucast (drop_bit 24 w), ucast (drop_bit 16 w), ucast (drop_bit 8 w), ucast w]"

definition sha256 :: "bytes \<Rightarrow> bytes" where
  "sha256 m =
    (case sha_blocks sha_H0 (sha_pad m) of (a, b, c, d, e, f, g, h) \<Rightarrow>
       concat (map word_be_bytes [a, b, c, d, e, f, g, h]))"

subsection \<open>The digest has 32 bytes, the padded message whole blocks\<close>

lemma length_sha256 [simp]: "length (sha256 m) = 32"
  by (simp add: sha256_def word_be_bytes_def split: prod.split)

lemma length_sha_pad: "length (sha_pad m) mod 64 = 0"
proof -
  define q r where "q = length m div 64" and "r = length m mod 64"
  have r: "r < 64" and m: "length m = 64 * q + r" by (simp_all add: q_def r_def)
  have l: "length (sha_pad m) = length m + 1 + (119 - r) mod 64 + 8"
    by (simp add: sha_pad_def be_bytes64_def r_def)
  show ?thesis
  proof (cases "r \<le> 55")
    case True
    then have "(119 - r) mod 64 = 55 - r" by (simp add: mod_if)
    then have "length (sha_pad m) = 64 * (q + 1)" using True m l by simp
    then show ?thesis by simp
  next
    case False
    then have "(119 - r) mod 64 = 119 - r" by simp
    then have "length (sha_pad m) = 64 * (q + 2)" using False r m l by simp
    then show ?thesis by simp
  qed
qed

end
