(* ===== verification/Platform.thy ===== *)
theory Platform
  imports Exceptions PyCodec Sha256
begin

text \<open>
  The service's surroundings and \<^verbatim>\<open>app/core/utils\<close>: the clock, the random sources, bcrypt
  and PyJWT as parameters; \<open>utc_now\<close>, \<open>uuid4\<close>, token generation and hashing on top of them.
\<close>

section \<open>Parameters\<close>

text \<open>
  Time and randomness differ at every call: the environment gives, for each moment (a
  natural number), what a call made at that moment returns. \<open>bcrypt\<close> and PyJWT are
  third-party code: \<open>bcrypt_hashpw\<close> and \<open>bcrypt_checkpw\<close> return \<open>None\<close> where they raise
  \<open>ValueError\<close>; \<open>jwt_decode\<close> gets the time at which it checks the expiry.
\<close>

datatype jwt_error = ExpiredSignatureError | InvalidTokenError

datatype claim = ClaimStr string | ClaimTime datetime

type_synonym payload = "(string \<times> claim) list"

record sysenv =
  now_at :: "nat \<Rightarrow> datetime"
  uuid_at :: "nat \<Rightarrow> uuid"
  urandom_at :: "nat \<Rightarrow> nat \<Rightarrow> byte"
  gensalt_at :: "nat \<Rightarrow> bytes"
  bcrypt_hashpw :: "bytes \<Rightarrow> bytes \<Rightarrow> bytes option"
  bcrypt_checkpw :: "bytes \<Rightarrow> bytes \<Rightarrow> bool option"
  jwt_encode :: "payload \<Rightarrow> string \<Rightarrow> string \<Rightarrow> string"
  jwt_decode :: "datetime \<Rightarrow> string \<Rightarrow> string \<Rightarrow> string list \<Rightarrow> jwt_error + payload"

text \<open>The state of every program holds at least the moment; the rest is added by extension.\<close>

record world =
  tick :: nat

type_synonym ('w, 'a) py = "('w world_scheme, exn, 'a) prog"

text \<open>One reading of the surroundings, which moves the moment on.\<close>

definition tickM :: "(nat \<Rightarrow> 'a) \<Rightarrow> ('w, 'a) py" where
  "tickM f = (\<lambda>w. (Inr (f (tick w)), w\<lparr>tick := Suc (tick w)\<rparr>))"

section \<open>\<open>app/core/utils/time.py\<close> and \<open>app/core/utils/security.py\<close>\<close>

definition utc_now :: "sysenv \<Rightarrow> ('w, datetime) py" where
  "utc_now E = tickM (now_at E)"

definition uuid4 :: "sysenv \<Rightarrow> ('w, uuid) py" where
  "uuid4 E = tickM (uuid_at E)"

text \<open>\<open>secrets.token_urlsafe(length)\<close>; \<open>os.urandom\<close> refuses a negative length.\<close>

definition generate_token :: "sysenv \<Rightarrow> int \<Rightarrow> ('w, string) py" where
  "generate_token E len =
    bindM (raise_if (len < 0) (LibError ValueError)) (\<lambda>_.
    tickM (\<lambda>t. b64_token (map (urandom_at E t) [0..<nat len])))"

definition hash_token :: "string \<Rightarrow> string" where
  "hash_token token = bytes_hex (sha256 (utf8_encode token))"

text \<open>\<open>UnicodeDecodeError\<close> is a \<open>ValueError\<close>.\<close>

definition hash_password :: "sysenv \<Rightarrow> string \<Rightarrow> ('w, string) py" where
  "hash_password E password =
    bindM (tickM (gensalt_at E)) (\<lambda>salt.
    case bcrypt_hashpw E (utf8_encode password) salt of
      None \<Rightarrow> raiseM (LibError ValueError)
    | Some h \<Rightarrow> (case utf8_decode h of None \<Rightarrow> raiseM (LibError ValueError) | Some s \<Rightarrow> retM s))"

definition verify_password :: "sysenv \<Rightarrow> string \<Rightarrow> string \<Rightarrow> ('w, bool) py" where
  "verify_password E password hashed =
    (case bcrypt_checkpw E (utf8_encode password) (utf8_encode hashed) of
       None \<Rightarrow> raiseM (LibError ValueError)
     | Some b \<Rightarrow> retM b)"

subsection \<open>What the service relies on of bcrypt\<close>

text \<open>
  Documented behaviour: a hash checks against the password it was made from; bcrypt 5
  raises \<open>ValueError\<close> for a password of more than 72 bytes instead of truncating it.
\<close>

definition bcrypt_checks :: "sysenv \<Rightarrow> bool" where
  "bcrypt_checks E \<longleftrightarrow>
    (\<forall>p salt h. bcrypt_hashpw E p salt = Some h \<longrightarrow> bcrypt_checkpw E p h = Some True)"

definition bcrypt_limit :: "sysenv \<Rightarrow> bool" where
  "bcrypt_limit E \<longleftrightarrow> (\<forall>p salt. 72 < length p \<longrightarrow> bcrypt_hashpw E p salt = None)"

text \<open>The hash of a password under every salt exists and is text whose UTF-8 form is the hash.\<close>

definition bcrypt_hashes :: "sysenv \<Rightarrow> string \<Rightarrow> bool" where
  "bcrypt_hashes E p \<longleftrightarrow>
    (\<forall>t. \<exists>s. bcrypt_hashpw E (utf8_encode p) (gensalt_at E t) = Some (utf8_encode s))"

section \<open>Programs that only read the surroundings\<close>

text \<open>
  Such a program reads the clock and the random sources at most: its result and the number of readings it takes are
  functions of the number of readings before it, whatever else the state holds.
\<close>

definition only_ticks :: "('w, 'a) py \<Rightarrow> bool" where
  "only_ticks m \<longleftrightarrow> (\<exists>f g. (\<forall>t. t \<le> g t) \<and> (\<forall>w. m w = (f (tick w), w\<lparr>tick := g (tick w)\<rparr>)))"

named_theorems ticks_intros "rules that show that a program only reads the surroundings"

lemma only_ticksI: "(\<And>t. t \<le> g t) \<Longrightarrow> (\<And>w. m w = (f (tick w), w\<lparr>tick := g (tick w)\<rparr>)) \<Longrightarrow> only_ticks m"
  unfolding only_ticks_def by blast

lemma only_ticksD: "only_ticks m \<Longrightarrow> m w = (r, w') \<Longrightarrow> \<exists>n \<ge> tick w. w' = w\<lparr>tick := n\<rparr>"
  unfolding only_ticks_def by (metis prod.inject)

lemma only_ticks_snd: "only_ticks m \<Longrightarrow> \<exists>n \<ge> tick w. snd (m w) = w\<lparr>tick := n\<rparr>"
  unfolding only_ticks_def by (metis snd_conv)

lemma only_ticks_again: "only_ticks m \<Longrightarrow> tick v = tick w \<Longrightarrow> fst (m v) = fst (m w)"
  unfolding only_ticks_def by (metis fst_conv)

lemma only_ticks_more: "only_ticks m \<Longrightarrow> m w = (r, w') \<Longrightarrow> world.more w' = world.more w"
  by (auto dest: only_ticksD)

lemma only_ticks_retM [ticks_intros]: "only_ticks (retM a)"
  by (rule only_ticksI [of id]) (simp_all add: retM_def)

lemma only_ticks_raiseM [ticks_intros]: "only_ticks (raiseM e)"
  by (rule only_ticksI [of id]) (simp_all add: raiseM_def)

lemma only_ticks_raise_if [ticks_intros]: "only_ticks (raise_if c e)"
  by (simp add: raise_if_def only_ticks_retM only_ticks_raiseM)

lemma only_ticks_tickM [ticks_intros]: "only_ticks (tickM f)"
  by (rule only_ticksI [of Suc]) (simp_all add: tickM_def)

lemma only_ticks_bindM [ticks_intros]:
  assumes m: "only_ticks m" and f: "\<And>a. only_ticks (f a)"
  shows "only_ticks (bindM m f)"
proof -
  from m obtain r g where m: "\<And>t. t \<le> g t" "\<And>w. m w = (r (tick w), w\<lparr>tick := g (tick w)\<rparr>)"
    unfolding only_ticks_def by blast
  from f obtain q h where f: "\<And>a t. t \<le> h a t" "\<And>a w. f a w = (q a (tick w), w\<lparr>tick := h a (tick w)\<rparr>)"
    unfolding only_ticks_def by metis
  show ?thesis
  proof (rule only_ticksI)
    show "t \<le> (case r t of Inl e \<Rightarrow> g t | Inr a \<Rightarrow> h a (g t))" for t
      using m(1) [of t] f(1) [of "g t"] by (auto split: sum.split intro: le_trans)
    show "bindM m f w = ((\<lambda>t. case r t of Inl e \<Rightarrow> Inl e | Inr a \<Rightarrow> q a (g t)) (tick w),
        w\<lparr>tick := case r (tick w) of Inl e \<Rightarrow> g (tick w) | Inr a \<Rightarrow> h a (g (tick w))\<rparr>)" for w
      by (simp add: bindM_def m(2) f(2) split: sum.split)
  qed
qed

lemma only_ticks_if [ticks_intros]:
  "only_ticks m \<Longrightarrow> only_ticks m' \<Longrightarrow> only_ticks (if c then m else m')"
  by simp

lemma only_ticks_case_option [ticks_intros]:
  "only_ticks m \<Longrightarrow> (\<And>a. only_ticks (f a)) \<Longrightarrow>
    only_ticks (case r of None \<Rightarrow> m | Some a \<Rightarrow> f a)"
  by (cases r) auto

lemma only_ticks_case_prod [ticks_intros]:
  "(\<And>a b. only_ticks (f a b)) \<Longrightarrow> only_ticks (case p of (a, b) \<Rightarrow> f a b)"
  by (cases p) auto

lemma only_ticks_utils [ticks_intros]:
  "only_ticks (utc_now E)" "only_ticks (uuid4 E)" "only_ticks (generate_token E n)"
  "only_ticks (hash_password E p)" "only_ticks (verify_password E p h)"
  unfolding utc_now_def uuid4_def generate_token_def hash_password_def verify_password_def
  by (intro ticks_intros)+

text \<open>A program that only reads the surroundings keeps every property of the rest of the state.\<close>

lemma keeps_only_ticks: "only_ticks m \<Longrightarrow> keeps (\<lambda>w. P (world.more w)) m"
  unfolding keeps_def by (metis only_ticks_more prod.collapse)

section \<open>Tokens and hashes\<close>

lemma run_tickM [run_simps]: "tickM f w = (Inr (f (tick w)), w\<lparr>tick := Suc (tick w)\<rparr>)"
  by (simp add: tickM_def)

lemma run_utc_now [run_simps]: "utc_now E w = (Inr (now_at E (tick w)), w\<lparr>tick := Suc (tick w)\<rparr>)"
  by (simp add: utc_now_def run_tickM)

lemma run_uuid4 [run_simps]: "uuid4 E w = (Inr (uuid_at E (tick w)), w\<lparr>tick := Suc (tick w)\<rparr>)"
  by (simp add: uuid4_def run_tickM)

lemma run_generate_token [run_simps]:
  "generate_token E n w =
    (if n < 0 then (Inl (LibError ValueError), w)
     else (Inr (b64_token (map (urandom_at E (tick w)) [0..<nat n])), w\<lparr>tick := Suc (tick w)\<rparr>))"
  by (simp add: generate_token_def run_simps)

lemma generate_token_shape:
  assumes "generate_token E n w = (Inr s, w')"
  shows "0 \<le> n" and "length s = (4 * nat n + 2) div 3" and "set s \<subseteq> set b64_alphabet"
  using assms set_b64_token by (auto simp: run_simps length_b64_token split: if_splits)

lemma length_hash_token [simp]: "length (hash_token s) = 64"
  by (simp add: hash_token_def)

lemma set_hash_token: "set (hash_token s) \<subseteq> set hex_alphabet"
  unfolding hash_token_def by (rule set_bytes_hex)

lemma hash_password_cases:
  "hash_password E p w =
    (case bcrypt_hashpw E (utf8_encode p) (gensalt_at E (tick w)) of
       None \<Rightarrow> Inl (LibError ValueError)
     | Some h \<Rightarrow> (case utf8_decode h of None \<Rightarrow> Inl (LibError ValueError) | Some s \<Rightarrow> Inr s),
     w\<lparr>tick := Suc (tick w)\<rparr>)"
  by (simp add: hash_password_def run_simps split: option.split)

lemma run_verify_password [run_simps]:
  "verify_password E p h w =
    (case bcrypt_checkpw E (utf8_encode p) (utf8_encode h) of
       None \<Rightarrow> Inl (LibError ValueError) | Some b \<Rightarrow> Inr b, w)"
  by (simp add: verify_password_def run_simps split: option.split)

lemma hash_password_hashes:
  assumes "bcrypt_hashes E p" and "bcrypt_checks E"
  obtains s where "hash_password E p w = (Inr s, w\<lparr>tick := Suc (tick w)\<rparr>)"
    and "\<And>w'. verify_password E p s w' = (Inr True, w')"
proof -
  from assms(1) obtain s where s: "bcrypt_hashpw E (utf8_encode p) (gensalt_at E (tick w)) = Some (utf8_encode s)"
    unfolding bcrypt_hashes_def by blast
  with assms(2) have "bcrypt_checkpw E (utf8_encode p) (utf8_encode s) = Some True"
    unfolding bcrypt_checks_def by blast
  with s show ?thesis
    by (intro that [of s]) (simp_all add: hash_password_cases run_verify_password utf8_decode_encode)
qed

text \<open>A hash that was made is bcrypt's of the password under some salt.\<close>

lemma hash_password_Inr:
  "hash_password E p w = (Inr h, w') \<Longrightarrow> \<exists>salt. bcrypt_hashpw E (utf8_encode p) salt = Some (utf8_encode h)"
  by (auto simp: hash_password_cases dest: utf8_encode_decode split: option.splits)

lemma hash_password_too_long:
  "bcrypt_limit E \<Longrightarrow> 72 < length (utf8_encode p) \<Longrightarrow>
    hash_password E p w = (Inl (LibError ValueError), w\<lparr>tick := Suc (tick w)\<rparr>)"
  by (simp add: hash_password_cases bcrypt_limit_def)

end
