(* ===== verification/Events.thy ===== *)
theory Events
  imports Platform
begin

text \<open>
  The event classes of \<^verbatim>\<open>app/core/domain/events\<close> and \<^verbatim>\<open>app/application/events\<close>. Every
  event carries the time it was made: \<open>BaseEvent.timestamp\<close> has \<open>utc_now\<close> as its default.
\<close>

datatype event =
    UserCreated datetime uuid string
  | UserActivated datetime uuid
  | UserDeactivated datetime uuid
  | UserEmailVerified datetime uuid string
  | UserPasswordChanged datetime uuid
  | UserPasswordRecovered datetime uuid
  | UserEmailVerificationRequested datetime uuid string string
  | UserPasswordRecoverRequested datetime uuid string string
  | RefreshTokenCreated datetime uuid uuid "string option" "string option" "string option"
  | RefreshTokenRevoked datetime uuid uuid
  | RefreshTokenReuseDetected datetime uuid uuid "string option" "string option" "string option"
  | SuspiciousRefreshTokenRevocation datetime uuid uuid "string option" "string option" "string option"

text \<open>
  The arguments are, in the order of the class bodies: timestamp, \<open>user_id\<close>, then
  \<open>email\<close> and \<open>token\<close>, or \<open>token_id\<close>, \<open>client_ip\<close>, \<open>user_agent\<close>, \<open>location\<close>.
\<close>

fun event_timestamp :: "event \<Rightarrow> datetime" where
  "event_timestamp (UserCreated ts _ _) = ts"
| "event_timestamp (UserActivated ts _) = ts"
| "event_timestamp (UserDeactivated ts _) = ts"
| "event_timestamp (UserEmailVerified ts _ _) = ts"
| "event_timestamp (UserPasswordChanged ts _) = ts"
| "event_timestamp (UserPasswordRecovered ts _) = ts"
| "event_timestamp (UserEmailVerificationRequested ts _ _ _) = ts"
| "event_timestamp (UserPasswordRecoverRequested ts _ _ _) = ts"
| "event_timestamp (RefreshTokenCreated ts _ _ _ _ _) = ts"
| "event_timestamp (RefreshTokenRevoked ts _ _) = ts"
| "event_timestamp (RefreshTokenReuseDetected ts _ _ _ _ _) = ts"
| "event_timestamp (SuspiciousRefreshTokenRevocation ts _ _ _ _ _) = ts"

text \<open>\<open>isinstance(event, DomainEvent)\<close>: the audit-safe events.\<close>

fun is_domain_event :: "event \<Rightarrow> bool" where
  "is_domain_event (UserCreated _ _ _) = True"
| "is_domain_event (UserActivated _ _) = True"
| "is_domain_event (UserDeactivated _ _) = True"
| "is_domain_event (UserEmailVerified _ _ _) = True"
| "is_domain_event (UserPasswordChanged _ _) = True"
| "is_domain_event (UserPasswordRecovered _ _) = True"
| "is_domain_event (RefreshTokenCreated _ _ _ _ _ _) = True"
| "is_domain_event (RefreshTokenRevoked _ _ _) = True"
| "is_domain_event _ = False"

text \<open>\<open>isinstance(event, NotificationEvent)\<close>: the events that carry a one-time token.\<close>

fun is_notification_event :: "event \<Rightarrow> bool" where
  "is_notification_event (UserEmailVerificationRequested _ _ _ _) = True"
| "is_notification_event (UserPasswordRecoverRequested _ _ _ _) = True"
| "is_notification_event _ = False"

text \<open>\<open>isinstance(event, ApplicationEvent)\<close>: derived from \<open>BaseEvent\<close>, not from \<open>DomainEvent\<close>.\<close>

fun is_application_event :: "event \<Rightarrow> bool" where
  "is_application_event (RefreshTokenReuseDetected _ _ _ _ _ _) = True"
| "is_application_event (SuspiciousRefreshTokenRevocation _ _ _ _ _ _) = True"
| "is_application_event _ = False"

lemma event_kinds:
  "is_domain_event e \<or> is_notification_event e \<or> is_application_event e"
  "\<not> (is_domain_event e \<and> is_notification_event e)"
  "\<not> (is_domain_event e \<and> is_application_event e)"
  "\<not> (is_notification_event e \<and> is_application_event e)"
  by (cases e; simp)+

text \<open>The texts an event carries into a log or a queue; the raw token only in notifications.\<close>

fun event_texts :: "event \<Rightarrow> string list" where
  "event_texts (UserCreated _ _ email) = [email]"
| "event_texts (UserEmailVerified _ _ email) = [email]"
| "event_texts (UserEmailVerificationRequested _ _ email token) = [email, token]"
| "event_texts (UserPasswordRecoverRequested _ _ email token) = [email, token]"
| "event_texts (RefreshTokenCreated _ _ _ ip ua loc) = concat (map (case_option [] (\<lambda>s. [s])) [ip, ua, loc])"
| "event_texts (RefreshTokenReuseDetected _ _ _ ip ua loc) = concat (map (case_option [] (\<lambda>s. [s])) [ip, ua, loc])"
| "event_texts (SuspiciousRefreshTokenRevocation _ _ _ ip ua loc) = concat (map (case_option [] (\<lambda>s. [s])) [ip, ua, loc])"
| "event_texts _ = []"

text \<open>Making an event reads the clock for its timestamp.\<close>

definition mk_event :: "sysenv \<Rightarrow> (datetime \<Rightarrow> event) \<Rightarrow> ('w, event) py" where
  "mk_event E c = bindM (utc_now E) (\<lambda>ts. retM (c ts))"

lemma run_mk_event [run_simps]:
  "mk_event E c w = (Inr (c (now_at E (tick w))), w\<lparr>tick := Suc (tick w)\<rparr>)"
  by (simp add: mk_event_def run_simps)

lemma only_ticks_mk_event [ticks_intros]: "only_ticks (mk_event E c)"
  unfolding mk_event_def by (intro ticks_intros)

end
