(* ===== verification/PyRegex.thy ===== *)
theory PyRegex
  imports PyText
begin

text \<open>
  The part of Python's \<open>re\<close> the service uses: patterns built from a literal character, a
  negated class \<open>[^c]\<close>, sequence and \<open>+\<close>, and \<open>fullmatch\<close>. The language of a pattern is
  given as a set of strings, the matcher by derivatives, and the two are proved to agree.
\<close>

datatype regex =
    Empty
  | Eps
  | Lit char
  | NotChar char
  | Seq regex regex
  | Alt regex regex
  | Star regex

abbreviation Plus :: "regex \<Rightarrow> regex" where
  "Plus r \<equiv> Seq r (Star r)"

inductive_set star_lang :: "string set \<Rightarrow> string set" for L where
  star_nil: "[] \<in> star_lang L"
| star_app: "s \<in> L \<Longrightarrow> t \<in> star_lang L \<Longrightarrow> s @ t \<in> star_lang L"

primrec lang :: "regex \<Rightarrow> string set" where
  "lang Empty = {}"
| "lang Eps = {[]}"
| "lang (Lit c) = {[c]}"
| "lang (NotChar c) = {[d] | d. d \<noteq> c}"
| "lang (Seq r s) = {x @ y | x y. x \<in> lang r \<and> y \<in> lang s}"
| "lang (Alt r s) = lang r \<union> lang s"
| "lang (Star r) = star_lang (lang r)"

primrec nullable :: "regex \<Rightarrow> bool" where
  "nullable Empty = False"
| "nullable Eps = True"
| "nullable (Lit c) = False"
| "nullable (NotChar c) = False"
| "nullable (Seq r s) = (nullable r \<and> nullable s)"
| "nullable (Alt r s) = (nullable r \<or> nullable s)"
| "nullable (Star r) = True"

primrec deriv :: "char \<Rightarrow> regex \<Rightarrow> regex" where
  "deriv a Empty = Empty"
| "deriv a Eps = Empty"
| "deriv a (Lit c) = (if a = c then Eps else Empty)"
| "deriv a (NotChar c) = (if a = c then Empty else Eps)"
| "deriv a (Seq r s) =
    (if nullable r then Alt (Seq (deriv a r) s) (deriv a s) else Seq (deriv a r) s)"
| "deriv a (Alt r s) = Alt (deriv a r) (deriv a s)"
| "deriv a (Star r) = Seq (deriv a r) (Star r)"

fun fullmatch :: "regex \<Rightarrow> string \<Rightarrow> bool" where
  "fullmatch r [] = nullable r"
| "fullmatch r (a # s) = fullmatch (deriv a r) s"

lemma nullable_lang: "nullable r \<longleftrightarrow> [] \<in> lang r"
  by (induction r) (auto intro: star_nil)

lemma star_lang_Cons:
  "a # s \<in> star_lang L \<longleftrightarrow> (\<exists>x y. s = x @ y \<and> a # x \<in> L \<and> y \<in> star_lang L)"
proof
  assume "a # s \<in> star_lang L"
  then show "\<exists>x y. s = x @ y \<and> a # x \<in> L \<and> y \<in> star_lang L"
  proof (induction "a # s" arbitrary: s rule: star_lang.induct)
    case (star_app u t)
    then show ?case by (cases u) auto
  qed
next
  assume "\<exists>x y. s = x @ y \<and> a # x \<in> L \<and> y \<in> star_lang L"
  then show "a # s \<in> star_lang L" using star_lang.star_app by force
qed

lemma lang_deriv: "s \<in> lang (deriv a r) \<longleftrightarrow> a # s \<in> lang r"
proof (induction r arbitrary: s)
  case (Seq r1 r2)
  have "a # s \<in> lang (Seq r1 r2) \<longleftrightarrow>
    (\<exists>x y. s = x @ y \<and> a # x \<in> lang r1 \<and> y \<in> lang r2) \<or> [] \<in> lang r1 \<and> a # s \<in> lang r2"
    by (auto simp: Cons_eq_append_conv)
  then show ?case using Seq.IH by (auto simp: nullable_lang)
next
  case (Star r)
  then show ?case by (auto simp: star_lang_Cons)
qed auto

theorem fullmatch_lang: "fullmatch r s \<longleftrightarrow> s \<in> lang r"
  by (induction s arbitrary: r) (simp_all add: nullable_lang lang_deriv)

lemma star_lang_NotChar: "s \<in> star_lang (lang (NotChar c)) \<longleftrightarrow> c \<notin> set s"
proof (induction s)
  case (Cons a s)
  then show ?case by (auto simp: star_lang_Cons)
qed (simp add: star_nil)

lemma lang_Plus_NotChar: "s \<in> lang (Plus (NotChar c)) \<longleftrightarrow> s \<noteq> [] \<and> c \<notin> set s"
proof (cases s)
  case Nil
  then show ?thesis by simp
next
  case (Cons a t)
  have "a # t \<in> lang (Plus (NotChar c)) \<longleftrightarrow> a \<noteq> c \<and> t \<in> star_lang (lang (NotChar c))"
  proof
    assume "a # t \<in> lang (Plus (NotChar c))"
    then show "a \<noteq> c \<and> t \<in> star_lang (lang (NotChar c))" by auto
  next
    assume "a \<noteq> c \<and> t \<in> star_lang (lang (NotChar c))"
    then have "a # t = [a] @ t \<and> [a] \<in> lang (NotChar c) \<and> t \<in> lang (Star (NotChar c))" by simp
    then show "a # t \<in> lang (Plus (NotChar c))" unfolding lang.simps by blast
  qed
  then show ?thesis using Cons star_lang_NotChar [of t c] by auto
qed

end
