(* ===== verification/Validators.thy ===== *)
theory Validators
  imports Platform PyRegex
begin

text \<open>
  \<^verbatim>\<open>app/core/domain/validators\<close>: \<open>validate_email\<close>, \<open>validate_password\<close> and
  \<open>validate_hash_password\<close>. An argument that is not a \<open>str\<close> (\<open>None\<close> or of another type) is
  \<open>NotStr\<close>, so that the type checks of the source are branches of the model.
\<close>

datatype pyval = PyNone | PyStr string | PyOther

text \<open>\<^verbatim>\<open>[^@]+@[^@]+\.[^@]+\<close>\<close>

definition EMAIL_REGEX :: regex where
  "EMAIL_REGEX =
    Seq (Plus (NotChar (CHR ''@''))) (Seq (Lit (CHR ''@'')) (Seq (Plus (NotChar (CHR ''@'')))
      (Seq (Lit (CHR ''.'')) (Plus (NotChar (CHR ''@''))))))"

definition validate_email :: "pyval \<Rightarrow> exn + string" where
  "validate_email v =
    (case v of
       PyNone \<Rightarrow> Inl (mk_error EmailValidationError (Some ''Email is required''))
     | PyOther \<Rightarrow> Inl (mk_error EmailValidationError (Some ''Email must be a string''))
     | PyStr s \<Rightarrow>
         if s = [] then Inl (mk_error EmailValidationError (Some ''Email is required''))
         else
           (let email = py_lower (py_strip s) in
            if \<not> fullmatch EMAIL_REGEX email
            then Inl (mk_error EmailValidationError (Some (''Invalid email format: '' @ [CHR 0x27] @ email @ [CHR 0x27])))
            else Inr email))"

definition min_password_len :: nat where
  "min_password_len = 8"

definition max_password_len :: nat where
  "max_password_len = 255"

definition validate_password :: "pyval \<Rightarrow> exn + string" where
  "validate_password v =
    (case v of
       PyStr s \<Rightarrow>
         (let password = py_strip s in
          if length password < min_password_len
          then Inl (mk_error PasswordValidationError (Some ''Password must be at least 8 characters''))
          else if length password > max_password_len
          then Inl (mk_error PasswordValidationError (Some ''Password must not exceed 255 characters''))
          else Inr password)
     | _ \<Rightarrow> Inl (mk_error PasswordValidationError (Some ''Password must be a string'')))"

definition validate_hash_password :: "sysenv \<Rightarrow> pyval \<Rightarrow> ('w, string) py" where
  "validate_hash_password E v = bindM (liftM (validate_password v)) (hash_password E)"

lemma only_ticks_liftM [ticks_intros]: "only_ticks (liftM r)"
  by (cases r) (simp_all add: only_ticks_raiseM [unfolded raiseM_def] only_ticks_retM [unfolded retM_def] liftM_def)

lemma only_ticks_validate_hash_password [ticks_intros]: "only_ticks (validate_hash_password E v)"
  unfolding validate_hash_password_def by (intro ticks_intros)

section \<open>Email addresses\<close>

lemma EMAIL_REGEX_lang:
  "fullmatch EMAIL_REGEX s \<longleftrightarrow>
    (\<exists>a b c. s = a @ ''@'' @ b @ ''.'' @ c \<and> a \<noteq> [] \<and> b \<noteq> [] \<and> c \<noteq> []
      \<and> CHR ''@'' \<notin> set a \<and> CHR ''@'' \<notin> set b \<and> CHR ''@'' \<notin> set c)"
  (is "_ = ?R")
proof -
  have seq: "u \<in> lang (Seq r t) \<longleftrightarrow> (\<exists>x y. u = x @ y \<and> x \<in> lang r \<and> y \<in> lang t)" for u r t
    by simp
  have lit: "u \<in> lang (Lit d) \<longleftrightarrow> u = [d]" for u d by simp
  have "fullmatch EMAIL_REGEX s \<longleftrightarrow>
    (\<exists>a v. s = a @ v \<and> a \<in> lang (Plus (NotChar (CHR ''@''))) \<and>
      (\<exists>x v1. v = x @ v1 \<and> x = ''@'' \<and>
        (\<exists>b v2. v1 = b @ v2 \<and> b \<in> lang (Plus (NotChar (CHR ''@''))) \<and>
          (\<exists>y c. v2 = y @ c \<and> y = ''.'' \<and> c \<in> lang (Plus (NotChar (CHR ''@'')))))))"
    unfolding fullmatch_lang EMAIL_REGEX_def seq [of _ "Plus _"] seq [of _ "Lit _"] lit by (rule refl)
  also have "\<dots> \<longleftrightarrow> ?R" unfolding lang_Plus_NotChar by (auto, blast)
  finally show ?thesis .
qed

text \<open>The address format that the validator accepts, in terms of the one \<open>@\<close> and a dot after it.\<close>

definition email_shape :: "string \<Rightarrow> bool" where
  "email_shape s \<longleftrightarrow>
    (\<exists>loc dom. s = loc @ ''@'' @ dom \<and> loc \<noteq> [] \<and> CHR ''@'' \<notin> set loc \<and> CHR ''@'' \<notin> set dom
      \<and> CHR ''.'' \<in> set (butlast (tl dom)))"

lemma in_butlast_tl:
  "x \<in> set (butlast (tl xs)) \<longleftrightarrow> (\<exists>b c. xs = b @ x # c \<and> b \<noteq> [] \<and> c \<noteq> [])"
proof
  assume x: "x \<in> set (butlast (tl xs))"
  then have t: "tl xs \<noteq> []" by auto
  from x obtain p q where "butlast (tl xs) = p @ x # q" by (meson split_list)
  with t have "tl xs = p @ x # q @ [last (tl xs)]" by (metis append.assoc append_Cons append_butlast_last_id)
  with t have "xs = (hd xs # p) @ x # (q @ [last (tl xs)])" by (cases xs) auto
  then show "\<exists>b c. xs = b @ x # c \<and> b \<noteq> [] \<and> c \<noteq> []" by blast
next
  assume "\<exists>b c. xs = b @ x # c \<and> b \<noteq> [] \<and> c \<noteq> []"
  then obtain d b c where "xs = d # b @ x # c" "c \<noteq> []" by (metis append_Cons neq_Nil_conv)
  then show "x \<in> set (butlast (tl xs))" by (simp add: butlast_append)
qed

lemma EMAIL_REGEX_shape: "fullmatch EMAIL_REGEX s \<longleftrightarrow> email_shape s"
proof
  assume "fullmatch EMAIL_REGEX s"
  then obtain a b c where "s = a @ ''@'' @ (b @ CHR ''.'' # c)" "a \<noteq> []" "b \<noteq> []" "c \<noteq> []"
    "CHR ''@'' \<notin> set a" "CHR ''@'' \<notin> set b" "CHR ''@'' \<notin> set c"
    unfolding EMAIL_REGEX_lang by auto
  then show "email_shape s"
    unfolding email_shape_def in_butlast_tl by (intro exI [of _ a] exI [of _ "b @ CHR ''.'' # c"]) auto
next
  assume "email_shape s"
  then obtain a b c where "s = a @ ''@'' @ (b @ CHR ''.'' # c)" "a \<noteq> []" "b \<noteq> []" "c \<noteq> []"
    "CHR ''@'' \<notin> set a" "CHR ''@'' \<notin> set (b @ CHR ''.'' # c)"
    unfolding email_shape_def in_butlast_tl by auto
  then show "fullmatch EMAIL_REGEX s" unfolding EMAIL_REGEX_lang by (intro exI [of _ a] exI [of _ b] exI [of _ c]) simp
qed

lemma validate_email_Inr:
  "validate_email v = Inr e \<longleftrightarrow>
    (\<exists>s. v = PyStr s \<and> s \<noteq> [] \<and> e = py_lower (py_strip s) \<and> email_shape e)"
  by (auto simp: validate_email_def Let_def EMAIL_REGEX_shape split: pyval.splits if_splits)

lemma email_shape_nonempty: "email_shape e \<Longrightarrow> e \<noteq> []"
  by (auto simp: email_shape_def)

lemma validate_email_idem: "validate_email v = Inr e \<Longrightarrow> validate_email (PyStr e) = Inr e"
  unfolding validate_email_Inr using email_shape_nonempty by auto

lemma validate_email_Inl:
  "validate_email v = Inl e \<Longrightarrow> \<exists>m. e = AppError EmailValidationError m"
  by (auto simp: validate_email_def Let_def mk_error_def split: pyval.splits if_splits)

section \<open>Passwords\<close>

lemma validate_password_Inr:
  "validate_password v = Inr p \<longleftrightarrow>
    (\<exists>s. v = PyStr s \<and> p = py_strip s \<and> 8 \<le> length p \<and> length p \<le> 255)"
  by (auto simp: validate_password_def Let_def min_password_len_def max_password_len_def
      split: pyval.splits if_splits)

lemma validate_password_Inl:
  "validate_password v = Inl e \<Longrightarrow> \<exists>m. e = AppError PasswordValidationError m"
  by (auto simp: validate_password_def Let_def mk_error_def split: pyval.splits if_splits)

lemma validate_password_idem: "validate_password v = Inr p \<Longrightarrow> validate_password (PyStr p) = Inr p"
  unfolding validate_password_Inr by auto

lemma validate_hash_password_run:
  "validate_hash_password E v w =
    (case validate_password v of Inl e \<Rightarrow> (Inl e, w) | Inr p \<Rightarrow> hash_password E p w)"
  by (simp add: validate_hash_password_def run_simps split: sum.split)

lemma validate_hash_password_Inr:
  assumes "validate_hash_password E v w = (Inr h, w')"
  obtains p salt where "validate_password v = Inr p" and "bcrypt_hashpw E (utf8_encode p) salt = Some (utf8_encode h)"
  using assms hash_password_Inr by (fastforce simp: validate_hash_password_run split: sum.splits)

end
