(* ===== verification/UserEntity.thy ===== *)
theory UserEntity
  imports Events Validators
begin

text \<open>
  \<^verbatim>\<open>app/core/domain/entities/user.py\<close>: the aggregate \<open>User\<close>. A method that changes the
  object is a program that returns the changed object; the object collects its events in
  \<open>u_events\<close>. \<open>u_version\<close> is the attribute \<open>__version\<close> that the repository sets on it.
\<close>

record user =
  u_id :: uuid
  u_email :: string
  u_password_hash :: string
  u_active :: bool
  u_is_email_verified :: bool
  u_created_at :: datetime
  u_events :: "event list"
  u_version :: "int option"

definition user_error :: "string \<Rightarrow> exn" where
  "user_error m = mk_error UserError (Some m)"

text \<open>\<open>self._events.append(...)\<close>\<close>

definition user_emit :: "sysenv \<Rightarrow> (datetime \<Rightarrow> event) \<Rightarrow> user \<Rightarrow> ('w, user) py" where
  "user_emit E c u = bindM (mk_event E c) (\<lambda>e. retM (u\<lparr>u_events := u_events u @ [e]\<rparr>))"

definition user_create :: "sysenv \<Rightarrow> pyval \<Rightarrow> pyval \<Rightarrow> ('w, user) py" where
  "user_create E email password =
    bindM (uuid4 E) (\<lambda>i.
    bindM (liftM (validate_email email)) (\<lambda>em.
    bindM (validate_hash_password E password) (\<lambda>ph.
    bindM (utc_now E) (\<lambda>now.
    let u = \<lparr>u_id = i, u_email = em, u_password_hash = ph, u_active = True,
             u_is_email_verified = False, u_created_at = now, u_events = [], u_version = None\<rparr>
    in user_emit E (\<lambda>ts. UserCreated ts (u_id u) (u_email u)) u))))"

definition request_email_verification :: "sysenv \<Rightarrow> user \<Rightarrow> string \<Rightarrow> ('w, user) py" where
  "request_email_verification E u token =
    bindM (raise_if (u_is_email_verified u) (user_error ''Email already verified'')) (\<lambda>_.
    user_emit E (\<lambda>ts. UserEmailVerificationRequested ts (u_id u) (u_email u) token) u)"

definition request_password_recover :: "sysenv \<Rightarrow> user \<Rightarrow> string \<Rightarrow> ('w, user) py" where
  "request_password_recover E u token =
    bindM (raise_if (\<not> u_is_email_verified u) (user_error ''Email is not verified'')) (\<lambda>_.
    user_emit E (\<lambda>ts. UserPasswordRecoverRequested ts (u_id u) (u_email u) token) u)"

definition verify_email :: "sysenv \<Rightarrow> user \<Rightarrow> ('w, user) py" where
  "verify_email E u =
    bindM (raise_if (u_is_email_verified u) (user_error ''Email already verified'')) (\<lambda>_.
    user_emit E (\<lambda>ts. UserEmailVerified ts (u_id u) (u_email u)) (u\<lparr>u_is_email_verified := True\<rparr>))"

definition assert_can_login :: "sysenv \<Rightarrow> user \<Rightarrow> string \<Rightarrow> ('w, unit) py" where
  "assert_can_login E u password =
    bindM (raise_if (\<not> u_active u) (user_error ''User is deactivated'')) (\<lambda>_.
    bindM (raise_if (\<not> u_is_email_verified u) (user_error ''Email is not verified'')) (\<lambda>_.
    bindM (verify_password E password (u_password_hash u)) (\<lambda>ok.
    raise_if (\<not> ok) (user_error ''Invalid password''))))"

definition user_verify_password :: "sysenv \<Rightarrow> user \<Rightarrow> string \<Rightarrow> ('w, bool) py" where
  "user_verify_password E u password = verify_password E password (u_password_hash u)"

definition change_password :: "sysenv \<Rightarrow> user \<Rightarrow> string \<Rightarrow> string \<Rightarrow> ('w, user) py" where
  "change_password E u old new =
    bindM (verify_password E old (u_password_hash u)) (\<lambda>ok.
    bindM (raise_if (\<not> ok) (user_error ''Wrong old password'')) (\<lambda>_.
    bindM (raise_if (old = new) (user_error ''New password cannot be the same as old'')) (\<lambda>_.
    bindM (validate_hash_password E (PyStr new)) (\<lambda>ph.
    user_emit E (\<lambda>ts. UserPasswordChanged ts (u_id u)) (u\<lparr>u_password_hash := ph\<rparr>)))))"

definition recover_password :: "sysenv \<Rightarrow> user \<Rightarrow> pyval \<Rightarrow> ('w, user) py" where
  "recover_password E u new =
    bindM (validate_hash_password E new) (\<lambda>ph.
    user_emit E (\<lambda>ts. UserPasswordRecovered ts (u_id u)) (u\<lparr>u_password_hash := ph\<rparr>))"

definition activate :: "sysenv \<Rightarrow> user \<Rightarrow> ('w, user) py" where
  "activate E u =
    bindM (raise_if (u_active u) (user_error ''User account is already active'')) (\<lambda>_.
    user_emit E (\<lambda>ts. UserActivated ts (u_id u)) (u\<lparr>u_active := True\<rparr>))"

definition deactivate :: "sysenv \<Rightarrow> user \<Rightarrow> ('w, user) py" where
  "deactivate E u =
    bindM (raise_if (\<not> u_active u) (user_error ''User account is already deactivated'')) (\<lambda>_.
    user_emit E (\<lambda>ts. UserDeactivated ts (u_id u)) (u\<lparr>u_active := False\<rparr>))"

definition user_pull_domain_events :: "user \<Rightarrow> event list \<times> user" where
  "user_pull_domain_events u = (u_events u, u\<lparr>u_events := []\<rparr>)"

lemmas user_ops_defs =
  user_create_def request_email_verification_def request_password_recover_def verify_email_def
  assert_can_login_def user_verify_password_def change_password_def recover_password_def
  activate_def deactivate_def

lemma only_ticks_user_emit [ticks_intros]: "only_ticks (user_emit E c u)"
  unfolding user_emit_def by (intro ticks_intros)

lemma only_ticks_user_ops [ticks_intros]:
  "only_ticks (user_create E em pw)" "only_ticks (request_email_verification E u t)"
  "only_ticks (request_password_recover E u t)" "only_ticks (verify_email E u)"
  "only_ticks (assert_can_login E u p)" "only_ticks (user_verify_password E u p)"
  "only_ticks (change_password E u p q)" "only_ticks (recover_password E u v)"
  "only_ticks (activate E u)" "only_ticks (deactivate E u)"
  unfolding user_ops_defs Let_def by (intro ticks_intros)+

lemma run_user_emit [run_simps]:
  "user_emit E c u w =
    (Inr (u\<lparr>u_events := u_events u @ [c (now_at E (tick w))]\<rparr>), w\<lparr>tick := Suc (tick w)\<rparr>)"
  by (simp add: user_emit_def run_simps)

section \<open>The methods as a state machine\<close>

text \<open>
  One step of a user object: a call of a method that returns normally. The relation
  leaves open which environment answered, so it covers every run of the object.
\<close>

inductive user_step :: "user \<Rightarrow> user \<Rightarrow> bool" where
  step_request_verification: "request_email_verification E u t (w :: world) = (Inr u', w') \<Longrightarrow> user_step u u'"
| step_request_recover: "request_password_recover E u t (w :: world) = (Inr u', w') \<Longrightarrow> user_step u u'"
| step_verify: "verify_email E u (w :: world) = (Inr u', w') \<Longrightarrow> user_step u u'"
| step_change_password: "change_password E u p q (w :: world) = (Inr u', w') \<Longrightarrow> user_step u u'"
| step_recover_password: "recover_password E u v (w :: world) = (Inr u', w') \<Longrightarrow> user_step u u'"
| step_activate: "activate E u (w :: world) = (Inr u', w') \<Longrightarrow> user_step u u'"
| step_deactivate: "deactivate E u (w :: world) = (Inr u', w') \<Longrightarrow> user_step u u'"
| step_pull: "user_pull_domain_events u = (es, u') \<Longrightarrow> user_step u u'"

text \<open>The object made by \<open>create\<close>, then any number of method calls.\<close>

inductive user_reachable :: "user \<Rightarrow> bool" where
  created: "user_create E em pw (w :: world) = (Inr u, w') \<Longrightarrow> user_reachable u"
| stepped: "user_reachable u \<Longrightarrow> user_step u u' \<Longrightarrow> user_reachable u'"

text \<open>The events of the object name the object's user and, where they name an address, its address.\<close>

fun event_of_user :: "uuid \<Rightarrow> string \<Rightarrow> event \<Rightarrow> bool" where
  "event_of_user i em (UserCreated _ j m) = (j = i \<and> m = em)"
| "event_of_user i em (UserActivated _ j) = (j = i)"
| "event_of_user i em (UserDeactivated _ j) = (j = i)"
| "event_of_user i em (UserEmailVerified _ j m) = (j = i \<and> m = em)"
| "event_of_user i em (UserPasswordChanged _ j) = (j = i)"
| "event_of_user i em (UserPasswordRecovered _ j) = (j = i)"
| "event_of_user i em (UserEmailVerificationRequested _ j m _) = (j = i \<and> m = em)"
| "event_of_user i em (UserPasswordRecoverRequested _ j m _) = (j = i \<and> m = em)"
| "event_of_user i em _ = False"

definition user_wf :: "user \<Rightarrow> bool" where
  "user_wf u \<longleftrightarrow>
    validate_email (PyStr (u_email u)) = Inr (u_email u)
    \<and> (\<forall>e \<in> set (u_events u). event_of_user (u_id u) (u_email u) e)"

lemmas user_run_simps = user_ops_defs run_simps validate_hash_password_run hash_password_cases

lemma user_create_wf: "user_create E em pw w = (Inr u, w') \<Longrightarrow> user_wf u"
  by (auto simp: user_run_simps user_wf_def Let_def dest: validate_email_idem
      split: sum.splits option.splits if_splits)

lemma user_step_wf: "user_step u u' \<Longrightarrow> user_wf u \<Longrightarrow> user_wf u'"
  by (induction rule: user_step.induct)
    (auto simp: user_run_simps user_pull_domain_events_def user_wf_def
      split: sum.splits option.splits if_splits bool.splits)

lemma user_step_frame:
  "user_step u u' \<Longrightarrow> u_id u' = u_id u \<and> u_email u' = u_email u \<and> u_created_at u' = u_created_at u
    \<and> u_version u' = u_version u \<and> (u_is_email_verified u \<longrightarrow> u_is_email_verified u')"
  by (induction rule: user_step.induct)
    (auto simp: user_run_simps user_pull_domain_events_def
      split: sum.splits option.splits if_splits bool.splits)

lemma user_reachable_wf: "user_reachable u \<Longrightarrow> user_wf u"
  by (induction rule: user_reachable.induct) (auto intro: user_create_wf user_step_wf)

end
