(* ===== verification/TokenEntities.thy ===== *)
theory TokenEntities
  imports Events
begin

text \<open>
  \<^verbatim>\<open>app/core/domain/entities/one_time_token.py\<close> and \<^verbatim>\<open>refresh_token.py\<close>: the one-time
  tokens and the refresh tokens, with the state machines of their methods.
\<close>

definition token_error :: "string \<Rightarrow> exn" where
  "token_error m = mk_error TokenError (Some m)"

section \<open>One-time tokens\<close>

datatype ott_purpose = VERIFY_EMAIL | RECOVER_PASSWORD

record ott =
  o_id :: uuid
  o_user_id :: uuid
  o_token_hash :: string
  o_expires_at :: datetime
  o_purpose :: ott_purpose
  o_used :: bool
  o_version :: "int option"

definition ott_create :: "sysenv \<Rightarrow> uuid \<Rightarrow> int \<Rightarrow> timedelta \<Rightarrow> ott_purpose \<Rightarrow> ('w, ott \<times> string) py" where
  "ott_create E user_id len expiry purpose =
    bindM (utc_now E) (\<lambda>now.
    bindM (generate_token E len) (\<lambda>token.
    bindM (uuid4 E) (\<lambda>i.
    retM (\<lparr>o_id = i, o_user_id = user_id, o_token_hash = hash_token token,
           o_expires_at = now + expiry, o_purpose = purpose, o_used = False, o_version = None\<rparr>,
          token))))"

definition ott_is_usable :: "sysenv \<Rightarrow> ott \<Rightarrow> ('w, bool) py" where
  "ott_is_usable E t = bindM (utc_now E) (\<lambda>now. retM (\<not> o_used t \<and> now \<le> o_expires_at t))"

definition ott_use :: "sysenv \<Rightarrow> ott \<Rightarrow> ott_purpose \<Rightarrow> ('w, ott) py" where
  "ott_use E t purpose =
    bindM (raise_if (o_purpose t \<noteq> purpose) (token_error ''Token purpose mismatch'')) (\<lambda>_.
    bindM (ott_is_usable E t) (\<lambda>usable.
    bindM (raise_if (\<not> usable) (token_error ''Cannot use invalid token'')) (\<lambda>_.
    retM (t\<lparr>o_used := True\<rparr>))))"

lemmas ott_ops_defs = ott_create_def ott_is_usable_def ott_use_def

lemma only_ticks_ott_ops [ticks_intros]:
  "only_ticks (ott_create E i n x p)" "only_ticks (ott_is_usable E t)" "only_ticks (ott_use E t p)"
  unfolding ott_ops_defs by (intro ticks_intros)+

lemma run_ott_create [run_simps]:
  "ott_create E i n x p w =
    (if n < 0 then (Inl (LibError ValueError), w\<lparr>tick := Suc (tick w)\<rparr>)
     else (Inr (\<lparr>o_id = uuid_at E (Suc (Suc (tick w))), o_user_id = i,
          o_token_hash = hash_token (b64_token (map (urandom_at E (Suc (tick w))) [0..<nat n])),
          o_expires_at = now_at E (tick w) + x, o_purpose = p, o_used = False, o_version = None\<rparr>,
        b64_token (map (urandom_at E (Suc (tick w))) [0..<nat n])),
      w\<lparr>tick := Suc (Suc (Suc (tick w)))\<rparr>))"
  by (simp add: ott_create_def run_simps)

lemma run_ott_use [run_simps]:
  "ott_use E t p w =
    (if o_purpose t \<noteq> p then (Inl (token_error ''Token purpose mismatch''), w)
     else if o_used t \<or> o_expires_at t < now_at E (tick w)
     then (Inl (token_error ''Cannot use invalid token''), w\<lparr>tick := Suc (tick w)\<rparr>)
     else (Inr (t\<lparr>o_used := True\<rparr>), w\<lparr>tick := Suc (tick w)\<rparr>))"
  by (auto simp: ott_ops_defs run_simps not_le)

section \<open>Refresh tokens\<close>

record rtoken =
  r_id :: uuid
  r_user_id :: uuid
  r_token_hash :: string
  r_expires_at :: datetime
  r_created_at :: datetime
  r_revoked_at :: "datetime option"
  r_replaced_by_id :: "uuid option"
  r_location :: "string option"
  r_client_ip :: "string option"
  r_user_agent :: "string option"
  r_events :: "event list"
  r_version :: "int option"

definition rt_emit :: "sysenv \<Rightarrow> (datetime \<Rightarrow> event) \<Rightarrow> rtoken \<Rightarrow> ('w, rtoken) py" where
  "rt_emit E c t = bindM (mk_event E c) (\<lambda>e. retM (t\<lparr>r_events := r_events t @ [e]\<rparr>))"

definition rt_create ::
  "sysenv \<Rightarrow> uuid \<Rightarrow> int \<Rightarrow> timedelta \<Rightarrow> string option \<Rightarrow> string option \<Rightarrow> string option \<Rightarrow>
    ('w, rtoken \<times> string) py" where
  "rt_create E user_id len expiry location client_ip user_agent =
    bindM (generate_token E len) (\<lambda>token.
    bindM (utc_now E) (\<lambda>now.
    bindM (uuid4 E) (\<lambda>i.
    bindM (rt_emit E (\<lambda>ts. RefreshTokenCreated ts user_id i client_ip user_agent location)
        \<lparr>r_id = i, r_user_id = user_id, r_token_hash = hash_token token,
         r_expires_at = now + expiry, r_created_at = now, r_revoked_at = None,
         r_replaced_by_id = None, r_location = location, r_client_ip = client_ip,
         r_user_agent = user_agent, r_events = [], r_version = None\<rparr>) (\<lambda>t.
    retM (t, token)))))"

text \<open>\<open>self.revoked_at is not None or utc_now() > self.expires_at\<close>: the clock is read only if needed.\<close>

definition rt_is_revoked_or_expired :: "sysenv \<Rightarrow> rtoken \<Rightarrow> ('w, bool) py" where
  "rt_is_revoked_or_expired E t =
    (if r_revoked_at t \<noteq> None then retM True
     else bindM (utc_now E) (\<lambda>now. retM (now > r_expires_at t)))"

text \<open>\<open>self.revoked_at = utc_now()\<close> and the event, the common end of \<open>revoke\<close> and \<open>use\<close>.\<close>

definition rt_set_revoked :: "sysenv \<Rightarrow> rtoken \<Rightarrow> ('w, rtoken) py" where
  "rt_set_revoked E t =
    bindM (utc_now E) (\<lambda>now.
    rt_emit E (\<lambda>ts. RefreshTokenRevoked ts (r_user_id t) (r_id t)) (t\<lparr>r_revoked_at := Some now\<rparr>))"

definition rt_revoke :: "sysenv \<Rightarrow> rtoken \<Rightarrow> ('w, rtoken) py" where
  "rt_revoke E t =
    bindM (rt_is_revoked_or_expired E t) (\<lambda>bad.
    bindM (raise_if bad (token_error ''Cannot revoke invalid token'')) (\<lambda>_.
    rt_set_revoked E t))"

definition rt_mark_as_replaced_by :: "rtoken \<Rightarrow> uuid \<Rightarrow> exn + rtoken" where
  "rt_mark_as_replaced_by t new_id =
    (if r_replaced_by_id t \<noteq> None then Inl (token_error ''Token is already replaced'')
     else Inr (t\<lparr>r_replaced_by_id := Some new_id\<rparr>))"

definition rt_use :: "sysenv \<Rightarrow> rtoken \<Rightarrow> ('w, rtoken) py" where
  "rt_use E t =
    bindM (raise_if (r_replaced_by_id t \<noteq> None) (mk_error RefreshTokenReuse None)) (\<lambda>_.
    bindM (rt_is_revoked_or_expired E t) (\<lambda>bad.
    bindM (raise_if bad (token_error ''Token cannot be used'')) (\<lambda>_.
    rt_set_revoked E t)))"

definition rt_is_usable :: "sysenv \<Rightarrow> rtoken \<Rightarrow> ('w, bool) py" where
  "rt_is_usable E t =
    bindM (rt_is_revoked_or_expired E t) (\<lambda>bad. retM (\<not> bad \<and> r_replaced_by_id t = None))"

definition rt_pull_domain_events :: "rtoken \<Rightarrow> event list \<times> rtoken" where
  "rt_pull_domain_events t = (r_events t, t\<lparr>r_events := []\<rparr>)"

lemmas rt_ops_defs =
  rt_create_def rt_is_revoked_or_expired_def rt_set_revoked_def rt_revoke_def rt_use_def rt_is_usable_def

lemma only_ticks_rt_emit [ticks_intros]: "only_ticks (rt_emit E c t)"
  unfolding rt_emit_def by (intro ticks_intros)

lemma only_ticks_rt_ops [ticks_intros]:
  "only_ticks (rt_create E i n x l ip ua)" "only_ticks (rt_is_revoked_or_expired E t)"
  "only_ticks (rt_set_revoked E t)" "only_ticks (rt_revoke E t)" "only_ticks (rt_use E t)"
  "only_ticks (rt_is_usable E t)"
  unfolding rt_ops_defs by (intro ticks_intros)+

lemma run_rt_emit [run_simps]:
  "rt_emit E c t w =
    (Inr (t\<lparr>r_events := r_events t @ [c (now_at E (tick w))]\<rparr>), w\<lparr>tick := Suc (tick w)\<rparr>)"
  by (simp add: rt_emit_def run_simps)

lemma run_rt_create [run_simps]:
  "rt_create E i n x l ip ua w =
    (if n < 0 then (Inl (LibError ValueError), w)
     else (let s = b64_token (map (urandom_at E (tick w)) [0..<nat n]);
               now = now_at E (Suc (tick w)); k = uuid_at E (Suc (Suc (tick w))) in
       (Inr (\<lparr>r_id = k, r_user_id = i, r_token_hash = hash_token s, r_expires_at = now + x,
          r_created_at = now, r_revoked_at = None, r_replaced_by_id = None, r_location = l,
          r_client_ip = ip, r_user_agent = ua,
          r_events = [RefreshTokenCreated (now_at E (Suc (Suc (Suc (tick w))))) i k ip ua l],
          r_version = None\<rparr>, s),
        w\<lparr>tick := Suc (Suc (Suc (Suc (tick w))))\<rparr>)))"
  by (simp add: rt_create_def run_simps Let_def)

lemma run_rt_set_revoked [run_simps]:
  "rt_set_revoked E t w =
    (Inr (t\<lparr>r_revoked_at := Some (now_at E (tick w)),
       r_events := r_events t @ [RefreshTokenRevoked (now_at E (Suc (tick w))) (r_user_id t) (r_id t)]\<rparr>),
     w\<lparr>tick := Suc (Suc (tick w))\<rparr>)"
  by (simp add: rt_set_revoked_def run_simps)

lemma run_rt_is_revoked_or_expired [run_simps]:
  "rt_is_revoked_or_expired E t w =
    (if r_revoked_at t \<noteq> None then (Inr True, w)
     else (Inr (r_expires_at t < now_at E (tick w)), w\<lparr>tick := Suc (tick w)\<rparr>))"
  by (simp add: rt_is_revoked_or_expired_def run_simps)

subsection \<open>What a token goes through\<close>

text \<open>One step of a refresh token: a call of a method that returns normally.\<close>

inductive rt_step :: "rtoken \<Rightarrow> rtoken \<Rightarrow> bool" where
  rt_step_revoke: "rt_revoke E t (w :: world) = (Inr t', w') \<Longrightarrow> rt_step t t'"
| rt_step_use: "rt_use E t (w :: world) = (Inr t', w') \<Longrightarrow> rt_step t t'"
| rt_step_replace: "rt_mark_as_replaced_by t i = Inr t' \<Longrightarrow> rt_step t t'"
| rt_step_pull: "rt_pull_domain_events t = (es, t') \<Longrightarrow> rt_step t t'"

inductive rt_steps :: "rtoken \<Rightarrow> rtoken \<Rightarrow> bool" where
  rt_steps_refl: "rt_steps t t"
| rt_steps_step: "rt_steps t t' \<Longrightarrow> rt_step t' t'' \<Longrightarrow> rt_steps t t''"

text \<open>A token once revoked keeps its revocation time, one once replaced its successor.\<close>

definition rt_final :: "rtoken \<Rightarrow> rtoken \<Rightarrow> bool" where
  "rt_final t t' \<longleftrightarrow>
    r_id t' = r_id t \<and> r_user_id t' = r_user_id t \<and> r_token_hash t' = r_token_hash t
    \<and> r_expires_at t' = r_expires_at t \<and> r_created_at t' = r_created_at t
    \<and> (r_revoked_at t \<noteq> None \<longrightarrow> r_revoked_at t' = r_revoked_at t)
    \<and> (r_replaced_by_id t \<noteq> None \<longrightarrow> r_replaced_by_id t' = r_replaced_by_id t)"

lemma rt_step_final: "rt_step t t' \<Longrightarrow> rt_final t t'"
  by (induction rule: rt_step.induct)
    (auto simp: rt_revoke_def rt_use_def rt_mark_as_replaced_by_def rt_pull_domain_events_def
      run_simps rt_final_def split: if_splits)

lemma rt_steps_final: "rt_steps t t' \<Longrightarrow> rt_final t t'"
proof (induction rule: rt_steps.induct)
  case (rt_steps_step t t' t'')
  then show ?case using rt_step_final [of t' t''] by (auto simp: rt_final_def)
qed (simp add: rt_final_def)

lemma run_rt_use:
  "rt_use E t w =
    (if r_replaced_by_id t \<noteq> None then (Inl (mk_error RefreshTokenReuse None), w)
     else if r_revoked_at t \<noteq> None then (Inl (token_error ''Token cannot be used''), w)
     else if r_expires_at t < now_at E (tick w)
     then (Inl (token_error ''Token cannot be used''), w\<lparr>tick := Suc (tick w)\<rparr>)
     else rt_set_revoked E t (w\<lparr>tick := Suc (tick w)\<rparr>))"
  by (simp add: rt_use_def run_simps)

lemma run_rt_revoke:
  "rt_revoke E t w =
    (if r_revoked_at t \<noteq> None then (Inl (token_error ''Cannot revoke invalid token''), w)
     else if r_expires_at t < now_at E (tick w)
     then (Inl (token_error ''Cannot revoke invalid token''), w\<lparr>tick := Suc (tick w)\<rparr>)
     else rt_set_revoked E t (w\<lparr>tick := Suc (tick w)\<rparr>))"
  by (simp add: rt_revoke_def run_simps)

end
