(* ===== verification/PyTime.thy ===== *)
theory PyTime
  imports PyText
begin

text \<open>
  The calendar behind \<open>datetime.strftime('%Y-%m-%d %H:%M:%S')\<close>: the conversion of a moment in
  UTC to a date, as CPython's \<open>_ord2ymd\<close> computes it, and decimal text.
\<close>

section \<open>Decimal text\<close>

definition digit_char :: "nat \<Rightarrow> char" where
  "digit_char n = ord_chr (48 + n mod 10)"

function py_str_nat :: "nat \<Rightarrow> string" where
  "py_str_nat n = (if n < 10 then [digit_char n] else py_str_nat (n div 10) @ [digit_char n])"
  by pat_completeness auto
termination by (relation "measure id") auto

declare py_str_nat.simps [simp del]

definition py_str_int :: "int \<Rightarrow> string" where
  "py_str_int i = (if i < 0 then CHR ''-'' # py_str_nat (nat (- i)) else py_str_nat (nat i))"

definition pad2 :: "int \<Rightarrow> string" where
  "pad2 i = (if 0 \<le> i \<and> i < 10 then CHR ''0'' # py_str_int i else py_str_int i)"

text \<open>The number that a text of digits writes.\<close>

definition digits_val :: "string \<Rightarrow> nat" where
  "digits_val s = foldl (\<lambda>acc c. 10 * acc + (chr_ord c - 48)) 0 s"

lemma digit_char_val [simp]: "chr_ord (digit_char n) - 48 = n mod 10"
proof -
  have "48 + n mod 10 < 256" using mod_less_divisor [of 10 n] by linarith
  then show ?thesis by (simp add: digit_char_def)
qed

lemma digits_val_snoc: "digits_val (s @ [c]) = 10 * digits_val s + (chr_ord c - 48)"
  by (simp add: digits_val_def)

lemma digits_val_str_nat [simp]: "digits_val (py_str_nat n) = n"
proof (induction n rule: py_str_nat.induct)
  case (1 n)
  show ?case
  proof (cases "n < 10")
    case True
    then show ?thesis by (subst py_str_nat.simps) (simp add: digits_val_def)
  next
    case False
    then show ?thesis using 1 by (subst py_str_nat.simps) (simp add: digits_val_snoc)
  qed
qed

lemma py_str_nat_inj: "py_str_nat m = py_str_nat n \<longleftrightarrow> m = n"
  by (metis digits_val_str_nat)

section \<open>Dates\<close>

text \<open>Days before each month of a common year, January first.\<close>

definition days_before_month :: "int list" where
  "days_before_month = [0, 31, 59, 90, 120, 151, 181, 212, 243, 273, 304, 334]"

definition days_in_month :: "int list" where
  "days_in_month = [31, 28, 31, 30, 31, 30, 31, 31, 30, 31, 30, 31]"

text \<open>\<open>_ord2ymd\<close>: year, month and day of the day with this number, where 1 is 1 January of the year 1.\<close>

definition ord2ymd :: "int \<Rightarrow> int \<times> int \<times> int" where
  "ord2ymd ordinal =
    (let n = ordinal - 1;
         n400 = n div 146097; n = n mod 146097;
         n100 = n div 36524; n = n mod 36524;
         n4 = n div 1461; n = n mod 1461;
         n1 = n div 365; n = n mod 365;
         year = n400 * 400 + 1 + n100 * 100 + n4 * 4 + n1
     in if n1 = 4 \<or> n100 = 4 then (year - 1, 12, 31)
        else
          (let leap = (n1 = 3 \<and> (n4 \<noteq> 24 \<or> n100 = 3));
               month = (n + 50) div 32;
               before = days_before_month ! nat (month - 1) + (if month > 2 \<and> leap then 1 else 0);
               early = before > n;
               month' = (if early then month - 1 else month);
               before' = (if early
                 then before - (days_in_month ! nat (month' - 1) + (if month' = 2 \<and> leap then 1 else 0))
                 else before)
           in (year, month', n - before' + 1)))"

text \<open>The day of the epoch, 1 January 1970.\<close>

definition epoch_ordinal :: int where "epoch_ordinal = 719163"

definition strftime :: "int \<Rightarrow> string" where
  "strftime t =
    (let secs = t div 1000000; day = secs div 86400; s = secs mod 86400 in
     case ord2ymd (epoch_ordinal + day) of
       (y, m, d) \<Rightarrow>
         py_str_int y @ ''-'' @ pad2 m @ ''-'' @ pad2 d @ '' '' @ pad2 (s div 3600) @ '':''
           @ pad2 (s mod 3600 div 60) @ '':'' @ pad2 (s mod 60))"

end
