(* ===== verification/Config.thy ===== *)
theory Config
  imports PyTime
begin

text \<open>
  \<^verbatim>\<open>app/config/settings.py\<close> and the port's implementation \<^verbatim>\<open>app/adapters/outbound/config.py\<close>:
  the settings with their defaults, the URLs made of them, and the lengths and lifetimes that the
  use cases ask the port for. \<open>pydantic_settings\<close> fills the record from the environment;
  a \<open>SecretStr\<close> is the text it keeps.
\<close>

record settings =
  postgres_db :: string
  postgres_user :: string
  postgres_password :: string
  postgres_host :: string
  postgres_port :: int
  postgres_echo :: bool
  trust_proxy :: bool
  email_token_length :: int
  email_token_expiry_minutes :: int
  jwt_secret :: string
  jwt_algorithm :: string
  access_token_expire_minutes :: int
  refresh_token_length :: int
  refresh_token_expiry_hours :: int
  password_recover_token_length :: int
  password_recover_token_expiry_minutes :: int
  redis_url :: string
  logging_level :: string

text \<open>\<open>timedelta(minutes=n)\<close> and \<open>timedelta(hours=n)\<close> in microseconds.\<close>

definition minutes :: "int \<Rightarrow> timedelta" where
  "minutes n = n * 60 * 1000000"

definition hours :: "int \<Rightarrow> timedelta" where
  "hours n = n * 3600 * 1000000"

text \<open>The class's defaults; the five database fields have none and are arguments.\<close>

definition default_settings :: "string \<Rightarrow> string \<Rightarrow> string \<Rightarrow> string \<Rightarrow> int \<Rightarrow> settings" where
  "default_settings db user pw host port =
    \<lparr>postgres_db = db, postgres_user = user, postgres_password = pw, postgres_host = host,
     postgres_port = port, postgres_echo = False, trust_proxy = False, email_token_length = 32, email_token_expiry_minutes = 720,
     jwt_secret = ''super_secret'', jwt_algorithm = ''HS256'', access_token_expire_minutes = 15,
     refresh_token_length = 32, refresh_token_expiry_hours = 336,
     password_recover_token_length = 32, password_recover_token_expiry_minutes = 15,
     redis_url = ''redis://localhost:6379/0'', logging_level = ''INFO''\<rparr>"

text \<open>The five database fields in the URLs of the two drivers, as they are: nothing is escaped.\<close>

definition database_url :: "settings \<Rightarrow> string" where
  "database_url S =
    ''postgresql+asyncpg://'' @ postgres_user S @ '':'' @ postgres_password S @ ''@'' @ postgres_host S
      @ '':'' @ py_str_int (postgres_port S) @ ''/'' @ postgres_db S"

definition database_url_sync :: "settings \<Rightarrow> string" where
  "database_url_sync S =
    ''postgresql+psycopg2://'' @ postgres_user S @ '':'' @ postgres_password S @ ''@'' @ postgres_host S
      @ '':'' @ py_str_int (postgres_port S) @ ''/'' @ postgres_db S"

text \<open>
  The service and the migrations name the same database: settings with one service URL have one
  migration URL. A URL does not tell its fields apart: a password with an at sign and a longer
  host read the same.
\<close>

lemma database_urls_agree:
  "database_url S = database_url T \<longleftrightarrow> database_url_sync S = database_url_sync T"
  by (simp add: database_url_def database_url_sync_def)

lemma database_url_ambiguous:
  "\<exists>S T. postgres_host S \<noteq> postgres_host T \<and> database_url S = database_url T"
proof (intro exI conjI)
  let ?S = "default_settings ''auth'' ''auth'' ''a@b'' ''c'' 5432"
    and ?T = "default_settings ''auth'' ''auth'' ''a'' ''b@c'' 5432"
  show "postgres_host ?S \<noteq> postgres_host ?T" by (simp add: default_settings_def)
  show "database_url ?S = database_url ?T" by (simp add: database_url_def default_settings_def)
qed

section \<open>The port\<close>

definition email_token_len :: "settings \<Rightarrow> int" where
  "email_token_len S = email_token_length S"

definition email_token_exp :: "settings \<Rightarrow> timedelta" where
  "email_token_exp S = minutes (email_token_expiry_minutes S)"

definition access_token_exp :: "settings \<Rightarrow> timedelta" where
  "access_token_exp S = minutes (access_token_expire_minutes S)"

definition refresh_token_len :: "settings \<Rightarrow> int" where
  "refresh_token_len S = refresh_token_length S"

definition refresh_token_exp :: "settings \<Rightarrow> timedelta" where
  "refresh_token_exp S = hours (refresh_token_expiry_hours S)"

definition password_recover_token_len :: "settings \<Rightarrow> int" where
  "password_recover_token_len S = password_recover_token_length S"

definition password_recover_token_exp :: "settings \<Rightarrow> timedelta" where
  "password_recover_token_exp S = minutes (password_recover_token_expiry_minutes S)"

lemmas config_defs =
  email_token_len_def email_token_exp_def access_token_exp_def refresh_token_len_def
  refresh_token_exp_def password_recover_token_len_def password_recover_token_exp_def
  minutes_def hours_def

end
