(* ===== verification/AccessToken.thy ===== *)
theory AccessToken
  imports Platform Config
begin

text \<open>
  \<^verbatim>\<open>app/adapters/outbound/access_token\<close>: the issuer and the verifier of access tokens,
  over PyJWT's \<open>encode\<close> and \<open>decode\<close>, which are parameters of the environment.
\<close>

definition access_token_issue :: "sysenv \<Rightarrow> settings \<Rightarrow> uuid \<Rightarrow> timedelta \<Rightarrow> ('w, string) py" where
  "access_token_issue E S user_id expiry =
    bindM (utc_now E) (\<lambda>now.
    retM (jwt_encode E
      [(''sub'', ClaimStr (uuid_str user_id)), (''iat'', ClaimTime now),
       (''exp'', ClaimTime (now + expiry)), (''type'', ClaimStr ''access'')]
      (jwt_secret S) (jwt_algorithm S)))"

text \<open>\<open>UUID\<close> of a claim that is no text raises \<open>AttributeError\<close>, which nothing catches.\<close>

definition access_token_verify :: "sysenv \<Rightarrow> settings \<Rightarrow> string \<Rightarrow> ('w, uuid) py" where
  "access_token_verify E S token =
    bindM (utc_now E) (\<lambda>now.
    case jwt_decode E now token (jwt_secret S) [jwt_algorithm S] of
      Inl ExpiredSignatureError \<Rightarrow> raiseM (mk_error AccessTokenExpired None)
    | Inl InvalidTokenError \<Rightarrow> raiseM (mk_error InvalidAccessToken None)
    | Inr payload \<Rightarrow>
        (case map_of payload ''sub'' of
           None \<Rightarrow> raiseM (mk_error InvalidAccessToken None)
         | Some (ClaimTime _) \<Rightarrow> raiseM (LibError AttributeError)
         | Some (ClaimStr s) \<Rightarrow>
             (case uuid_parse s of
                None \<Rightarrow> raiseM (mk_error InvalidAccessToken None)
              | Some u \<Rightarrow> retM u)))"

lemma only_ticks_case_sum [ticks_intros]:
  "(\<And>a. only_ticks (f a)) \<Longrightarrow> (\<And>b. only_ticks (g b)) \<Longrightarrow>
    only_ticks (case r of Inl a \<Rightarrow> f a | Inr b \<Rightarrow> g b)"
  by (cases r) auto

lemma only_ticks_case_jwt_error [ticks_intros]:
  "only_ticks m \<Longrightarrow> only_ticks m' \<Longrightarrow>
    only_ticks (case e of ExpiredSignatureError \<Rightarrow> m | InvalidTokenError \<Rightarrow> m')"
  by (cases e) auto

lemma only_ticks_case_claim [ticks_intros]:
  "(\<And>s. only_ticks (f s)) \<Longrightarrow> (\<And>t. only_ticks (g t)) \<Longrightarrow>
    only_ticks (case c of ClaimStr s \<Rightarrow> f s | ClaimTime t \<Rightarrow> g t)"
  by (cases c) auto

lemma only_ticks_access_token [ticks_intros]:
  "only_ticks (access_token_issue E S u x)" "only_ticks (access_token_verify E S t)"
  unfolding access_token_issue_def access_token_verify_def by (intro ticks_intros)+

lemma run_access_token_issue [run_simps]:
  "access_token_issue E S u x w =
    (Inr (jwt_encode E
      [(''sub'', ClaimStr (uuid_str u)), (''iat'', ClaimTime (now_at E (tick w))),
       (''exp'', ClaimTime (now_at E (tick w) + x)), (''type'', ClaimStr ''access'')]
      (jwt_secret S) (jwt_algorithm S)), w\<lparr>tick := Suc (tick w)\<rparr>)"
  by (simp add: access_token_issue_def run_simps)

subsection \<open>What the service relies on of PyJWT\<close>

text \<open>
  Documented behaviour: a token decodes under the secret and algorithm that made it;
  times are kept in whole seconds; a token is expired from the second of its \<open>exp\<close> claim,
  and not yet valid before the second of its \<open>iat\<close> claim.
\<close>

definition whole_second :: "datetime \<Rightarrow> datetime" where
  "whole_second t = t div 1000000 * 1000000"

definition jwt_faithful :: "sysenv \<Rightarrow> settings \<Rightarrow> bool" where
  "jwt_faithful E S \<longleftrightarrow>
    (\<forall>now sub iat exp typ.
      let r = jwt_decode E now
        (jwt_encode E [(''sub'', ClaimStr sub), (''iat'', ClaimTime iat), (''exp'', ClaimTime exp), (''type'', ClaimStr typ)]
          (jwt_secret S) (jwt_algorithm S)) (jwt_secret S) [jwt_algorithm S]
      in if whole_second exp \<le> now then r = Inl ExpiredSignatureError
         else if now < whole_second iat then r = Inl InvalidTokenError
         else (\<exists>p. r = Inr p \<and> map_of p ''sub'' = Some (ClaimStr sub)))"

lemma verify_issued:
  assumes jwt: "jwt_faithful E S"
    and issue: "access_token_issue E S u x w = (Inr token, w1)"
  shows "access_token_verify E S token v =
    (if whole_second (now_at E (tick w) + x) \<le> now_at E (tick v) then Inl (mk_error AccessTokenExpired None)
     else if now_at E (tick v) < whole_second (now_at E (tick w)) then Inl (mk_error InvalidAccessToken None)
     else Inr u, v\<lparr>tick := Suc (tick v)\<rparr>)"
proof -
  let ?iat = "now_at E (tick w)"
  let ?r = "jwt_decode E (now_at E (tick v)) token (jwt_secret S) [jwt_algorithm S]"
  have t: "token = jwt_encode E [(''sub'', ClaimStr (uuid_str u)), (''iat'', ClaimTime ?iat),
      (''exp'', ClaimTime (?iat + x)), (''type'', ClaimStr ''access'')] (jwt_secret S) (jwt_algorithm S)"
    using issue by (simp add: run_simps)
  have "if whole_second (?iat + x) \<le> now_at E (tick v) then ?r = Inl ExpiredSignatureError
     else if now_at E (tick v) < whole_second ?iat then ?r = Inl InvalidTokenError
     else (\<exists>p. ?r = Inr p \<and> map_of p ''sub'' = Some (ClaimStr (uuid_str u)))"
    using jwt unfolding jwt_faithful_def Let_def t by blast
  then show ?thesis
    by (auto simp: access_token_verify_def run_simps uuid_parse_str split: if_splits)
qed

end
