(* ===== verification/DomainServices.thy ===== *)
theory DomainServices
  imports UserEntity TokenEntities AccessToken
begin

text \<open>
  \<^verbatim>\<open>app/core/domain/services\<close>: email verification, password recovery, refresh-token
  rotation, and the risk policy that compares a token's client data with the request's.
\<close>

section \<open>Services on aggregates\<close>

definition request_verification :: "sysenv \<Rightarrow> user \<Rightarrow> int \<Rightarrow> timedelta \<Rightarrow> ('w, user \<times> ott \<times> string) py" where
  "request_verification E u len expiry =
    bindM (ott_create E (u_id u) len expiry VERIFY_EMAIL) (\<lambda>(token, s).
    bindM (request_email_verification E u s) (\<lambda>u'.
    retM (u', token, s)))"

definition recover_request_service :: "sysenv \<Rightarrow> user \<Rightarrow> int \<Rightarrow> timedelta \<Rightarrow> ('w, user \<times> ott \<times> string) py" where
  "recover_request_service E u len expiry =
    bindM (ott_create E (u_id u) len expiry RECOVER_PASSWORD) (\<lambda>(token, s).
    bindM (request_password_recover E u s) (\<lambda>u'.
    retM (u', token, s)))"

text \<open>The port that issues access tokens is an argument, as it is in the source.\<close>

definition rotate ::
  "sysenv \<Rightarrow> rtoken \<Rightarrow> int \<Rightarrow> timedelta \<Rightarrow> timedelta \<Rightarrow> (uuid \<Rightarrow> timedelta \<Rightarrow> ('w, string) py) \<Rightarrow>
    ('w, rtoken \<times> rtoken \<times> string \<times> string) py" where
  "rotate E old len refresh_expiry access_expiry issue =
    bindM (rt_create E (r_user_id old) len refresh_expiry None None None) (\<lambda>(new, s).
    bindM (liftM (rt_mark_as_replaced_by old (r_id new))) (\<lambda>old'.
    bindM (issue (r_user_id new) access_expiry) (\<lambda>access.
    retM (old', new, s, access))))"

lemma only_ticks_services [ticks_intros]:
  "only_ticks (request_verification E u n x)" "only_ticks (recover_request_service E u n x)"
  unfolding request_verification_def recover_request_service_def by (intro ticks_intros)+

lemma only_ticks_rotate [ticks_intros]:
  "(\<And>u x. only_ticks (issue u x)) \<Longrightarrow> only_ticks (rotate E old n x y issue)"
  unfolding rotate_def by (intro ticks_intros)

section \<open>\<open>ipaddress.ip_address\<close> on IPv4 text\<close>

definition is_digit :: "char \<Rightarrow> bool" where
  "is_digit c \<longleftrightarrow> 48 \<le> chr_ord c \<and> chr_ord c \<le> 57"

definition decimal :: "string \<Rightarrow> nat" where
  "decimal s = foldl (\<lambda>acc c. 10 * acc + (chr_ord c - 48)) 0 s"

text \<open>\<open>IPv4Address._parse_octet\<close>: digits only, at most three, no leading zero, at most 255.\<close>

definition parse_octet :: "string \<Rightarrow> nat option" where
  "parse_octet s =
    (if s = [] \<or> \<not> list_all is_digit s \<or> 3 < length s \<or> (s \<noteq> ''0'' \<and> hd s = CHR ''0'') then None
     else if 255 < decimal s then None
     else Some (decimal s))"

text \<open>The packed form of an IPv4 address; \<open>None\<close> for an IPv6 address and for what is no address.\<close>

definition ipv4_packed :: "string \<Rightarrow> nat list option" where
  "ipv4_packed s =
    (let octets = py_split (CHR ''.'') s in
     if length octets \<noteq> 4 then None else those (map parse_octet octets))"

section \<open>\<open>RefreshTokenSecurityPolicy\<close>\<close>

definition AGENT_MISMATCH_RISK :: int where "AGENT_MISMATCH_RISK = 2"
definition LOCATION_MISMATCH_RISK :: int where "LOCATION_MISMATCH_RISK = 2"
definition IP_RANGE_MISMATCH_RISK :: int where "IP_RANGE_MISMATCH_RISK = 1"

text \<open>\<open>ip_address(None)\<close> raises, as a text that is no address does.\<close>

definition same_ip_range :: "string option \<Rightarrow> string option \<Rightarrow> bool" where
  "same_ip_range ip1 ip2 =
    (case (Option.bind ip1 ipv4_packed, Option.bind ip2 ipv4_packed) of
       (Some a, Some b) \<Rightarrow> py_slice 0 3 a = py_slice 0 3 b
     | _ \<Rightarrow> False)"

text \<open>\<open>a and b and a != b\<close>: the empty text counts as missing.\<close>

definition mismatch :: "string option \<Rightarrow> string option \<Rightarrow> bool" where
  "mismatch a b =
    (case (a, b) of (Some s, Some t) \<Rightarrow> s \<noteq> [] \<and> t \<noteq> [] \<and> s \<noteq> t | _ \<Rightarrow> False)"

definition assess_risk ::
  "string option \<Rightarrow> string option \<Rightarrow> string option \<Rightarrow> string option \<Rightarrow> string option \<Rightarrow> string option \<Rightarrow> int" where
  "assess_risk token_ip token_agent token_location current_ip current_agent current_location =
    (let risk = 0;
         risk = (if mismatch token_agent current_agent then risk + AGENT_MISMATCH_RISK else risk);
         risk = (if mismatch token_location current_location then risk + LOCATION_MISMATCH_RISK else risk);
         risk = (if \<not> same_ip_range token_ip current_ip then risk + IP_RANGE_MISMATCH_RISK else risk)
     in risk)"

lemma parse_octet_bound: "parse_octet s = Some n \<Longrightarrow> n \<le> 255"
  by (auto simp: parse_octet_def split: if_splits)

lemma those_SomeD: "those xs = Some ys \<Longrightarrow> xs = map Some ys"
proof (induction xs arbitrary: ys)
  case (Cons x xs)
  then show ?case by (auto split: option.splits)
qed simp

lemma ipv4_packed_Some:
  "ipv4_packed s = Some p \<Longrightarrow> length p = 4 \<and> (\<forall>n \<in> set p. n \<le> 255)"
proof -
  assume a: "ipv4_packed s = Some p"
  let ?o = "py_split (CHR ''.'') s"
  from a have l: "length ?o = 4" and t: "those (map parse_octet ?o) = Some p"
    by (auto simp: ipv4_packed_def Let_def split: if_splits)
  from those_SomeD [OF t] have m: "map parse_octet ?o = map Some p" .
  then have "length p = 4" using l by (metis length_map)
  moreover have "n \<le> 255" if "n \<in> set p" for n
  proof -
    have "Some n \<in> set (map parse_octet ?o)" using that m by simp
    then show ?thesis using parse_octet_bound by force
  qed
  ultimately show ?thesis by blast
qed

lemma same_ip_range_sym: "same_ip_range a b = same_ip_range b a"
  by (auto simp: same_ip_range_def split: option.splits)

lemma same_ip_range_trans: "same_ip_range a b \<Longrightarrow> same_ip_range b c \<Longrightarrow> same_ip_range a c"
  by (auto simp: same_ip_range_def split: option.splits)

lemma same_ip_range_None [simp]: "\<not> same_ip_range None b" "\<not> same_ip_range a None"
  by (simp_all add: same_ip_range_def split: option.split)

lemma mismatch_None [simp]: "\<not> mismatch None b" "\<not> mismatch a None"
  by (simp_all add: mismatch_def split: option.split)

lemmas risk_weights = AGENT_MISMATCH_RISK_def LOCATION_MISMATCH_RISK_def IP_RANGE_MISMATCH_RISK_def

lemma assess_risk_eq:
  "assess_risk tip ta tloc cip ca cloc =
    (if mismatch ta ca then 2 else 0) + (if mismatch tloc cloc then 2 else 0)
      + (if same_ip_range tip cip then 0 else 1)"
  by (simp add: assess_risk_def risk_weights Let_def)

end
