(* ===== verification/Database.thy ===== *)
theory Database
  imports Exceptions
begin

text \<open>
  The tables of \<^verbatim>\<open>app/adapters/outbound/persistence/sqlalchemy/models\<close> and the meaning of
  the SQL statements the repositories build. A table is the list of its rows; a statement
  maps the database to the changed database or to the error the server reports, with the
  constraints that the models declare: primary keys, the unique address, the foreign keys
  to \<open>users\<close> with their cascade, \<open>String(255)\<close> and \<open>Integer\<close>. Statements that fail change
  nothing.
\<close>

section \<open>Rows by key\<close>

text \<open>A table read through its key: the row of each key.\<close>

definition table_map :: "('r \<Rightarrow> 'k) \<Rightarrow> 'r list \<Rightarrow> 'k \<rightharpoonup> 'r" where
  "table_map k t = map_of (map (\<lambda>r. (k r, r)) t)"

text \<open>\<open>Result.scalar_one_or_none\<close>\<close>

definition scalar_one_or_none :: "'r list \<Rightarrow> exn + 'r option" where
  "scalar_one_or_none rows =
    (case rows of [] \<Rightarrow> Inr None | [r] \<Rightarrow> Inr (Some r) | _ \<Rightarrow> Inl (LibError MultipleResultsFound))"

text \<open>\<open>UPDATE t SET ... WHERE P\<close>: the new table; the row count is the number of rows of \<open>P\<close>.\<close>

definition update_where :: "('r \<Rightarrow> bool) \<Rightarrow> ('r \<Rightarrow> 'r) \<Rightarrow> 'r list \<Rightarrow> 'r list" where
  "update_where P f t = map (\<lambda>r. if P r then f r else r) t"

definition rowcount :: "('r \<Rightarrow> bool) \<Rightarrow> 'r list \<Rightarrow> nat" where
  "rowcount P t = length (filter P t)"

text \<open>\<open>DELETE FROM t WHERE P\<close>\<close>

definition delete_where :: "('r \<Rightarrow> bool) \<Rightarrow> 'r list \<Rightarrow> 'r list" where
  "delete_where P t = filter (\<lambda>r. \<not> P r) t"

lemma table_map_Nil [simp]: "table_map k [] = Map.empty"
  by (simp add: table_map_def)

lemma table_map_Cons: "table_map k (r # t) = (table_map k t)(k r \<mapsto> r)"
  by (simp add: table_map_def)

lemma table_map_append: "table_map k (s @ t) = table_map k t ++ table_map k s"
  by (simp add: table_map_def)

lemma dom_table_map: "dom (table_map k t) = k ` set t"
  by (simp add: table_map_def dom_map_of_conv_image_fst image_image)

lemma table_map_None: "table_map k t i = None \<longleftrightarrow> i \<notin> k ` set t"
  using dom_table_map [of k t] by (auto simp: domIff)

lemma table_map_SomeD: "table_map k t i = Some r \<Longrightarrow> r \<in> set t \<and> k r = i"
  by (induction t) (auto simp: table_map_Cons split: if_splits)

lemma table_map_SomeI: "distinct (map k t) \<Longrightarrow> r \<in> set t \<Longrightarrow> table_map k t (k r) = Some r"
  unfolding table_map_def by (rule map_of_is_SomeI) (auto simp: comp_def)

lemma table_map_insert: "k r \<notin> k ` set t \<Longrightarrow> table_map k (t @ [r]) = (table_map k t)(k r \<mapsto> r)"
  by (induction t) (auto simp: table_map_Cons)

lemma filter_key:
  "distinct (map k t) \<Longrightarrow>
    filter (\<lambda>r. k r = i \<and> P r) t =
      (case table_map k t i of None \<Rightarrow> [] | Some r \<Rightarrow> if P r then [r] else [])"
proof (induction t)
  case (Cons r t)
  have "k r \<notin> k ` set t" using Cons.prems by simp
  then have n: "k r = i \<Longrightarrow> table_map k t i = None" by (simp add: table_map_None)
  then show ?case using Cons by (auto simp: table_map_Cons split: option.splits)
qed simp

lemma filter_key_True:
  "distinct (map k t) \<Longrightarrow>
    filter (\<lambda>r. k r = i) t = (case table_map k t i of None \<Rightarrow> [] | Some r \<Rightarrow> [r])"
  using filter_key [of k t i "\<lambda>_. True"] by (simp split: option.splits)

lemma rowcount_key:
  "distinct (map k t) \<Longrightarrow>
    rowcount (\<lambda>r. k r = i \<and> P r) t =
      (case table_map k t i of None \<Rightarrow> 0 | Some r \<Rightarrow> if P r then 1 else 0)"
  by (simp add: rowcount_def filter_key split: option.splits)

lemma scalar_one_key [simp]:
  "distinct (map k t) \<Longrightarrow> scalar_one_or_none (filter (\<lambda>r. k r = i) t) = Inr (table_map k t i)"
  by (simp add: filter_key_True scalar_one_or_none_def split: option.splits)

lemma scalar_one_or_none_Inr:
  "scalar_one_or_none rows = Inr r \<longleftrightarrow> (rows = [] \<and> r = None) \<or> (\<exists>x. rows = [x] \<and> r = Some x)"
  by (auto simp: scalar_one_or_none_def split: list.splits)

lemma map_update_where [simp]:
  "(\<And>r. P r \<Longrightarrow> g (f r) = g r) \<Longrightarrow> map g (update_where P f t) = map g t"
  by (simp add: update_where_def)

lemma length_update_where [simp]: "length (update_where P f t) = length t"
  by (simp add: update_where_def)

lemma set_update_where: "r \<in> set (update_where P f t) \<longleftrightarrow>
    (r \<in> set t \<and> \<not> P r) \<or> (\<exists>s \<in> set t. P s \<and> r = f s)"
  by (auto simp: update_where_def)

lemma table_map_update_where:
  assumes "distinct (map k t)" and "\<And>r. k r = i \<Longrightarrow> P r \<Longrightarrow> k (f r) = i"
  shows "table_map k (update_where (\<lambda>r. k r = i \<and> P r) f t) =
    (case table_map k t i of
       None \<Rightarrow> table_map k t
     | Some r \<Rightarrow> if P r then (table_map k t)(i \<mapsto> f r) else table_map k t)"
  using assms
proof (induction t)
  case (Cons r t)
  have n: "k r \<notin> k ` set t" using Cons.prems by simp
  show ?case
  proof (cases "k r = i")
    case True
    then have ne: "k x \<noteq> i" if "x \<in> set t" for x using n that by (metis imageI)
    have "table_map k t i = None" using n True by (simp add: table_map_None)
    moreover have "update_where (\<lambda>r. k r = i \<and> P r) f t = t"
      using ne by (auto simp: update_where_def intro!: map_idI)
    ultimately show ?thesis using True Cons.prems
      by (auto simp: update_where_def table_map_Cons)
  next
    case False
    then show ?thesis using Cons
      by (auto simp: update_where_def table_map_Cons fun_upd_twist split: option.splits)
  qed
qed (simp add: update_where_def)

lemma table_map_delete_where:
  assumes "distinct (map k t)"
  shows "table_map k (delete_where (\<lambda>r. k r = i \<and> P r) t) =
    (case table_map k t i of
       None \<Rightarrow> table_map k t
     | Some r \<Rightarrow> if P r then (table_map k t)(i := None) else table_map k t)"
  using assms
proof (induction t)
  case (Cons r t)
  have n: "k r \<notin> k ` set t" using Cons.prems by simp
  show ?case
  proof (cases "k r = i")
    case True
    then have ne: "k x \<noteq> i" if "x \<in> set t" for x using n that by (metis imageI)
    have t: "table_map k t i = None" using n True by (simp add: table_map_None)
    moreover have "delete_where (\<lambda>r. k r = i \<and> P r) t = t"
      using ne by (auto simp: delete_where_def intro!: filter_True)
    ultimately show ?thesis using True t
      by (auto simp: delete_where_def table_map_Cons fun_upd_idem)
  next
    case False
    then show ?thesis using Cons
      by (auto simp: delete_where_def table_map_Cons fun_upd_twist split: option.splits)
  qed
qed (simp add: delete_where_def)

lemma distinct_delete_where: "distinct (map k t) \<Longrightarrow> distinct (map k (delete_where P t))"
  by (simp add: delete_where_def distinct_map_filter)

section \<open>The tables\<close>

record user_row =
  ur_id :: uuid
  ur_email :: string
  ur_is_email_verified :: bool
  ur_password_hash :: string
  ur_active :: bool
  ur_created_at :: datetime
  ur_version :: int

record ott_row =
  otr_id :: uuid
  otr_token_hash :: string
  otr_user_id :: uuid
  otr_expires_at :: datetime
  otr_version :: int
  otr_used :: bool
  otr_purpose :: string

record rt_row =
  rtr_id :: uuid
  rtr_token_hash :: string
  rtr_user_id :: uuid
  rtr_expires_at :: datetime
  rtr_version :: int
  rtr_revoked_at :: "datetime option"
  rtr_replaced_by_id :: "uuid option"
  rtr_created_at :: datetime

record database =
  users :: "user_row list"
  one_time_tokens :: "ott_row list"
  refresh_tokens :: "rt_row list"

definition empty_database :: database where
  "empty_database = \<lparr>users = [], one_time_tokens = [], refresh_tokens = []\<rparr>"

text \<open>\<open>Integer\<close> is a four-byte integer, \<open>String(255)\<close> takes at most 255 characters.\<close>

definition int4 :: "int \<Rightarrow> bool" where
  "int4 n \<longleftrightarrow> - (2 ^ 31) \<le> n \<and> n < 2 ^ 31"

definition varchar255 :: "string \<Rightarrow> bool" where
  "varchar255 s \<longleftrightarrow> length s \<le> 255"

definition user_row_fits :: "user_row \<Rightarrow> bool" where
  "user_row_fits r \<longleftrightarrow> varchar255 (ur_email r) \<and> varchar255 (ur_password_hash r) \<and> int4 (ur_version r)"

definition ott_row_fits :: "ott_row \<Rightarrow> bool" where
  "ott_row_fits r \<longleftrightarrow> varchar255 (otr_token_hash r) \<and> varchar255 (otr_purpose r) \<and> int4 (otr_version r)"

definition rt_row_fits :: "rt_row \<Rightarrow> bool" where
  "rt_row_fits r \<longleftrightarrow> varchar255 (rtr_token_hash r) \<and> int4 (rtr_version r)"

definition user_ids :: "database \<Rightarrow> uuid set" where
  "user_ids d = ur_id ` set (users d)"

subsection \<open>Statements on \<open>users\<close>\<close>

definition insert_user :: "user_row \<Rightarrow> database \<Rightarrow> exn + database" where
  "insert_user r d =
    (if \<not> user_row_fits r then Inl (LibError DBAPIError)
     else if ur_id r \<in> ur_id ` set (users d) \<or> ur_email r \<in> ur_email ` set (users d)
     then Inl (LibError IntegrityError)
     else Inr (d\<lparr>users := users d @ [r]\<rparr>))"

text \<open>
  The update of the row with this id and version; the driver refuses a new version that
  is no four-byte integer before the statement runs. Returns the row count.
\<close>

definition update_user :: "uuid \<Rightarrow> int \<Rightarrow> (user_row \<Rightarrow> user_row) \<Rightarrow> database \<Rightarrow> exn + (nat \<times> database)" where
  "update_user i v f d =
    (let P = (\<lambda>r. ur_id r = i \<and> ur_version r = v); t = update_where P f (users d) in
     if \<not> int4 (v + 1) \<or> (\<exists>r \<in> set (users d). P r \<and> \<not> user_row_fits (f r))
     then Inl (LibError DBAPIError)
     else if \<not> distinct (map ur_email t) then Inl (LibError IntegrityError)
     else Inr (rowcount P (users d), d\<lparr>users := t\<rparr>))"

text \<open>Deleting a user deletes the tokens that refer to it: \<open>ondelete="CASCADE"\<close>.\<close>

definition delete_user :: "uuid \<Rightarrow> int option \<Rightarrow> database \<Rightarrow> nat \<times> database" where
  "delete_user i v d =
    (let P = (\<lambda>r. ur_id r = i \<and> Some (ur_version r) = v);
         gone = ur_id ` set (filter P (users d)) in
     (rowcount P (users d),
      d\<lparr>users := delete_where P (users d),
        one_time_tokens := delete_where (\<lambda>r. otr_user_id r \<in> gone) (one_time_tokens d),
        refresh_tokens := delete_where (\<lambda>r. rtr_user_id r \<in> gone) (refresh_tokens d)\<rparr>))"

subsection \<open>Statements on the token tables\<close>

definition insert_ott :: "ott_row \<Rightarrow> database \<Rightarrow> exn + database" where
  "insert_ott r d =
    (if \<not> ott_row_fits r then Inl (LibError DBAPIError)
     else if otr_id r \<in> otr_id ` set (one_time_tokens d) \<or> otr_user_id r \<notin> user_ids d
     then Inl (LibError IntegrityError)
     else Inr (d\<lparr>one_time_tokens := one_time_tokens d @ [r]\<rparr>))"

definition update_ott :: "uuid \<Rightarrow> int \<Rightarrow> (ott_row \<Rightarrow> ott_row) \<Rightarrow> database \<Rightarrow> exn + (nat \<times> database)" where
  "update_ott i v f d =
    (let P = (\<lambda>r. otr_id r = i \<and> otr_version r = v) in
     if \<not> int4 (v + 1) \<or> (\<exists>r \<in> set (one_time_tokens d). P r \<and> \<not> ott_row_fits (f r))
     then Inl (LibError DBAPIError)
     else if \<exists>r \<in> set (one_time_tokens d). P r \<and> otr_user_id (f r) \<notin> user_ids d
     then Inl (LibError IntegrityError)
     else Inr (rowcount P (one_time_tokens d), d\<lparr>one_time_tokens := update_where P f (one_time_tokens d)\<rparr>))"

definition delete_ott :: "uuid \<Rightarrow> int option \<Rightarrow> database \<Rightarrow> nat \<times> database" where
  "delete_ott i v d =
    (let P = (\<lambda>r. otr_id r = i \<and> Some (otr_version r) = v) in
     (rowcount P (one_time_tokens d), d\<lparr>one_time_tokens := delete_where P (one_time_tokens d)\<rparr>))"

definition insert_rt :: "rt_row \<Rightarrow> database \<Rightarrow> exn + database" where
  "insert_rt r d =
    (if \<not> rt_row_fits r then Inl (LibError DBAPIError)
     else if rtr_id r \<in> rtr_id ` set (refresh_tokens d) \<or> rtr_user_id r \<notin> user_ids d
     then Inl (LibError IntegrityError)
     else Inr (d\<lparr>refresh_tokens := refresh_tokens d @ [r]\<rparr>))"

definition update_rt :: "uuid \<Rightarrow> int \<Rightarrow> (rt_row \<Rightarrow> rt_row) \<Rightarrow> database \<Rightarrow> exn + (nat \<times> database)" where
  "update_rt i v f d =
    (let P = (\<lambda>r. rtr_id r = i \<and> rtr_version r = v) in
     if \<not> int4 (v + 1) \<or> (\<exists>r \<in> set (refresh_tokens d). P r \<and> \<not> rt_row_fits (f r))
     then Inl (LibError DBAPIError)
     else if \<exists>r \<in> set (refresh_tokens d). P r \<and> rtr_user_id (f r) \<notin> user_ids d
     then Inl (LibError IntegrityError)
     else Inr (rowcount P (refresh_tokens d), d\<lparr>refresh_tokens := update_where P f (refresh_tokens d)\<rparr>))"

definition delete_rt :: "uuid \<Rightarrow> int option \<Rightarrow> database \<Rightarrow> nat \<times> database" where
  "delete_rt i v d =
    (let P = (\<lambda>r. rtr_id r = i \<and> Some (rtr_version r) = v) in
     (rowcount P (refresh_tokens d), d\<lparr>refresh_tokens := delete_where P (refresh_tokens d)\<rparr>))"

section \<open>Integrity\<close>

text \<open>What the constraints of the schema promise of every committed database.\<close>

definition db_wf :: "database \<Rightarrow> bool" where
  "db_wf d \<longleftrightarrow>
    distinct (map ur_id (users d)) \<and> distinct (map ur_email (users d))
    \<and> distinct (map otr_id (one_time_tokens d)) \<and> distinct (map rtr_id (refresh_tokens d))
    \<and> (\<forall>r \<in> set (one_time_tokens d). otr_user_id r \<in> user_ids d)
    \<and> (\<forall>r \<in> set (refresh_tokens d). rtr_user_id r \<in> user_ids d)
    \<and> (\<forall>r \<in> set (users d). user_row_fits r)
    \<and> (\<forall>r \<in> set (one_time_tokens d). ott_row_fits r)
    \<and> (\<forall>r \<in> set (refresh_tokens d). rt_row_fits r)"

lemma db_wf_empty [simp]: "db_wf empty_database"
  by (simp add: db_wf_def empty_database_def)

lemma user_ids_simps [simp]:
  "user_ids (d\<lparr>one_time_tokens := x\<rparr>) = user_ids d"
  "user_ids (d\<lparr>refresh_tokens := y\<rparr>) = user_ids d"
  by (simp_all add: user_ids_def)

lemma insert_user_wf: "db_wf d \<Longrightarrow> insert_user r d = Inr d' \<Longrightarrow> db_wf d'"
  by (auto simp: db_wf_def insert_user_def user_ids_def split: if_splits)

lemma insert_ott_wf: "db_wf d \<Longrightarrow> insert_ott r d = Inr d' \<Longrightarrow> db_wf d'"
  by (auto simp: db_wf_def insert_ott_def split: if_splits)

lemma insert_rt_wf: "db_wf d \<Longrightarrow> insert_rt r d = Inr d' \<Longrightarrow> db_wf d'"
  by (auto simp: db_wf_def insert_rt_def split: if_splits)

lemma image_update_where:
  assumes "\<And>r. P r \<Longrightarrow> g (f r) = g r"
  shows "g ` set (update_where P f t) = g ` set t"
proof -
  have "map g (update_where P f t) = map g t" using assms by simp
  then show ?thesis by (metis image_set)
qed

lemma update_user_wf:
  assumes "db_wf d" and "update_user i v f d = Inr (n, d')" and "\<And>r. ur_id (f r) = ur_id r"
  shows "db_wf d'"
  using assms
  by (auto simp: db_wf_def update_user_def Let_def user_ids_def image_update_where set_update_where split: if_splits)

lemma update_ott_wf:
  assumes "db_wf d" and "update_ott i v f d = Inr (n, d')" and "\<And>r. otr_id (f r) = otr_id r"
  shows "db_wf d'"
  using assms by (auto simp: db_wf_def update_ott_def Let_def set_update_where split: if_splits)

lemma update_rt_wf:
  assumes "db_wf d" and "update_rt i v f d = Inr (n, d')" and "\<And>r. rtr_id (f r) = rtr_id r"
  shows "db_wf d'"
  using assms by (auto simp: db_wf_def update_rt_def Let_def set_update_where split: if_splits)

lemma delete_ott_wf: "db_wf d \<Longrightarrow> db_wf (snd (delete_ott i v d))"
  by (auto simp: db_wf_def delete_ott_def Let_def delete_where_def distinct_map_filter)

lemma delete_rt_wf: "db_wf d \<Longrightarrow> db_wf (snd (delete_rt i v d))"
  by (auto simp: db_wf_def delete_rt_def Let_def delete_where_def distinct_map_filter)

lemma delete_user_wf: "db_wf d \<Longrightarrow> db_wf (snd (delete_user i v d))"
proof -
  assume d: "db_wf d"
  define P :: "user_row \<Rightarrow> bool" where "P = (\<lambda>r. ur_id r = i \<and> Some (ur_version r) = v)"
  have k: "j \<in> ur_id ` set (delete_where P (users d))"
    if "j \<in> user_ids d" and "j \<notin> ur_id ` set (filter P (users d))" for j
    using that by (auto simp: user_ids_def delete_where_def)
  show ?thesis
    using d k unfolding db_wf_def delete_user_def Let_def P_def [symmetric]
    by (auto simp: user_ids_def delete_where_def distinct_map_filter)
qed

end
