(* ===== verification/Repositories.thy ===== *)
theory Repositories
  imports DomainServices Database
begin

text \<open>
  \<^verbatim>\<open>app/adapters/outbound/persistence/sqlalchemy/repositories\<close>: the three repositories,
  with the conversions between entities and rows. A method maps the database to an
  exception, or to its result and the changed database; where it raises, the database is
  as it was. The contract that the three share is the locale \<open>repository\<close>.
\<close>

section \<open>\<open>UserRepository\<close>\<close>

definition user_orm2domain :: "user_row \<Rightarrow> user" where
  "user_orm2domain r =
    \<lparr>u_id = ur_id r, u_email = ur_email r, u_password_hash = ur_password_hash r,
     u_active = ur_active r, u_is_email_verified = ur_is_email_verified r,
     u_created_at = ur_created_at r, u_events = [], u_version = Some (ur_version r)\<rparr>"

definition user_domain2orm :: "user \<Rightarrow> user_row" where
  "user_domain2orm u =
    \<lparr>ur_id = u_id u, ur_email = u_email u, ur_is_email_verified = u_is_email_verified u,
     ur_password_hash = u_password_hash u, ur_active = u_active u, ur_created_at = u_created_at u,
     ur_version = (case u_version u of None \<Rightarrow> 0 | Some v \<Rightarrow> v)\<rparr>"

text \<open>
  The address may be any JSON value (the DTO skips its validation): \<open>== None\<close> renders as
  \<open>IS NULL\<close>, which no row satisfies; the driver refuses a value that is no text.
\<close>

definition user_get_by_email :: "pyval \<Rightarrow> database \<Rightarrow> exn + user option" where
  "user_get_by_email v d =
    (case v of
       PyNone \<Rightarrow> Inr None
     | PyOther \<Rightarrow> Inl (LibError DBAPIError)
     | PyStr email \<Rightarrow>
         map_sum id (map_option user_orm2domain)
           (scalar_one_or_none (filter (\<lambda>r. ur_email r = email) (users d))))"

definition user_get_by_id :: "uuid \<Rightarrow> database \<Rightarrow> exn + user option" where
  "user_get_by_id i d =
    map_sum id (map_option user_orm2domain)
      (scalar_one_or_none (filter (\<lambda>r. ur_id r = i) (users d)))"

definition user_save :: "user \<Rightarrow> database \<Rightarrow> exn + (user \<times> database)" where
  "user_save u d =
    (case u_version u of
       None \<Rightarrow>
         (case insert_user ((user_domain2orm u)\<lparr>ur_version := 1\<rparr>) d of
            Inl e \<Rightarrow> Inl e
          | Inr d' \<Rightarrow> Inr (u\<lparr>u_version := Some 1\<rparr>, d'))
     | Some v \<Rightarrow>
         (case update_user (u_id u) v
             (\<lambda>r. r\<lparr>ur_email := u_email u, ur_password_hash := u_password_hash u,
                    ur_active := u_active u, ur_is_email_verified := u_is_email_verified u,
                    ur_created_at := u_created_at u, ur_version := v + 1\<rparr>) d of
            Inl e \<Rightarrow> Inl e
          | Inr (n, d') \<Rightarrow>
              if n \<noteq> 1 then Inl (mk_error ConcurrencyError (Some ''User version conflict''))
              else Inr (u\<lparr>u_version := Some (v + 1)\<rparr>, d')))"

definition user_delete :: "user \<Rightarrow> database \<Rightarrow> exn + database" where
  "user_delete u d =
    (case delete_user (u_id u) (u_version u) d of
       (n, d') \<Rightarrow>
         if n \<noteq> 1 then Inl (mk_error ConcurrencyError (Some ''User version conflict on delete''))
         else Inr d')"

section \<open>\<open>OneTimeTokenRepository\<close>\<close>

fun purpose_value :: "ott_purpose \<Rightarrow> string" where
  "purpose_value VERIFY_EMAIL = ''verify_email''"
| "purpose_value RECOVER_PASSWORD = ''recover_password''"

text \<open>\<open>OneTimeTokenPurpose(text)\<close>; \<open>None\<close> stands for its \<open>ValueError\<close>.\<close>

definition purpose_of :: "string \<Rightarrow> ott_purpose option" where
  "purpose_of s =
    (if s = ''verify_email'' then Some VERIFY_EMAIL
     else if s = ''recover_password'' then Some RECOVER_PASSWORD
     else None)"

definition ott_orm2domain :: "ott_row \<Rightarrow> exn + ott" where
  "ott_orm2domain r =
    (case purpose_of (otr_purpose r) of
       None \<Rightarrow> Inl (LibError ValueError)
     | Some p \<Rightarrow>
         Inr \<lparr>o_id = otr_id r, o_user_id = otr_user_id r, o_token_hash = otr_token_hash r,
              o_expires_at = otr_expires_at r, o_purpose = p, o_used = otr_used r,
              o_version = Some (otr_version r)\<rparr>)"

definition ott_domain2orm :: "ott \<Rightarrow> ott_row" where
  "ott_domain2orm t =
    \<lparr>otr_id = o_id t, otr_token_hash = o_token_hash t, otr_user_id = o_user_id t,
     otr_expires_at = o_expires_at t,
     otr_version = (case o_version t of None \<Rightarrow> 0 | Some v \<Rightarrow> v),
     otr_used = o_used t, otr_purpose = purpose_value (o_purpose t)\<rparr>"

text \<open>The token text may be any JSON value; \<open>hash_token\<close> needs a \<open>str\<close>.\<close>

definition ott_get_by_string :: "pyval \<Rightarrow> database \<Rightarrow> exn + ott option" where
  "ott_get_by_string v d =
    (case v of
       PyStr token \<Rightarrow>
         (case scalar_one_or_none (filter (\<lambda>r. otr_token_hash r = hash_token token) (one_time_tokens d)) of
            Inl e \<Rightarrow> Inl e
          | Inr None \<Rightarrow> Inr None
          | Inr (Some r) \<Rightarrow> map_sum id Some (ott_orm2domain r))
     | _ \<Rightarrow> Inl (LibError AttributeError))"

definition ott_save :: "ott \<Rightarrow> database \<Rightarrow> exn + (ott \<times> database)" where
  "ott_save t d =
    (case o_version t of
       None \<Rightarrow>
         (case insert_ott ((ott_domain2orm t)\<lparr>otr_version := 1\<rparr>) d of
            Inl e \<Rightarrow> Inl e
          | Inr d' \<Rightarrow> Inr (t\<lparr>o_version := Some 1\<rparr>, d'))
     | Some v \<Rightarrow>
         (case update_ott (o_id t) v
             (\<lambda>r. r\<lparr>otr_token_hash := o_token_hash t, otr_user_id := o_user_id t,
                    otr_expires_at := o_expires_at t, otr_used := o_used t, otr_version := v + 1\<rparr>) d of
            Inl e \<Rightarrow> Inl e
          | Inr (n, d') \<Rightarrow>
              if n \<noteq> 1 then Inl (mk_error ConcurrencyError (Some ''OneTimeToken version conflict''))
              else Inr (t\<lparr>o_version := Some (v + 1)\<rparr>, d')))"

definition ott_delete :: "ott \<Rightarrow> database \<Rightarrow> exn + database" where
  "ott_delete t d =
    (case delete_ott (o_id t) (o_version t) d of
       (n, d') \<Rightarrow>
         if n \<noteq> 1 then Inl (mk_error ConcurrencyError (Some ''OneTimeToken version conflict on delete''))
         else Inr d')"

section \<open>\<open>RefreshTokenRepository\<close>\<close>

text \<open>The tables have no columns for \<open>location\<close>, \<open>client_ip\<close> and \<open>user_agent\<close>.\<close>

definition rt_orm2domain :: "rt_row \<Rightarrow> rtoken" where
  "rt_orm2domain r =
    \<lparr>r_id = rtr_id r, r_user_id = rtr_user_id r, r_token_hash = rtr_token_hash r,
     r_expires_at = rtr_expires_at r, r_created_at = rtr_created_at r,
     r_revoked_at = rtr_revoked_at r, r_replaced_by_id = rtr_replaced_by_id r,
     r_location = None, r_client_ip = None, r_user_agent = None,
     r_events = [], r_version = Some (rtr_version r)\<rparr>"

definition rt_domain2orm :: "rtoken \<Rightarrow> rt_row" where
  "rt_domain2orm t =
    \<lparr>rtr_id = r_id t, rtr_token_hash = r_token_hash t, rtr_user_id = r_user_id t,
     rtr_expires_at = r_expires_at t,
     rtr_version = (case r_version t of None \<Rightarrow> 0 | Some v \<Rightarrow> v),
     rtr_revoked_at = r_revoked_at t, rtr_replaced_by_id = r_replaced_by_id t,
     rtr_created_at = r_created_at t\<rparr>"

definition rt_get_by_string :: "string \<Rightarrow> database \<Rightarrow> exn + rtoken option" where
  "rt_get_by_string token d =
    map_sum id (map_option rt_orm2domain)
      (scalar_one_or_none (filter (\<lambda>r. rtr_token_hash r = hash_token token) (refresh_tokens d)))"

definition rt_get_all_by_user :: "uuid \<Rightarrow> database \<Rightarrow> rtoken list" where
  "rt_get_all_by_user i d = map rt_orm2domain (filter (\<lambda>r. rtr_user_id r = i) (refresh_tokens d))"

definition rt_save :: "rtoken \<Rightarrow> database \<Rightarrow> exn + (rtoken \<times> database)" where
  "rt_save t d =
    (case r_version t of
       None \<Rightarrow>
         (case insert_rt ((rt_domain2orm t)\<lparr>rtr_version := 1\<rparr>) d of
            Inl e \<Rightarrow> Inl e
          | Inr d' \<Rightarrow> Inr (t\<lparr>r_version := Some 1\<rparr>, d'))
     | Some v \<Rightarrow>
         (case update_rt (r_id t) v
             (\<lambda>r. r\<lparr>rtr_user_id := r_user_id t, rtr_token_hash := r_token_hash t,
                    rtr_expires_at := r_expires_at t, rtr_revoked_at := r_revoked_at t,
                    rtr_replaced_by_id := r_replaced_by_id t, rtr_created_at := r_created_at t,
                    rtr_version := v + 1\<rparr>) d of
            Inl e \<Rightarrow> Inl e
          | Inr (n, d') \<Rightarrow>
              if n \<noteq> 1 then Inl (mk_error ConcurrencyError (Some ''RefreshToken version conflict''))
              else Inr (t\<lparr>r_version := Some (v + 1)\<rparr>, d')))"

definition rt_delete :: "rtoken \<Rightarrow> database \<Rightarrow> exn + database" where
  "rt_delete t d =
    (case delete_rt (r_id t) (r_version t) d of
       (n, d') \<Rightarrow>
         if n \<noteq> 1 then Inl (mk_error ConcurrencyError (Some ''RefreshToken version conflict on delete''))
         else Inr d')"

section \<open>What the repositories keep\<close>

text \<open>
  Beyond the constraints of the schema: every stored purpose is a value of the enum, and
  versions start at 1.
\<close>

definition db_inv :: "database \<Rightarrow> bool" where
  "db_inv d \<longleftrightarrow> db_wf d
    \<and> (\<forall>r \<in> set (one_time_tokens d). purpose_of (otr_purpose r) \<noteq> None)
    \<and> (\<forall>r \<in> set (users d). 1 \<le> ur_version r)
    \<and> (\<forall>r \<in> set (one_time_tokens d). 1 \<le> otr_version r)
    \<and> (\<forall>r \<in> set (refresh_tokens d). 1 \<le> rtr_version r)"

lemma db_inv_wf: "db_inv d \<Longrightarrow> db_wf d"
  by (simp add: db_inv_def)

lemma db_inv_empty [simp]: "db_inv empty_database"
  by (simp add: db_inv_def) (simp add: empty_database_def)

lemma purpose_of_value [simp]: "purpose_of (purpose_value p) = Some p"
  by (cases p) (simp_all add: purpose_of_def)

lemma user_save_inv: "db_inv d \<Longrightarrow> user_save u d = Inr (u', d') \<Longrightarrow> db_inv d'"
proof (cases "u_version u")
  case None
  assume d: "db_inv d" and s: "user_save u d = Inr (u', d')"
  from s None have i: "insert_user ((user_domain2orm u)\<lparr>ur_version := 1\<rparr>) d = Inr d'"
    by (auto simp: user_save_def split: sum.splits)
  then have "db_wf d'" using insert_user_wf d by (auto simp: db_inv_def)
  with i d show ?thesis by (auto simp: db_inv_def insert_user_def split: if_splits)
next
  case (Some v)
  assume d: "db_inv d" and s: "user_save u d = Inr (u', d')"
  let ?f = "\<lambda>r. r\<lparr>ur_email := u_email u, ur_password_hash := u_password_hash u,
    ur_active := u_active u, ur_is_email_verified := u_is_email_verified u,
    ur_created_at := u_created_at u, ur_version := v + 1\<rparr>"
  from s Some obtain n where i: "update_user (u_id u) v ?f d = Inr (n, d')"
    by (auto simp: user_save_def split: sum.splits if_splits)
  then have "db_wf d'" using update_user_wf [OF _ i] d by (auto simp: db_inv_def)
  with i d show ?thesis
    by (auto simp: db_inv_def update_user_def Let_def set_update_where add_increasing split: if_splits; force)
qed

lemma ott_save_inv: "db_inv d \<Longrightarrow> ott_save t d = Inr (t', d') \<Longrightarrow> db_inv d'"
proof (cases "o_version t")
  case None
  assume d: "db_inv d" and s: "ott_save t d = Inr (t', d')"
  from s None have i: "insert_ott ((ott_domain2orm t)\<lparr>otr_version := 1\<rparr>) d = Inr d'"
    by (auto simp: ott_save_def split: sum.splits)
  then have "db_wf d'" using insert_ott_wf d by (auto simp: db_inv_def)
  with i d show ?thesis by (auto simp: db_inv_def insert_ott_def ott_domain2orm_def split: if_splits)
next
  case (Some v)
  assume d: "db_inv d" and s: "ott_save t d = Inr (t', d')"
  let ?f = "\<lambda>r. r\<lparr>otr_token_hash := o_token_hash t, otr_user_id := o_user_id t,
    otr_expires_at := o_expires_at t, otr_used := o_used t, otr_version := v + 1\<rparr>"
  from s Some obtain n where i: "update_ott (o_id t) v ?f d = Inr (n, d')"
    by (auto simp: ott_save_def split: sum.splits if_splits)
  then have "db_wf d'" using update_ott_wf [OF _ i] d by (auto simp: db_inv_def)
  with i d show ?thesis
    by (auto simp: db_inv_def update_ott_def Let_def set_update_where add_increasing split: if_splits; force)
qed

lemma rt_save_inv: "db_inv d \<Longrightarrow> rt_save t d = Inr (t', d') \<Longrightarrow> db_inv d'"
proof (cases "r_version t")
  case None
  assume d: "db_inv d" and s: "rt_save t d = Inr (t', d')"
  from s None have i: "insert_rt ((rt_domain2orm t)\<lparr>rtr_version := 1\<rparr>) d = Inr d'"
    by (auto simp: rt_save_def split: sum.splits)
  then have "db_wf d'" using insert_rt_wf d by (auto simp: db_inv_def)
  with i d show ?thesis by (auto simp: db_inv_def insert_rt_def split: if_splits)
next
  case (Some v)
  assume d: "db_inv d" and s: "rt_save t d = Inr (t', d')"
  let ?f = "\<lambda>r. r\<lparr>rtr_user_id := r_user_id t, rtr_token_hash := r_token_hash t,
    rtr_expires_at := r_expires_at t, rtr_revoked_at := r_revoked_at t,
    rtr_replaced_by_id := r_replaced_by_id t, rtr_created_at := r_created_at t, rtr_version := v + 1\<rparr>"
  from s Some obtain n where i: "update_rt (r_id t) v ?f d = Inr (n, d')"
    by (auto simp: rt_save_def split: sum.splits if_splits)
  then have "db_wf d'" using update_rt_wf [OF _ i] d by (auto simp: db_inv_def)
  with i d show ?thesis
    by (auto simp: db_inv_def update_rt_def Let_def set_update_where add_increasing split: if_splits; force)
qed

lemma user_delete_inv: "db_inv d \<Longrightarrow> user_delete u d = Inr d' \<Longrightarrow> db_inv d'"
  using delete_user_wf [of d "u_id u" "u_version u"]
  by (auto simp: db_inv_def user_delete_def delete_user_def Let_def delete_where_def split: if_splits prod.splits)

lemma ott_delete_inv: "db_inv d \<Longrightarrow> ott_delete t d = Inr d' \<Longrightarrow> db_inv d'"
  using delete_ott_wf [of d "o_id t" "o_version t"]
  by (auto simp: db_inv_def ott_delete_def delete_ott_def Let_def delete_where_def split: if_splits prod.splits)

lemma rt_delete_inv: "db_inv d \<Longrightarrow> rt_delete t d = Inr d' \<Longrightarrow> db_inv d'"
  using delete_rt_wf [of d "r_id t" "r_version t"]
  by (auto simp: db_inv_def rt_delete_def delete_rt_def Let_def delete_where_def split: if_splits prod.splits)

end
