(* ===== verification/RepositoryContract.thy ===== *)
theory RepositoryContract
  imports Repositories
begin

text \<open>
  The contract of the repository ports (\<^verbatim>\<open>app/core/ports/repositories.py\<close>) that the three
  SQLAlchemy repositories share: optimistic concurrency on a version number. The locale
  \<open>repository\<close> states it over the entities stored by key; its lemmas are what the use cases
  rest on. The three interpretations prove it of the repositories of the code.
\<close>

section \<open>The contract\<close>

locale repository =
  fixes save :: "'e \<Rightarrow> 'd \<Rightarrow> exn + ('e \<times> 'd)"
    and delete :: "'e \<Rightarrow> 'd \<Rightarrow> exn + 'd"
    and lookup :: "'d \<Rightarrow> uuid \<Rightarrow> 'e option"
    and key :: "'e \<Rightarrow> uuid"
    and ver :: "'e \<Rightarrow> int option"
    and content :: "'e \<Rightarrow> 'c"
    and inv :: "'d \<Rightarrow> bool"
  assumes save_inv: "inv d \<Longrightarrow> save e d = Inr (e', d') \<Longrightarrow> inv d'"
    and save_key: "save e d = Inr (e', d') \<Longrightarrow> key e' = key e"
    and save_ver: "save e d = Inr (e', d') \<Longrightarrow> ver e' = Some (case ver e of None \<Rightarrow> 1 | Some v \<Rightarrow> v + 1)"
    and save_base: "inv d \<Longrightarrow> save e d = Inr (e', d') \<Longrightarrow>
      (case ver e of None \<Rightarrow> lookup d (key e) = None
         | Some v \<Rightarrow> \<exists>s. lookup d (key e) = Some s \<and> ver s = Some v)"
    and save_stored: "inv d \<Longrightarrow> save e d = Inr (e', d') \<Longrightarrow>
      \<exists>s. lookup d' (key e) = Some s \<and> ver s = ver e' \<and> content s = content e"
    and save_other: "inv d \<Longrightarrow> save e d = Inr (e', d') \<Longrightarrow> i \<noteq> key e \<Longrightarrow> lookup d' i = lookup d i"
    and lookup_key: "inv d \<Longrightarrow> lookup d i = Some s \<Longrightarrow> key s = i \<and> ver s \<noteq> None"
    and delete_base: "inv d \<Longrightarrow> delete e d = Inr d' \<Longrightarrow>
      \<exists>s v. lookup d (key e) = Some s \<and> ver e = Some v \<and> ver s = Some v"
    and delete_inv: "inv d \<Longrightarrow> delete e d = Inr d' \<Longrightarrow> inv d'"
    and delete_lookup: "inv d \<Longrightarrow> delete e d = Inr d' \<Longrightarrow> lookup d' = (lookup d)(key e := None)"
begin

text \<open>An entity whose version is not the stored one cannot be saved or deleted.\<close>

lemma stale_save_fails:
  assumes "inv d" and "lookup d (key e) = Some s" and "ver s \<noteq> ver e"
  shows "\<exists>x. save e d = Inl x"
proof (cases "save e d")
  case (Inr p)
  then show ?thesis using save_base [OF assms(1), of e "fst p" "snd p"] assms(2,3) by (auto split: option.splits)
qed blast

lemma stale_delete_fails:
  assumes "inv d" and "lookup d (key e) = Some s" and "ver s \<noteq> ver e"
  shows "\<exists>x. delete e d = Inl x"
proof (cases "delete e d")
  case (Inr d')
  then show ?thesis using delete_base [OF assms(1), of e d'] assms(2,3) by auto
qed blast

text \<open>No lost update: of two saves on the same base version the second fails.\<close>

lemma second_save_fails:
  assumes "inv d" and "save e d = Inr (e', d')" and "key f = key e" and "ver f = ver e"
  shows "\<exists>x. save f d' = Inl x"
proof -
  from save_stored [OF assms(1,2)] obtain s where "lookup d' (key e) = Some s" "ver s = ver e'" by blast
  moreover have "ver e' \<noteq> ver e" using save_ver [OF assms(2)] by (auto split: option.splits)
  ultimately show ?thesis using stale_save_fails [of d' f s] save_inv [OF assms(1,2)] assms(3,4) by simp
qed

text \<open>The entity that a save returns is current: it can be loaded with its content and version.\<close>

lemma save_current:
  assumes "inv d" and "save e d = Inr (e', d')"
  obtains s where "lookup d' (key e') = Some s" and "ver s = ver e'" and "content s = content e"
  using save_stored [OF assms] save_key [OF assms(2)] by auto

text \<open>A save never lowers the stored version of any key.\<close>

lemma save_monotone:
  assumes "inv d" and "save e d = Inr (e', d')" and "lookup d i = Some s" and "ver s = Some v"
  shows "\<exists>s' v'. lookup d' i = Some s' \<and> ver s' = Some v' \<and> v \<le> v' \<and> (i = key e \<longrightarrow> v' = v + 1)"
proof (cases "i = key e")
  case True
  then have "ver e = Some v" using save_base [OF assms(1,2)] assms(3,4) by (auto split: option.splits)
  with save_stored [OF assms(1,2)] save_ver [OF assms(2)] True show ?thesis by auto
next
  case False
  then show ?thesis using save_other [OF assms(1,2) False] assms(3,4) by simp
qed

end

section \<open>The entities by key\<close>

definition user_lookup :: "database \<Rightarrow> uuid \<Rightarrow> user option" where
  "user_lookup d i = map_option user_orm2domain (table_map ur_id (users d) i)"

definition ott_lookup :: "database \<Rightarrow> uuid \<Rightarrow> ott option" where
  "ott_lookup d i =
    (case table_map otr_id (one_time_tokens d) i of
       None \<Rightarrow> None
     | Some r \<Rightarrow> (case ott_orm2domain r of Inl e \<Rightarrow> None | Inr t \<Rightarrow> Some t))"

definition rt_lookup :: "database \<Rightarrow> uuid \<Rightarrow> rtoken option" where
  "rt_lookup d i = map_option rt_orm2domain (table_map rtr_id (refresh_tokens d) i)"

text \<open>What an update writes of an entity: everything but the key, the version and, for a one-time token, the purpose.\<close>

definition user_content :: "user \<Rightarrow> string \<times> string \<times> bool \<times> bool \<times> datetime" where
  "user_content u = (u_email u, u_password_hash u, u_active u, u_is_email_verified u, u_created_at u)"

definition ott_content :: "ott \<Rightarrow> string \<times> uuid \<times> datetime \<times> bool" where
  "ott_content t = (o_token_hash t, o_user_id t, o_expires_at t, o_used t)"

definition rt_content ::
  "rtoken \<Rightarrow> string \<times> uuid \<times> datetime \<times> datetime option \<times> uuid option \<times> datetime" where
  "rt_content t = (r_token_hash t, r_user_id t, r_expires_at t, r_revoked_at t, r_replaced_by_id t, r_created_at t)"

lemmas repository_defs =
  user_save_def user_delete_def user_orm2domain_def user_domain2orm_def user_lookup_def user_content_def
  ott_save_def ott_delete_def ott_orm2domain_def ott_domain2orm_def ott_lookup_def ott_content_def
  rt_save_def rt_delete_def rt_orm2domain_def rt_domain2orm_def rt_lookup_def rt_content_def

lemma db_inv_keys:
  assumes "db_inv d"
  shows "distinct (map ur_id (users d))" "distinct (map ur_email (users d))"
    "distinct (map otr_id (one_time_tokens d))" "distinct (map rtr_id (refresh_tokens d))"
  using assms by (auto simp: db_inv_def db_wf_def)

lemma db_inv_purpose:
  assumes "db_inv d" and "r \<in> set (one_time_tokens d)"
  obtains p where "purpose_of (otr_purpose r) = Some p"
  using assms unfolding db_inv_def by blast

subsection \<open>The table after a save\<close>

lemma user_save_table:
  assumes "db_inv d" and "user_save u d = Inr (u', d')"
  shows "u' = u\<lparr>u_version := Some (case u_version u of None \<Rightarrow> 1 | Some v \<Rightarrow> v + 1)\<rparr>
    \<and> (case u_version u of
         None \<Rightarrow> table_map ur_id (users d) (u_id u) = None
       | Some v \<Rightarrow> \<exists>r. table_map ur_id (users d) (u_id u) = Some r \<and> ur_version r = v)
    \<and> (\<exists>r. table_map ur_id (users d') = (table_map ur_id (users d))(u_id u \<mapsto> r)
         \<and> user_orm2domain r = u\<lparr>u_events := [], u_version := u_version u'\<rparr>)"
proof (cases "u_version u")
  case None
  with assms show ?thesis
    by (auto simp: repository_defs insert_user_def table_map_insert table_map_None split: sum.splits if_splits)
next
  case (Some v)
  let ?f = "\<lambda>r. r\<lparr>ur_email := u_email u, ur_password_hash := u_password_hash u,
    ur_active := u_active u, ur_is_email_verified := u_is_email_verified u,
    ur_created_at := u_created_at u, ur_version := v + 1\<rparr>"
  have u': "u' = u\<lparr>u_version := Some (v + 1)\<rparr>"
    and n: "rowcount (\<lambda>r. ur_id r = u_id u \<and> ur_version r = v) (users d) = 1"
    and t: "users d' = update_where (\<lambda>r. ur_id r = u_id u \<and> ur_version r = v) ?f (users d)"
    using assms(2) Some by (auto simp: user_save_def update_user_def Let_def split: sum.splits if_splits)
  from n obtain r where r: "table_map ur_id (users d) (u_id u) = Some r" "ur_version r = v"
    by (auto simp: rowcount_key [OF db_inv_keys(1) [OF assms(1)]] split: option.splits if_splits)
  with t have "table_map ur_id (users d') = (table_map ur_id (users d))(u_id u \<mapsto> ?f r)"
    by (simp add: table_map_update_where [OF db_inv_keys(1) [OF assms(1)]])
  moreover have "user_orm2domain (?f r) = u\<lparr>u_events := [], u_version := Some (v + 1)\<rparr>"
    using table_map_SomeD [OF r(1)] by (simp add: user_orm2domain_def)
  ultimately show ?thesis using Some r u' by auto
qed

lemma ott_save_table:
  assumes "db_inv d" and "ott_save t d = Inr (t', d')"
  shows "t' = t\<lparr>o_version := Some (case o_version t of None \<Rightarrow> 1 | Some v \<Rightarrow> v + 1)\<rparr>
    \<and> (case o_version t of
         None \<Rightarrow> table_map otr_id (one_time_tokens d) (o_id t) = None
       | Some v \<Rightarrow> \<exists>r. table_map otr_id (one_time_tokens d) (o_id t) = Some r \<and> otr_version r = v)
    \<and> (\<exists>r p. table_map otr_id (one_time_tokens d') = (table_map otr_id (one_time_tokens d))(o_id t \<mapsto> r)
         \<and> ott_orm2domain r = Inr (t'\<lparr>o_purpose := p\<rparr>)
         \<and> p = (case table_map otr_id (one_time_tokens d) (o_id t) of
                  None \<Rightarrow> o_purpose t | Some s \<Rightarrow> the (purpose_of (otr_purpose s))))"
proof (cases "o_version t")
  case None
  let ?r = "(ott_domain2orm t)\<lparr>otr_version := 1\<rparr>"
  from None assms(2) have i: "otr_id ?r \<notin> otr_id ` set (one_time_tokens d)"
    "one_time_tokens d' = one_time_tokens d @ [?r]" "t' = t\<lparr>o_version := Some 1\<rparr>"
    by (auto simp: ott_save_def insert_ott_def split: sum.splits if_splits)
  have k: "otr_id ?r = o_id t" by (simp add: ott_domain2orm_def)
  from i(1) have n: "table_map otr_id (one_time_tokens d) (o_id t) = None" by (simp add: table_map_None k)
  have "table_map otr_id (one_time_tokens d') = (table_map otr_id (one_time_tokens d))(o_id t \<mapsto> ?r)"
    using table_map_insert [OF i(1)] by (simp only: i(2) k)
  moreover have "ott_orm2domain ?r = Inr (t'\<lparr>o_purpose := o_purpose t\<rparr>)"
    by (simp add: ott_orm2domain_def ott_domain2orm_def i(3))
  ultimately show ?thesis using None n i(3) by auto
next
  case (Some v)
  let ?f = "\<lambda>r. r\<lparr>otr_token_hash := o_token_hash t, otr_user_id := o_user_id t,
    otr_expires_at := o_expires_at t, otr_used := o_used t, otr_version := v + 1\<rparr>"
  have u': "t' = t\<lparr>o_version := Some (v + 1)\<rparr>"
    and n: "rowcount (\<lambda>r. otr_id r = o_id t \<and> otr_version r = v) (one_time_tokens d) = 1"
    and t: "one_time_tokens d' = update_where (\<lambda>r. otr_id r = o_id t \<and> otr_version r = v) ?f (one_time_tokens d)"
    using assms(2) Some by (auto simp: ott_save_def update_ott_def Let_def split: sum.splits if_splits)
  from n obtain r where r: "table_map otr_id (one_time_tokens d) (o_id t) = Some r" "otr_version r = v"
    by (auto simp: rowcount_key [OF db_inv_keys(3) [OF assms(1)]] split: option.splits if_splits)
  with t have "table_map otr_id (one_time_tokens d') = (table_map otr_id (one_time_tokens d))(o_id t \<mapsto> ?f r)"
    by (simp add: table_map_update_where [OF db_inv_keys(3) [OF assms(1)]])
  moreover have rs: "r \<in> set (one_time_tokens d)" "otr_id r = o_id t" using table_map_SomeD [OF r(1)] by auto
  moreover obtain p where "purpose_of (otr_purpose r) = Some p" using rs assms(1) by (auto simp: db_inv_def)
  moreover have "ott_orm2domain (?f r) = Inr (t'\<lparr>o_purpose := the (purpose_of (otr_purpose r))\<rparr>)"
    using calculation u' by (simp add: ott_orm2domain_def)
  ultimately show ?thesis using Some r u' by (intro conjI) auto
qed

lemma rt_save_table:
  assumes "db_inv d" and "rt_save t d = Inr (t', d')"
  shows "t' = t\<lparr>r_version := Some (case r_version t of None \<Rightarrow> 1 | Some v \<Rightarrow> v + 1)\<rparr>
    \<and> (case r_version t of
         None \<Rightarrow> table_map rtr_id (refresh_tokens d) (r_id t) = None
       | Some v \<Rightarrow> \<exists>r. table_map rtr_id (refresh_tokens d) (r_id t) = Some r \<and> rtr_version r = v)
    \<and> (\<exists>r. table_map rtr_id (refresh_tokens d') = (table_map rtr_id (refresh_tokens d))(r_id t \<mapsto> r)
         \<and> rt_orm2domain r = t\<lparr>r_location := None, r_client_ip := None, r_user_agent := None,
             r_events := [], r_version := r_version t'\<rparr>)"
proof (cases "r_version t")
  case None
  with assms show ?thesis
    by (auto simp: repository_defs insert_rt_def table_map_insert table_map_None split: sum.splits if_splits)
next
  case (Some v)
  let ?f = "\<lambda>r. r\<lparr>rtr_user_id := r_user_id t, rtr_token_hash := r_token_hash t,
    rtr_expires_at := r_expires_at t, rtr_revoked_at := r_revoked_at t,
    rtr_replaced_by_id := r_replaced_by_id t, rtr_created_at := r_created_at t, rtr_version := v + 1\<rparr>"
  have u': "t' = t\<lparr>r_version := Some (v + 1)\<rparr>"
    and n: "rowcount (\<lambda>r. rtr_id r = r_id t \<and> rtr_version r = v) (refresh_tokens d) = 1"
    and t: "refresh_tokens d' = update_where (\<lambda>r. rtr_id r = r_id t \<and> rtr_version r = v) ?f (refresh_tokens d)"
    using assms(2) Some by (auto simp: rt_save_def update_rt_def Let_def split: sum.splits if_splits)
  from n obtain r where r: "table_map rtr_id (refresh_tokens d) (r_id t) = Some r" "rtr_version r = v"
    by (auto simp: rowcount_key [OF db_inv_keys(4) [OF assms(1)]] split: option.splits if_splits)
  with t have "table_map rtr_id (refresh_tokens d') = (table_map rtr_id (refresh_tokens d))(r_id t \<mapsto> ?f r)"
    by (simp add: table_map_update_where [OF db_inv_keys(4) [OF assms(1)]])
  moreover have "rt_orm2domain (?f r) = t\<lparr>r_location := None, r_client_ip := None, r_user_agent := None,
      r_events := [], r_version := Some (v + 1)\<rparr>"
    using table_map_SomeD [OF r(1)] by (simp add: rt_orm2domain_def)
  ultimately show ?thesis using Some r u' by auto
qed

subsection \<open>The repositories keep the contract\<close>

interpretation user_repo: repository user_save user_delete user_lookup u_id u_version user_content db_inv
proof unfold_locales
  fix u u' :: user and d d' :: database
  assume d: "db_inv d" and s: "user_save u d = Inr (u', d')"
  note t = user_save_table [OF d s]
  show "db_inv d'" using user_save_inv [OF d s] .
  show "case u_version u of None \<Rightarrow> user_lookup d (u_id u) = None
    | Some v \<Rightarrow> \<exists>s. user_lookup d (u_id u) = Some s \<and> u_version s = Some v"
    using t by (auto simp: user_lookup_def user_orm2domain_def split: option.splits)
  show "\<exists>s. user_lookup d' (u_id u) = Some s \<and> u_version s = u_version u' \<and> user_content s = user_content u"
    using t by (auto simp: user_lookup_def user_content_def)
  show "user_lookup d' i = user_lookup d i" if "i \<noteq> u_id u" for i
    using t that by (auto simp: user_lookup_def)
next
  fix u u' :: user and d d' :: database
  assume s: "user_save u d = Inr (u', d')"
  show "u_id u' = u_id u" and "u_version u' = Some (case u_version u of None \<Rightarrow> 1 | Some v \<Rightarrow> v + 1)"
    using s by (auto simp: user_save_def split: option.splits sum.splits if_splits)
next
  fix d i s assume "db_inv d" and l: "user_lookup d i = Some s"
  show "u_id s = i \<and> u_version s \<noteq> None"
    using l by (auto simp: user_lookup_def user_orm2domain_def dest: table_map_SomeD)
next
  fix u d d' assume d: "db_inv d" and s: "user_delete u d = Inr d'"
  note k = db_inv_keys(1) [OF d]
  show "db_inv d'" using user_delete_inv [OF d s] .
  have n: "rowcount (\<lambda>r. ur_id r = u_id u \<and> Some (ur_version r) = u_version u) (users d) = 1"
    and t: "users d' = delete_where (\<lambda>r. ur_id r = u_id u \<and> Some (ur_version r) = u_version u) (users d)"
    using s by (auto simp: user_delete_def delete_user_def Let_def split: if_splits)
  from n obtain r where r: "table_map ur_id (users d) (u_id u) = Some r" "Some (ur_version r) = u_version u"
    by (auto simp: rowcount_key [OF k] split: option.splits if_splits)
  show "\<exists>s v. user_lookup d (u_id u) = Some s \<and> u_version u = Some v \<and> u_version s = Some v"
    using r(1) r(2) [symmetric] by (auto simp: user_lookup_def user_orm2domain_def)
  show "user_lookup d' = (user_lookup d)(u_id u := None)"
    using r by (auto simp: user_lookup_def t table_map_delete_where [OF k])
qed

interpretation ott_repo: repository ott_save ott_delete ott_lookup o_id o_version ott_content db_inv
proof unfold_locales
  fix u u' :: ott and d d' :: database
  assume d: "db_inv d" and s: "ott_save u d = Inr (u', d')"
  note t = ott_save_table [OF d s]
  show "db_inv d'" using ott_save_inv [OF d s] .
  have "\<exists>s. ott_orm2domain r = Inr s \<and> o_version s = Some (otr_version r)"
    if "table_map otr_id (one_time_tokens d) i = Some r" for i r
    using table_map_SomeD [OF that] d by (auto simp: db_inv_def ott_orm2domain_def)
  then show "case o_version u of None \<Rightarrow> ott_lookup d (o_id u) = None
    | Some v \<Rightarrow> \<exists>s. ott_lookup d (o_id u) = Some s \<and> o_version s = Some v"
    using t by (fastforce simp: ott_lookup_def split: option.splits)
  show "\<exists>s. ott_lookup d' (o_id u) = Some s \<and> o_version s = o_version u' \<and> ott_content s = ott_content u"
    using t by (auto simp: ott_lookup_def ott_content_def)
  show "ott_lookup d' i = ott_lookup d i" if "i \<noteq> o_id u" for i
    using t that by (auto simp: ott_lookup_def)
next
  fix u u' :: ott and d d' :: database
  assume s: "ott_save u d = Inr (u', d')"
  show "o_id u' = o_id u" and "o_version u' = Some (case o_version u of None \<Rightarrow> 1 | Some v \<Rightarrow> v + 1)"
    using s by (auto simp: ott_save_def split: option.splits sum.splits if_splits)
next
  fix d i s assume "db_inv d" and l: "ott_lookup d i = Some s"
  show "o_id s = i \<and> o_version s \<noteq> None"
    using l by (auto simp: ott_lookup_def ott_orm2domain_def dest: table_map_SomeD split: option.splits sum.splits)
next
  fix u d d' assume d: "db_inv d" and s: "ott_delete u d = Inr d'"
  note k = db_inv_keys(3) [OF d]
  show "db_inv d'" using ott_delete_inv [OF d s] .
  have n: "rowcount (\<lambda>r. otr_id r = o_id u \<and> Some (otr_version r) = o_version u) (one_time_tokens d) = 1"
    and t: "one_time_tokens d' =
      delete_where (\<lambda>r. otr_id r = o_id u \<and> Some (otr_version r) = o_version u) (one_time_tokens d)"
    using s by (auto simp: ott_delete_def delete_ott_def Let_def split: if_splits)
  from n obtain r where r: "table_map otr_id (one_time_tokens d) (o_id u) = Some r" "Some (otr_version r) = o_version u"
    by (auto simp: rowcount_key [OF k] split: option.splits if_splits)
  then obtain p where "purpose_of (otr_purpose r) = Some p"
    using table_map_SomeD [OF r(1)] d by (auto simp: db_inv_def)
  then show "\<exists>s v. ott_lookup d (o_id u) = Some s \<and> o_version u = Some v \<and> o_version s = Some v"
    using r(1) r(2) [symmetric] by (auto simp: ott_lookup_def ott_orm2domain_def)
  show "ott_lookup d' = (ott_lookup d)(o_id u := None)"
    using r by (auto simp: ott_lookup_def t table_map_delete_where [OF k])
qed

interpretation rt_repo: repository rt_save rt_delete rt_lookup r_id r_version rt_content db_inv
proof unfold_locales
  fix u u' :: rtoken and d d' :: database
  assume d: "db_inv d" and s: "rt_save u d = Inr (u', d')"
  note t = rt_save_table [OF d s]
  show "db_inv d'" using rt_save_inv [OF d s] .
  show "case r_version u of None \<Rightarrow> rt_lookup d (r_id u) = None
    | Some v \<Rightarrow> \<exists>s. rt_lookup d (r_id u) = Some s \<and> r_version s = Some v"
    using t by (auto simp: rt_lookup_def rt_orm2domain_def split: option.splits)
  show "\<exists>s. rt_lookup d' (r_id u) = Some s \<and> r_version s = r_version u' \<and> rt_content s = rt_content u"
    using t by (auto simp: rt_lookup_def rt_content_def)
  show "rt_lookup d' i = rt_lookup d i" if "i \<noteq> r_id u" for i
    using t that by (auto simp: rt_lookup_def)
next
  fix u u' :: rtoken and d d' :: database
  assume s: "rt_save u d = Inr (u', d')"
  show "r_id u' = r_id u" and "r_version u' = Some (case r_version u of None \<Rightarrow> 1 | Some v \<Rightarrow> v + 1)"
    using s by (auto simp: rt_save_def split: option.splits sum.splits if_splits)
next
  fix d i s assume "db_inv d" and l: "rt_lookup d i = Some s"
  show "r_id s = i \<and> r_version s \<noteq> None"
    using l by (auto simp: rt_lookup_def rt_orm2domain_def dest: table_map_SomeD)
next
  fix u d d' assume d: "db_inv d" and s: "rt_delete u d = Inr d'"
  note k = db_inv_keys(4) [OF d]
  show "db_inv d'" using rt_delete_inv [OF d s] .
  have n: "rowcount (\<lambda>r. rtr_id r = r_id u \<and> Some (rtr_version r) = r_version u) (refresh_tokens d) = 1"
    and t: "refresh_tokens d' =
      delete_where (\<lambda>r. rtr_id r = r_id u \<and> Some (rtr_version r) = r_version u) (refresh_tokens d)"
    using s by (auto simp: rt_delete_def delete_rt_def Let_def split: if_splits)
  from n obtain r where r: "table_map rtr_id (refresh_tokens d) (r_id u) = Some r" "Some (rtr_version r) = r_version u"
    by (auto simp: rowcount_key [OF k] split: option.splits if_splits)
  show "\<exists>s v. rt_lookup d (r_id u) = Some s \<and> r_version u = Some v \<and> r_version s = Some v"
    using r(1) r(2) [symmetric] by (auto simp: rt_lookup_def rt_orm2domain_def)
  show "rt_lookup d' = (rt_lookup d)(r_id u := None)"
    using r by (auto simp: rt_lookup_def t table_map_delete_where [OF k])
qed

section \<open>Reading and writing, exactly\<close>

lemma user_get_by_id_eq: "db_inv d \<Longrightarrow> user_get_by_id i d = Inr (user_lookup d i)"
  by (simp add: user_get_by_id_def user_lookup_def db_inv_keys)

lemma user_get_by_email_eq:
  "db_inv d \<Longrightarrow> user_get_by_email (PyStr m) d = Inr (map_option user_orm2domain (table_map ur_email (users d) m))"
  by (simp add: user_get_by_email_def db_inv_keys)

lemma user_get_by_email_Some:
  assumes "db_inv d" and "user_get_by_email v d = Inr (Some u)"
  shows "v = PyStr (u_email u) \<and> user_lookup d (u_id u) = Some u"
proof -
  from assms(2) obtain m where v: "v = PyStr m"
    by (cases v) (auto simp: user_get_by_email_def)
  with assms obtain r where r: "table_map ur_email (users d) m = Some r" "u = user_orm2domain r"
    by (auto simp: user_get_by_email_eq)
  from table_map_SomeD [OF r(1)] table_map_SomeI [OF db_inv_keys(1) [OF assms(1)]] r(2) v
  show ?thesis by (auto simp: user_lookup_def user_orm2domain_def)
qed

lemma ott_get_by_string_Some:
  assumes "db_inv d" and "ott_get_by_string v d = Inr (Some t)"
  shows "\<exists>s. v = PyStr s \<and> o_token_hash t = hash_token s \<and> ott_lookup d (o_id t) = Some t"
proof -
  from assms(2) obtain s where v: "v = PyStr s"
    by (cases v) (auto simp: ott_get_by_string_def)
  with assms(2) obtain r where f: "filter (\<lambda>r. otr_token_hash r = hash_token s) (one_time_tokens d) = [r]"
    and t: "ott_orm2domain r = Inr t"
    by (auto simp: ott_get_by_string_def scalar_one_or_none_Inr split: sum.splits option.splits)
  from f have "r \<in> set (filter (\<lambda>r. otr_token_hash r = hash_token s) (one_time_tokens d))" by simp
  then have "r \<in> set (one_time_tokens d)" "otr_token_hash r = hash_token s" by auto
  with t v table_map_SomeI [OF db_inv_keys(3) [OF assms(1)]]
  show ?thesis by (auto simp: ott_orm2domain_def ott_lookup_def split: option.splits)
qed

lemma rt_get_by_string_Some:
  assumes "db_inv d" and "rt_get_by_string s d = Inr (Some t)"
  shows "r_token_hash t = hash_token s \<and> rt_lookup d (r_id t) = Some t"
proof -
  from assms(2) obtain r where f: "filter (\<lambda>r. rtr_token_hash r = hash_token s) (refresh_tokens d) = [r]"
    and t: "t = rt_orm2domain r"
    by (auto simp: rt_get_by_string_def scalar_one_or_none_Inr map_sum_def split: sum.splits)
  from f have "r \<in> set (filter (\<lambda>r. rtr_token_hash r = hash_token s) (refresh_tokens d))" by simp
  then have "r \<in> set (refresh_tokens d)" "rtr_token_hash r = hash_token s" by auto
  with t table_map_SomeI [OF db_inv_keys(4) [OF assms(1)]]
  show ?thesis by (auto simp: rt_orm2domain_def rt_lookup_def)
qed

lemma singleton_list: "distinct xs \<Longrightarrow> set xs = {x} \<Longrightarrow> xs = [x]"
  by (cases xs; cases "tl xs") auto

text \<open>Conversely, what is stored is found: a user by its address, a one-time token by its text where no other has its hash.\<close>

lemma user_get_by_email_lookup:
  assumes "db_inv d" and "user_lookup d i = Some u"
  shows "user_get_by_email (PyStr (u_email u)) d = Inr (Some u)"
proof -
  from assms(2) obtain r where r: "table_map ur_id (users d) i = Some r" and u: "u = user_orm2domain r"
    by (auto simp: user_lookup_def)
  from table_map_SomeI [OF db_inv_keys(2) [OF assms(1)] conjunct1 [OF table_map_SomeD [OF r]]]
  show ?thesis using u by (simp add: user_get_by_email_eq [OF assms(1)] user_orm2domain_def)
qed

lemma ott_get_by_string_lookup:
  assumes "db_inv d" and "ott_lookup d i = Some t" and "o_token_hash t = hash_token s"
    and "\<And>k t'. ott_lookup d k = Some t' \<Longrightarrow> o_token_hash t' = hash_token s \<Longrightarrow> k = i"
  shows "ott_get_by_string (PyStr s) d = Inr (Some t)"
proof -
  from assms(2) obtain r where r: "table_map otr_id (one_time_tokens d) i = Some r" and t: "ott_orm2domain r = Inr t"
    by (auto simp: ott_lookup_def split: option.splits sum.splits)
  note rs = table_map_SomeD [OF r]
  have h: "otr_token_hash r = hash_token s"
    using t assms(3) by (auto simp: ott_orm2domain_def split: option.splits)
  have q: "q = r" if q: "q \<in> set (one_time_tokens d)" "otr_token_hash q = hash_token s" for q
  proof -
    obtain p where "purpose_of (otr_purpose q) = Some p" using db_inv_purpose [OF assms(1) q(1)] .
    then have "\<exists>t'. ott_lookup d (otr_id q) = Some t' \<and> o_token_hash t' = hash_token s"
      using table_map_SomeI [OF db_inv_keys(3) [OF assms(1)] q(1)] q(2)
      by (simp add: ott_lookup_def ott_orm2domain_def)
    with assms(4) have "otr_id q = i" by blast
    with table_map_SomeI [OF db_inv_keys(3) [OF assms(1)] q(1)] r show "q = r" by simp
  qed
  have "distinct (one_time_tokens d)" using db_inv_keys(3) [OF assms(1)] distinct_map by blast
  then have "distinct (filter (\<lambda>r. otr_token_hash r = hash_token s) (one_time_tokens d))" by simp
  moreover have "set (filter (\<lambda>r. otr_token_hash r = hash_token s) (one_time_tokens d)) = {r}"
    using rs h q by auto
  ultimately have "filter (\<lambda>r. otr_token_hash r = hash_token s) (one_time_tokens d) = [r]"
    by (rule singleton_list)
  then show ?thesis using t by (simp add: ott_get_by_string_def scalar_one_or_none_def)
qed

lemma rt_get_by_string_lookup:
  assumes "db_inv d" and "rt_lookup d i = Some t" and "r_token_hash t = hash_token s"
    and "\<And>k t'. rt_lookup d k = Some t' \<Longrightarrow> r_token_hash t' = hash_token s \<Longrightarrow> k = i"
  shows "rt_get_by_string s d = Inr (Some t)"
proof -
  from assms(2) obtain r where r: "table_map rtr_id (refresh_tokens d) i = Some r" and t: "t = rt_orm2domain r"
    by (auto simp: rt_lookup_def)
  note rs = table_map_SomeD [OF r]
  have h: "rtr_token_hash r = hash_token s" using t assms(3) by (simp add: rt_orm2domain_def)
  have q: "q = r" if q: "q \<in> set (refresh_tokens d)" "rtr_token_hash q = hash_token s" for q
  proof -
    have "rt_lookup d (rtr_id q) = Some (rt_orm2domain q)" "r_token_hash (rt_orm2domain q) = hash_token s"
      using table_map_SomeI [OF db_inv_keys(4) [OF assms(1)] q(1)] q(2) by (simp_all add: rt_lookup_def rt_orm2domain_def)
    with assms(4) have "rtr_id q = i" by blast
    with table_map_SomeI [OF db_inv_keys(4) [OF assms(1)] q(1)] r show "q = r" by simp
  qed
  have "distinct (refresh_tokens d)" using db_inv_keys(4) [OF assms(1)] distinct_map by blast
  then have "distinct (filter (\<lambda>r. rtr_token_hash r = hash_token s) (refresh_tokens d))" by simp
  moreover have "set (filter (\<lambda>r. rtr_token_hash r = hash_token s) (refresh_tokens d)) = {r}"
    using rs h q by auto
  ultimately have "filter (\<lambda>r. rtr_token_hash r = hash_token s) (refresh_tokens d) = [r]"
    by (rule singleton_list)
  then show ?thesis using t by (simp add: rt_get_by_string_def scalar_one_or_none_def)
qed

text \<open>A token found by its text is the only stored one with that hash.\<close>

lemma ott_get_by_string_unique:
  assumes "ott_get_by_string (PyStr s) d = Inr (Some t)" and "ott_lookup d k = Some t2" and "o_token_hash t2 = hash_token s"
  shows "t2 = t"
proof -
  from assms(1) obtain r where f: "filter (\<lambda>r. otr_token_hash r = hash_token s) (one_time_tokens d) = [r]"
    and t: "ott_orm2domain r = Inr t"
    by (auto simp: ott_get_by_string_def scalar_one_or_none_Inr split: sum.splits option.splits)
  from assms(2) obtain q where q: "table_map otr_id (one_time_tokens d) k = Some q" "ott_orm2domain q = Inr t2"
    by (auto simp: ott_lookup_def split: option.splits sum.splits)
  have "otr_token_hash q = hash_token s" using q(2) assms(3) by (auto simp: ott_orm2domain_def split: option.splits)
  then have "q \<in> set (filter (\<lambda>r. otr_token_hash r = hash_token s) (one_time_tokens d))"
    using table_map_SomeD [OF q(1)] by simp
  with f q(2) t show ?thesis by simp
qed

lemma rt_get_by_string_unique:
  assumes "rt_get_by_string s d = Inr (Some t)" and "rt_lookup d k = Some t2" and "r_token_hash t2 = hash_token s"
  shows "t2 = t"
proof -
  from assms(1) obtain r where f: "filter (\<lambda>r. rtr_token_hash r = hash_token s) (refresh_tokens d) = [r]"
    and t: "t = rt_orm2domain r"
    by (auto simp: rt_get_by_string_def scalar_one_or_none_Inr map_sum_def split: sum.splits)
  from assms(2) obtain q where q: "table_map rtr_id (refresh_tokens d) k = Some q" "t2 = rt_orm2domain q"
    by (auto simp: rt_lookup_def)
  have "rtr_token_hash q = hash_token s" using q(2) assms(3) by (simp add: rt_orm2domain_def)
  then have "q \<in> set (filter (\<lambda>r. rtr_token_hash r = hash_token s) (refresh_tokens d))"
    using table_map_SomeD [OF q(1)] by simp
  with f q(2) t show ?thesis by simp
qed

text \<open>A token loaded from the database has no client data, events or other transient parts.\<close>

lemma rt_lookup_Some:
  "rt_lookup d i = Some t \<Longrightarrow> r_client_ip t = None \<and> r_user_agent t = None \<and> r_location t = None \<and> r_events t = []"
  by (auto simp: rt_lookup_def rt_orm2domain_def)

lemma user_lookup_Some: "user_lookup d i = Some u \<Longrightarrow> u_events u = []"
  by (auto simp: user_lookup_def user_orm2domain_def)

text \<open>A save touches no other table.\<close>

lemma save_frame:
  "user_save u d = Inr (u', d') \<Longrightarrow> one_time_tokens d' = one_time_tokens d \<and> refresh_tokens d' = refresh_tokens d"
  "ott_save t d = Inr (t', d') \<Longrightarrow> users d' = users d \<and> refresh_tokens d' = refresh_tokens d"
  "rt_save x d = Inr (x', d') \<Longrightarrow> users d' = users d \<and> one_time_tokens d' = one_time_tokens d"
  by (auto simp: user_save_def insert_user_def update_user_def ott_save_def insert_ott_def update_ott_def
      rt_save_def insert_rt_def update_rt_def Let_def split: option.splits sum.splits if_splits)

lemma save_frame_lookup:
  "user_save u d = Inr (u', d') \<Longrightarrow> ott_lookup d' = ott_lookup d \<and> rt_lookup d' = rt_lookup d"
  "ott_save t d = Inr (t', d') \<Longrightarrow> user_lookup d' = user_lookup d \<and> rt_lookup d' = rt_lookup d"
  "rt_save x d = Inr (x', d') \<Longrightarrow> user_lookup d' = user_lookup d \<and> ott_lookup d' = ott_lookup d"
  by (drule save_frame, simp add: user_lookup_def ott_lookup_def rt_lookup_def fun_eq_iff)+

text \<open>What a save does to the three maps of stored entities.\<close>

definition user_stored :: "user \<Rightarrow> user" where
  "user_stored u = u\<lparr>u_events := [], u_version := Some (case u_version u of None \<Rightarrow> 1 | Some v \<Rightarrow> v + 1)\<rparr>"

definition ott_stored :: "ott \<Rightarrow> ott" where
  "ott_stored t = t\<lparr>o_version := Some (case o_version t of None \<Rightarrow> 1 | Some v \<Rightarrow> v + 1)\<rparr>"

definition rt_stored :: "rtoken \<Rightarrow> rtoken" where
  "rt_stored t = t\<lparr>r_location := None, r_client_ip := None, r_user_agent := None, r_events := [],
     r_version := Some (case r_version t of None \<Rightarrow> 1 | Some v \<Rightarrow> v + 1)\<rparr>"

lemma user_save_lookup:
  assumes "db_inv d" and "user_save u d = Inr (u', d')"
  shows "user_lookup d' = (user_lookup d)(u_id u \<mapsto> user_stored u)"
    and "ott_lookup d' = ott_lookup d" and "rt_lookup d' = rt_lookup d" and "db_inv d'"
    and "case u_version u of None \<Rightarrow> user_lookup d (u_id u) = None
      | Some v \<Rightarrow> \<exists>s. user_lookup d (u_id u) = Some s \<and> u_version s = Some v"
proof -
  show "user_lookup d' = (user_lookup d)(u_id u \<mapsto> user_stored u)"
    using user_save_table [OF assms] by (auto simp: user_lookup_def user_stored_def)
qed (use save_frame_lookup(1) [OF assms(2)] user_repo.save_inv [OF assms] user_repo.save_base [OF assms] in auto)

lemma ott_save_lookup:
  assumes "db_inv d" and "ott_save t d = Inr (t', d')"
    and "\<And>s. ott_lookup d (o_id t) = Some s \<Longrightarrow> o_purpose s = o_purpose t"
  shows "ott_lookup d' = (ott_lookup d)(o_id t \<mapsto> ott_stored t)"
    and "user_lookup d' = user_lookup d" and "rt_lookup d' = rt_lookup d" and "db_inv d'"
    and "case o_version t of None \<Rightarrow> ott_lookup d (o_id t) = None
      | Some v \<Rightarrow> \<exists>s. ott_lookup d (o_id t) = Some s \<and> o_version s = Some v"
proof -
  have "(case table_map otr_id (one_time_tokens d) (o_id t) of
      None \<Rightarrow> o_purpose t | Some s \<Rightarrow> the (purpose_of (otr_purpose s))) = o_purpose t"
  proof (cases "table_map otr_id (one_time_tokens d) (o_id t)")
    case (Some r)
    then obtain p where "purpose_of (otr_purpose r) = Some p"
      using db_inv_purpose [OF assms(1)] table_map_SomeD by metis
    then show ?thesis using assms(3) Some by (auto simp: ott_lookup_def ott_orm2domain_def)
  qed simp
  then show "ott_lookup d' = (ott_lookup d)(o_id t \<mapsto> ott_stored t)"
    using ott_save_table [OF assms(1,2)] by (auto simp: ott_lookup_def ott_stored_def)
qed (use save_frame_lookup(2) [OF assms(2)] ott_repo.save_inv [OF assms(1,2)] ott_repo.save_base [OF assms(1,2)] in auto)

lemma rt_save_lookup:
  assumes "db_inv d" and "rt_save t d = Inr (t', d')"
  shows "rt_lookup d' = (rt_lookup d)(r_id t \<mapsto> rt_stored t)"
    and "user_lookup d' = user_lookup d" and "ott_lookup d' = ott_lookup d" and "db_inv d'"
    and "case r_version t of None \<Rightarrow> rt_lookup d (r_id t) = None
      | Some v \<Rightarrow> \<exists>s. rt_lookup d (r_id t) = Some s \<and> r_version s = Some v"
proof -
  show "rt_lookup d' = (rt_lookup d)(r_id t \<mapsto> rt_stored t)"
    using rt_save_table [OF assms] by (auto simp: rt_lookup_def rt_stored_def)
qed (use save_frame_lookup(3) [OF assms(2)] rt_repo.save_inv [OF assms] rt_repo.save_base [OF assms] in auto)

text \<open>The errors of a save, by cause.\<close>

lemma stale_rowcount:
  assumes "\<And>r. r \<in> set t \<Longrightarrow> k r = i \<Longrightarrow> ver r \<noteq> v"
  shows "rowcount (\<lambda>r. k r = i \<and> ver r = v) t = 0"
    and "update_where (\<lambda>r. k r = i \<and> ver r = v) f t = t"
proof -
  have n: "\<not> (k r = i \<and> ver r = v)" if "r \<in> set t" for r using assms [OF that] by blast
  show "rowcount (\<lambda>r. k r = i \<and> ver r = v) t = 0"
    unfolding rowcount_def using n by (simp add: filter_empty_conv)
  show "update_where (\<lambda>r. k r = i \<and> ver r = v) f t = t"
    unfolding update_where_def by (rule map_idI) (simp only: n if_False)
qed

lemma user_save_stale:
  assumes "db_inv d" and "u_version u = Some v" and "int4 (v + 1)"
    and "\<And>s. user_lookup d (u_id u) = Some s \<Longrightarrow> u_version s \<noteq> Some v"
  shows "user_save u d = Inl (mk_error ConcurrencyError (Some ''User version conflict''))"
proof -
  have n: "ur_version r \<noteq> v" if "r \<in> set (users d)" "ur_id r = u_id u" for r
    using table_map_SomeI [OF db_inv_keys(1) [OF assms(1)] that(1)] that(2) assms(4)
    by (auto simp: user_lookup_def user_orm2domain_def)
  note z = stale_rowcount [of "users d" ur_id "u_id u" ur_version v, OF n]
  have "\<not> (\<exists>r \<in> set (users d). ur_id r = u_id u \<and> ur_version r = v)" using n by auto
  then show ?thesis using assms(2,3) z db_inv_keys(2) [OF assms(1)]
    by (auto simp: user_save_def update_user_def Let_def)
qed

lemma ott_save_stale:
  assumes "db_inv d" and "o_version t = Some v" and "int4 (v + 1)"
    and "\<And>s. ott_lookup d (o_id t) = Some s \<Longrightarrow> o_version s \<noteq> Some v"
  shows "ott_save t d = Inl (mk_error ConcurrencyError (Some ''OneTimeToken version conflict''))"
proof -
  have n: "otr_version r \<noteq> v" if "r \<in> set (one_time_tokens d)" "otr_id r = o_id t" for r
  proof -
    note m = that
    obtain p where "purpose_of (otr_purpose r) = Some p" using db_inv_purpose [OF assms(1) m(1)] .
    then show ?thesis
      using table_map_SomeI [OF db_inv_keys(3) [OF assms(1)] m(1)] m(2) assms(4)
      by (auto simp: ott_lookup_def ott_orm2domain_def)
  qed
  note z = stale_rowcount [of "one_time_tokens d" otr_id "o_id t" otr_version v, OF n]
  have "\<not> (\<exists>r \<in> set (one_time_tokens d). otr_id r = o_id t \<and> otr_version r = v)" using n by auto
  then show ?thesis using assms(2,3) z by (auto simp: ott_save_def update_ott_def Let_def)
qed

lemma rt_save_stale:
  assumes "db_inv d" and "r_version t = Some v" and "int4 (v + 1)"
    and "\<And>s. rt_lookup d (r_id t) = Some s \<Longrightarrow> r_version s \<noteq> Some v"
  shows "rt_save t d = Inl (mk_error ConcurrencyError (Some ''RefreshToken version conflict''))"
proof -
  have n: "rtr_version r \<noteq> v" if "r \<in> set (refresh_tokens d)" "rtr_id r = r_id t" for r
    using table_map_SomeI [OF db_inv_keys(4) [OF assms(1)] that(1)] that(2) assms(4)
    by (auto simp: rt_lookup_def rt_orm2domain_def)
  note z = stale_rowcount [of "refresh_tokens d" rtr_id "r_id t" rtr_version v, OF n]
  have "\<not> (\<exists>r \<in> set (refresh_tokens d). rtr_id r = r_id t \<and> rtr_version r = v)" using n by auto
  then show ?thesis using assms(2,3) z by (auto simp: rt_save_def update_rt_def Let_def)
qed

text \<open>
  Saving an entity whose version is the stored one succeeds, when the new version and the
  written texts fit their columns.
\<close>

lemma update_where_same_key:
  assumes "\<And>r. r \<in> set t \<Longrightarrow> P r \<Longrightarrow> g (f r) = g r"
  shows "map g (update_where P f t) = map g t"
  using assms by (simp add: update_where_def)

lemma user_save_current:
  assumes d: "db_inv d" and v: "u_version u = Some v" and l: "user_lookup d (u_id u) = Some s"
    and s: "u_version s = Some v" "u_email u = u_email s" "u_password_hash u = u_password_hash s" and i: "int4 (v + 1)"
  shows "\<exists>u' d'. user_save u d = Inr (u', d')"
proof -
  let ?P = "\<lambda>r. ur_id r = u_id u \<and> ur_version r = v"
  from l obtain r where r0: "table_map ur_id (users d) (u_id u) = Some r" and sr: "s = user_orm2domain r"
    by (auto simp: user_lookup_def)
  have r: "table_map ur_id (users d) (u_id u) = Some r" "ur_version r = v"
    "ur_email r = u_email u" "ur_password_hash r = u_password_hash u"
    using r0 s by (simp_all add: sr user_orm2domain_def)
  have u: "q = r" if "q \<in> set (users d)" "?P q" for q
    using table_map_SomeI [OF db_inv_keys(1) [OF d] that(1)] that(2) r(1) by simp
  have n: "rowcount ?P (users d) = 1"
    using r by (simp add: rowcount_key [OF db_inv_keys(1) [OF d]])
  have fits: "user_row_fits r" using d table_map_SomeD [OF r(1)] by (auto simp: db_inv_def db_wf_def)
  let ?f = "\<lambda>r. r\<lparr>ur_email := u_email u, ur_password_hash := u_password_hash u,
    ur_active := u_active u, ur_is_email_verified := u_is_email_verified u,
    ur_created_at := u_created_at u, ur_version := v + 1\<rparr>"
  have e: "map ur_email (update_where ?P ?f (users d)) = map ur_email (users d)"
    by (rule update_where_same_key) (use u r(3) in auto)
  have f: "\<not> (\<exists>q \<in> set (users d). ?P q \<and> \<not> user_row_fits (?f q))"
    using u fits r i by (auto simp: user_row_fits_def)
  have "update_user (u_id u) v ?f d = Inr (1, d\<lparr>users := update_where ?P ?f (users d)\<rparr>)"
    unfolding update_user_def Let_def using i f n e db_inv_keys(2) [OF d] by simp
  then show ?thesis by (simp add: user_save_def v)
qed

lemma ott_save_current:
  assumes d: "db_inv d" and v: "o_version t = Some v" and l: "ott_lookup d (o_id t) = Some s"
    and s: "o_version s = Some v" "o_token_hash t = o_token_hash s" "o_user_id t = o_user_id s" and i: "int4 (v + 1)"
  shows "\<exists>t' d'. ott_save t d = Inr (t', d')"
proof -
  let ?P = "\<lambda>r. otr_id r = o_id t \<and> otr_version r = v"
  from l obtain r where r0: "table_map otr_id (one_time_tokens d) (o_id t) = Some r" and sr: "ott_orm2domain r = Inr s"
    by (auto simp: ott_lookup_def split: option.splits sum.splits)
  have "otr_version r = v" "otr_token_hash r = o_token_hash s" "otr_user_id r = o_user_id s"
    using s(1) sr by (auto simp: ott_orm2domain_def split: option.splits)
  then have r: "table_map otr_id (one_time_tokens d) (o_id t) = Some r" "otr_version r = v"
    "otr_token_hash r = o_token_hash t" "otr_user_id r = o_user_id t"
    using r0 s by simp_all
  have u: "q = r" if "q \<in> set (one_time_tokens d)" "?P q" for q
    using table_map_SomeI [OF db_inv_keys(3) [OF d] that(1)] that(2) r(1) by simp
  have n: "rowcount ?P (one_time_tokens d) = 1"
    using r by (simp add: rowcount_key [OF db_inv_keys(3) [OF d]])
  have m: "r \<in> set (one_time_tokens d)" using table_map_SomeD [OF r(1)] by blast
  have fits: "ott_row_fits r" "otr_user_id r \<in> user_ids d"
    using d m by (auto simp: db_inv_def db_wf_def)
  let ?f = "\<lambda>r. r\<lparr>otr_token_hash := o_token_hash t, otr_user_id := o_user_id t,
    otr_expires_at := o_expires_at t, otr_used := o_used t, otr_version := v + 1\<rparr>"
  have f: "\<not> (\<exists>q \<in> set (one_time_tokens d). ?P q \<and> \<not> ott_row_fits (?f q))"
    using u fits r i by (auto simp: ott_row_fits_def)
  have g: "\<not> (\<exists>q \<in> set (one_time_tokens d). ?P q \<and> otr_user_id (?f q) \<notin> user_ids d)"
    using u fits r by auto
  have "update_ott (o_id t) v ?f d = Inr (1, d\<lparr>one_time_tokens := update_where ?P ?f (one_time_tokens d)\<rparr>)"
    unfolding update_ott_def Let_def using i f g n by simp
  then show ?thesis by (simp add: ott_save_def v)
qed

end
