(* ===== verification/Json.thy ===== *)
theory Json
  imports PyCodec "HOL-Library.AList"
begin

text \<open>
  The part of Python's \<^verbatim>\<open>json\<close> that the event serializer uses: \<open>json.dumps\<close> with its defaults
  (\<open>ensure_ascii\<close>, the separators comma-space and colon-space) and \<open>json.loads\<close>. A number is kept as
  its text. An escape of a code point above 255 is outside the strings of the model and is
  refused by the reader.
\<close>

datatype json =
    JNull
  | JBool bool
  | JNum string
  | JStr string
  | JArr "json list"
  | JObj "(string \<times> json) list"

abbreviation DQUOTE :: char where "DQUOTE \<equiv> CHR 0x22"
abbreviation BSLASH :: char where "BSLASH \<equiv> CHR 0x5C"

section \<open>Writing\<close>

text \<open>\<open>py_encode_basestring_ascii\<close>\<close>

definition escape_char :: "char \<Rightarrow> string" where
  "escape_char c =
    (if c = DQUOTE then [BSLASH, DQUOTE]
     else if c = BSLASH then [BSLASH, BSLASH]
     else if c = CHR 0x0A then [BSLASH, CHR ''n'']
     else if c = CHR 0x0D then [BSLASH, CHR ''r'']
     else if c = CHR 0x09 then [BSLASH, CHR ''t'']
     else if c = CHR 0x0C then [BSLASH, CHR ''f'']
     else if c = CHR 0x08 then [BSLASH, CHR ''b'']
     else if 32 \<le> chr_ord c \<and> chr_ord c \<le> 126 then [c]
     else BSLASH # CHR ''u'' # hex_fixed 4 (chr_ord c))"

definition json_quote :: "string \<Rightarrow> string" where
  "json_quote s = DQUOTE # concat (map escape_char s) @ [DQUOTE]"

definition join :: "string \<Rightarrow> string list \<Rightarrow> string" where
  "join sep xs = (case xs of [] \<Rightarrow> [] | y # ys \<Rightarrow> y @ concat (map (\<lambda>z. sep @ z) ys))"

fun json_dumps :: "json \<Rightarrow> string" where
  "json_dumps JNull = ''null''"
| "json_dumps (JBool b) = (if b then ''true'' else ''false'')"
| "json_dumps (JNum n) = n"
| "json_dumps (JStr s) = json_quote s"
| "json_dumps (JArr vs) = ''['' @ join '', '' (map json_dumps vs) @ '']''"
| "json_dumps (JObj kvs) =
    ''{'' @ join '', '' (map (\<lambda>kv. json_quote (fst kv) @ '': '' @ json_dumps (snd kv)) kvs) @ ''}''"

section \<open>Reading\<close>

definition skip_ws :: "string \<Rightarrow> string" where
  "skip_ws s = dropWhile (\<lambda>c. c = CHR '' '' \<or> c = CHR 0x09 \<or> c = CHR 0x0A \<or> c = CHR 0x0D) s"

text \<open>What follows a backslash: the character it stands for and how many characters it takes.\<close>

definition simple_escape :: "char \<Rightarrow> char option" where
  "simple_escape e =
    (if e = DQUOTE \<or> e = BSLASH \<or> e = CHR ''/'' then Some e
     else if e = CHR ''b'' then Some (CHR 0x08)
     else if e = CHR ''f'' then Some (CHR 0x0C)
     else if e = CHR ''n'' then Some (CHR 0x0A)
     else if e = CHR ''r'' then Some (CHR 0x0D)
     else if e = CHR ''t'' then Some (CHR 0x09)
     else None)"

definition hex4 :: "string \<Rightarrow> nat option" where
  "hex4 s =
    (if length s < 4 \<or> CHR ''_'' \<in> set (take 4 s) then None else int16_more 0 (take 4 s))"

definition scan_escape :: "string \<Rightarrow> (char \<times> nat) option" where
  "scan_escape s =
    (case s of
       [] \<Rightarrow> None
     | e # r \<Rightarrow>
         if e = CHR ''u'' then
           (case hex4 r of None \<Rightarrow> None | Some n \<Rightarrow> if n < 256 then Some (ord_chr n, 5) else None)
         else map_option (\<lambda>c. (c, 1)) (simple_escape e))"

text \<open>\<open>scanstring\<close>, after the opening quote; control characters end in an error.\<close>

function scan_string :: "string \<Rightarrow> (string \<times> string) option" where
  "scan_string [] = None"
| "scan_string (c # cs) =
    (if c = DQUOTE then Some ([], cs)
     else if c = BSLASH then
       (case scan_escape cs of
          None \<Rightarrow> None
        | Some (d, n) \<Rightarrow> map_option (\<lambda>(t, r). (d # t, r)) (scan_string (drop n cs)))
     else if chr_ord c < 32 then None
     else map_option (\<lambda>(t, r). (c # t, r)) (scan_string cs))"
  by pat_completeness auto
termination by (relation "measure length") auto

definition is_dec :: "char \<Rightarrow> bool" where
  "is_dec c \<longleftrightarrow> 48 \<le> chr_ord c \<and> chr_ord c \<le> 57"

text \<open>The number at the start of a text: an integer part, a fraction and an exponent.\<close>

definition scan_int :: "string \<Rightarrow> (string \<times> string) option" where
  "scan_int s =
    (case s of
       [] \<Rightarrow> None
     | c # r \<Rightarrow>
         if c = CHR ''0'' then Some ([c], r)
         else if is_dec c then Some (c # takeWhile is_dec r, dropWhile is_dec r)
         else None)"

definition scan_frac :: "string \<Rightarrow> string \<times> string" where
  "scan_frac s =
    (case s of
       c # d # r \<Rightarrow>
         if c = CHR ''.'' \<and> is_dec d then (c # d # takeWhile is_dec r, dropWhile is_dec r) else ([], s)
     | _ \<Rightarrow> ([], s))"

definition scan_exp :: "string \<Rightarrow> string \<times> string" where
  "scan_exp s =
    (case s of
       [] \<Rightarrow> ([], s)
     | c # r \<Rightarrow>
         if c = CHR ''e'' \<or> c = CHR ''E'' then
           (let sign = takeWhile (\<lambda>x. x = CHR ''+'' \<or> x = CHR ''-'') (take 1 r);
                ds = takeWhile is_dec (drop (length sign) r)
            in if ds = [] then ([], s) else (c # sign @ ds, drop (length sign + length ds) r))
         else ([], s))"

definition scan_number :: "string \<Rightarrow> (string \<times> string) option" where
  "scan_number s =
    (let minus = takeWhile (\<lambda>x. x = CHR ''-'') (take 1 s) in
     case scan_int (drop (length minus) s) of
       None \<Rightarrow> None
     | Some (i, r) \<Rightarrow> (case scan_frac r of (f, r') \<Rightarrow> (case scan_exp r' of (x, r'') \<Rightarrow> Some (minus @ i @ f @ x, r''))))"

definition starts :: "string \<Rightarrow> string \<Rightarrow> bool" where
  "starts p s \<longleftrightarrow> take (length p) s = p"

text \<open>The words and the numbers.\<close>

definition scan_scalar :: "string \<Rightarrow> (json \<times> string) option" where
  "scan_scalar s =
    (if starts ''null'' s then Some (JNull, drop 4 s)
     else if starts ''true'' s then Some (JBool True, drop 4 s)
     else if starts ''false'' s then Some (JBool False, drop 5 s)
     else (case scan_number s of
             Some (n, r) \<Rightarrow> Some (JNum n, r)
           | None \<Rightarrow>
               if starts ''NaN'' s then Some (JNum ''NaN'', drop 3 s)
               else if starts ''Infinity'' s then Some (JNum ''Infinity'', drop 8 s)
               else if starts ''-Infinity'' s then Some (JNum ''-Infinity'', drop 9 s)
               else None))"

text \<open>A key that comes again replaces the value and keeps its place, as in a \<open>dict\<close>.\<close>

definition dict_of :: "(string \<times> json) list \<Rightarrow> (string \<times> json) list" where
  "dict_of kvs = foldl (\<lambda>d (k, v). AList.update k v d) [] kvs"

text \<open>
  The scanner. A value and its remainder are shorter than the text, and only the step from an
  array's elements to its first value consumes nothing: twice the length, plus two, is enough fuel
  (\<open>scan_fuel\<close> below).
\<close>

fun scan_value :: "nat \<Rightarrow> string \<Rightarrow> (json \<times> string) option"
  and scan_members :: "nat \<Rightarrow> string \<Rightarrow> ((string \<times> json) list \<times> string) option"
  and scan_elems :: "nat \<Rightarrow> string \<Rightarrow> (json list \<times> string) option" where
  "scan_value 0 s = None"
| "scan_value (Suc n) s =
    (if s = [] then None
     else if hd s = DQUOTE then map_option (\<lambda>(t, r). (JStr t, r)) (scan_string (tl s))
     else if hd s = CHR ''{'' then
       (let r = skip_ws (tl s) in
        if starts ''}'' r then Some (JObj [], tl r)
        else map_option (\<lambda>(kvs, r'). (JObj (dict_of kvs), r')) (scan_members n r))
     else if hd s = CHR ''['' then
       (let r = skip_ws (tl s) in
        if starts '']'' r then Some (JArr [], tl r)
        else map_option (\<lambda>(vs, r'). (JArr vs, r')) (scan_elems n r))
     else scan_scalar s)"
| "scan_members 0 s = None"
| "scan_members (Suc n) s =
    (if \<not> starts [DQUOTE] s then None
     else case scan_string (tl s) of
       None \<Rightarrow> None
     | Some (k, r) \<Rightarrow>
         (let r1 = skip_ws r in
          if \<not> starts '':'' r1 then None
          else case scan_value n (skip_ws (tl r1)) of
            None \<Rightarrow> None
          | Some (v, r2) \<Rightarrow>
              (let r3 = skip_ws r2 in
               if starts ''}'' r3 then Some ([(k, v)], tl r3)
               else if starts '','' r3 then
                 map_option (\<lambda>(kvs, r'). ((k, v) # kvs, r')) (scan_members n (skip_ws (tl r3)))
               else None)))"
| "scan_elems 0 s = None"
| "scan_elems (Suc n) s =
    (case scan_value n s of
       None \<Rightarrow> None
     | Some (v, r2) \<Rightarrow>
         (let r3 = skip_ws r2 in
          if starts '']'' r3 then Some ([v], tl r3)
          else if starts '','' r3 then
            map_option (\<lambda>(vs, r'). (v # vs, r')) (scan_elems n (skip_ws (tl r3)))
          else None))"

text \<open>\<open>json.loads\<close>; \<open>None\<close> stands for its \<open>JSONDecodeError\<close>.\<close>

definition json_loads :: "string \<Rightarrow> json option" where
  "json_loads s =
    (case scan_value (2 * length s + 2) (skip_ws s) of
       None \<Rightarrow> None
     | Some (v, r) \<Rightarrow> if skip_ws r = [] then Some v else None)"

section \<open>The fuel is enough\<close>

lemma length_skip_ws: "length (skip_ws s) \<le> length s"
  unfolding skip_ws_def by (rule length_dropWhile_le)

lemma scan_string_shorter: "scan_string s = Some (t, r) \<Longrightarrow> length r < length s"
proof (induction s arbitrary: t r rule: scan_string.induct)
  case (2 c cs)
  show ?case
  proof (cases "c = BSLASH")
    case True
    with "2.prems" obtain d n t' where e: "scan_escape cs = Some (d, n)" "scan_string (drop n cs) = Some (t', r)"
      by (auto split: option.splits)
    from "2.IH"(1) [OF _ True e(1) refl e(2)] True show ?thesis by simp
  next
    case False
    with 2 show ?thesis by (fastforce split: if_splits)
  qed
qed simp

lemma scan_int_shorter: "scan_int s = Some (t, r) \<Longrightarrow> length r < length s"
  by (auto simp: scan_int_def less_Suc_eq_le length_dropWhile_le split: list.splits if_splits)

lemma scan_frac_shorter: "scan_frac s = (t, r) \<Longrightarrow> length r \<le> length s"
proof -
  assume a: "scan_frac s = (t, r)"
  have "length (dropWhile is_dec x) \<le> length x + 2" for x
    using length_dropWhile_le [of is_dec x] by simp
  with a show ?thesis by (auto simp: scan_frac_def split: list.splits if_splits)
qed

lemma scan_exp_shorter: "scan_exp s = (t, r) \<Longrightarrow> length r \<le> length s"
  by (auto simp: scan_exp_def Let_def split: list.splits if_splits)

lemma scan_number_shorter: "scan_number s = Some (n, r) \<Longrightarrow> length r < length s"
proof -
  assume a: "scan_number s = Some (n, r)"
  let ?m = "takeWhile (\<lambda>x. x = CHR ''-'') (take 1 s)"
  from a obtain i r1 f r2 x where "scan_int (drop (length ?m) s) = Some (i, r1)"
    and "scan_frac r1 = (f, r2)" and "scan_exp r2 = (x, r)"
    by (auto simp: scan_number_def Let_def split: option.splits prod.splits)
  from scan_int_shorter [OF this(1)] scan_frac_shorter [OF this(2)] scan_exp_shorter [OF this(3)]
  show ?thesis by simp
qed

lemma starts_drop: "starts p s \<Longrightarrow> p \<noteq> [] \<Longrightarrow> length (drop (length p) s) < length s"
  by (cases s) (auto simp: starts_def length_greater_0_conv [symmetric] simp del: length_greater_0_conv)

lemma scan_scalar_shorter: "scan_scalar s = Some (v, r) \<Longrightarrow> length r < length s"
  using starts_drop [of "''null''" s] starts_drop [of "''true''" s] starts_drop [of "''false''" s]
    starts_drop [of "''NaN''" s] starts_drop [of "''Infinity''" s] starts_drop [of "''-Infinity''" s]
  by (auto simp: scan_scalar_def dest: scan_number_shorter split: option.splits if_splits)

lemma starts_single: "starts [c] s \<longleftrightarrow> s \<noteq> [] \<and> hd s = c"
  by (cases s) (simp_all add: starts_def)

lemma skip_ws_tl: "s \<noteq> [] \<Longrightarrow> length (skip_ws (tl s)) < length s"
  using length_skip_ws [of "tl s"] by (cases s) auto

lemma scan_shorter:
  "(\<forall>v r. scan_value n s = Some (v, r) \<longrightarrow> length r < length s)
    \<and> (\<forall>kvs r. scan_members n s = Some (kvs, r) \<longrightarrow> length r < length s)
    \<and> (\<forall>vs r. scan_elems n s = Some (vs, r) \<longrightarrow> length r < length s)"
proof (induction n arbitrary: s)
  case (Suc n)
  note IHv = Suc.IH [THEN conjunct1, rule_format]
    and IHm = Suc.IH [THEN conjunct2, THEN conjunct1, rule_format]
    and IHe = Suc.IH [THEN conjunct2, THEN conjunct2, rule_format]
  have "length r < length s" if "scan_value (Suc n) s = Some (v, r)" for v r
  proof -
    have ne: "s \<noteq> []" using that by auto
    note t = skip_ws_tl [OF ne]
    have "length (tl (skip_ws (tl s))) < length s" using t by (simp add: less_imp_diff_less)
    moreover have "length r < length s" if "scan_members n (skip_ws (tl s)) = Some (kvs, r)" for kvs
      using IHm [OF that] t by simp
    moreover have "length r < length s" if "scan_elems n (skip_ws (tl s)) = Some (vs, r)" for vs
      using IHe [OF that] t by simp
    moreover have "length r < length s" if "scan_string (tl s) = Some (u, r)" for u
      using scan_string_shorter [OF that] ne by (cases s) auto
    moreover note scan_scalar_shorter [of s v r]
    ultimately show ?thesis using that by (auto simp: Let_def split: if_splits)
  qed
  moreover have "length r < length s" if m: "scan_members (Suc n) s = Some (kvs, r)" for kvs r
  proof -
    from m obtain k r1 v r2 where ne: "s \<noteq> []" and k: "scan_string (tl s) = Some (k, r1)" "skip_ws r1 \<noteq> []"
      and v: "scan_value n (skip_ws (tl (skip_ws r1))) = Some (v, r2)"
      and e: "r = tl (skip_ws r2) \<or> (\<exists>kvs'. scan_members n (skip_ws (tl (skip_ws r2))) = Some (kvs', r))"
      by (auto simp: Let_def starts_single split: if_splits option.splits)
    have "length r1 < length s" using scan_string_shorter [OF k(1)] ne by (cases s) auto
    with skip_ws_tl [OF k(2)] length_skip_ws [of r1] IHv [OF v]
    have r2: "length r2 < length s" by simp
    have "length (skip_ws (tl (skip_ws r2))) \<le> length r2" "length (tl (skip_ws r2)) \<le> length r2"
      using length_skip_ws [of "tl (skip_ws r2)"] length_skip_ws [of r2] by simp_all
    with r2 e IHm show ?thesis by (meson le_less_trans less_le_trans order.strict_trans)
  qed
  moreover have "length r < length s" if m: "scan_elems (Suc n) s = Some (vs, r)" for vs r
  proof -
    from m obtain v r2 where v: "scan_value n s = Some (v, r2)"
      and e: "r = tl (skip_ws r2) \<or> (\<exists>vs'. scan_elems n (skip_ws (tl (skip_ws r2))) = Some (vs', r))"
      by (auto simp: Let_def split: if_splits option.splits)
    note r2 = IHv [OF v]
    have "length (skip_ws (tl (skip_ws r2))) \<le> length r2" "length (tl (skip_ws r2)) \<le> length r2"
      using length_skip_ws [of "tl (skip_ws r2)"] length_skip_ws [of r2] by simp_all
    with r2 e IHe show ?thesis by (meson le_less_trans less_le_trans order.strict_trans)
  qed
  ultimately show ?case by blast
qed simp

text \<open>More fuel than twice the length, plus one for members and elements, changes nothing.\<close>

lemma scan_fuel_Suc:
  "(2 * length s < n \<longrightarrow> scan_value (Suc n) s = scan_value n s)
    \<and> (2 * length s + 1 < n \<longrightarrow> scan_members (Suc n) s = scan_members n s)
    \<and> (2 * length s + 1 < n \<longrightarrow> scan_elems (Suc n) s = scan_elems n s)"
proof (induction n arbitrary: s)
  case (Suc n)
  note IHv = Suc.IH [THEN conjunct1, rule_format]
    and IHm = Suc.IH [THEN conjunct2, THEN conjunct1, rule_format]
    and IHe = Suc.IH [THEN conjunct2, THEN conjunct2, rule_format]
  have "scan_value (Suc (Suc n)) s = scan_value (Suc n) s" if l: "2 * length s < Suc n"
  proof (cases "s = []")
    case False
    have "2 * length (skip_ws (tl s)) + 1 < n" using skip_ws_tl [OF False] l by simp
    from IHm [OF this] IHe [OF this] show ?thesis
      by (simp only: scan_value.simps Let_def)
  qed simp
  moreover have "scan_members (Suc (Suc n)) s = scan_members (Suc n) s" if l: "2 * length s + 1 < Suc n"
  proof (cases "starts [DQUOTE] s")
    case True
    then have ne: "s \<noteq> []" by (simp add: starts_single)
    show ?thesis
    proof (cases "scan_string (tl s)")
      case (Some kr)
      obtain k r1 where k: "kr = (k, r1)" by (cases kr)
      let ?x = "skip_ws (tl (skip_ws r1))"
      have "length r1 < length s" using scan_string_shorter Some k ne by (cases s) fastforce+
      moreover have "length ?x \<le> length r1"
        using length_skip_ws [of "tl (skip_ws r1)"] length_skip_ws [of r1] by simp
      ultimately have x: "length ?x < length s" by simp
      then have v: "scan_value (Suc n) ?x = scan_value n ?x" using IHv l by simp
      have "scan_members (Suc n) (skip_ws (tl (skip_ws r2))) = scan_members n (skip_ws (tl (skip_ws r2)))"
        if "scan_value n ?x = Some (u, r2)" for u r2
      proof -
        have "length r2 < length ?x" using scan_shorter that by blast
        moreover have "length (skip_ws (tl (skip_ws r2))) \<le> length r2"
          using length_skip_ws [of "tl (skip_ws r2)"] length_skip_ws [of r2] by simp
        ultimately show ?thesis using x l by (intro IHm) simp
      qed
      then show ?thesis using Some k
        by (cases "scan_value n ?x"; clarsimp simp only: scan_members.simps v Let_def option.case prod.case)
    qed simp
  qed simp
  moreover have "scan_elems (Suc (Suc n)) s = scan_elems (Suc n) s" if l: "2 * length s + 1 < Suc n"
  proof -
    have v: "scan_value (Suc n) s = scan_value n s" using IHv l by simp
    have "scan_elems (Suc n) (skip_ws (tl (skip_ws r2))) = scan_elems n (skip_ws (tl (skip_ws r2)))"
      if "scan_value n s = Some (u, r2)" for u r2
    proof -
      have "length r2 < length s" using scan_shorter that by blast
      moreover have "length (skip_ws (tl (skip_ws r2))) \<le> length r2"
        using length_skip_ws [of "tl (skip_ws r2)"] length_skip_ws [of r2] by simp
      ultimately show ?thesis using l by (intro IHe) simp
    qed
    then show ?thesis
      by (cases "scan_value n s"; clarsimp simp only: scan_elems.simps v Let_def option.case prod.case)
  qed
  ultimately show ?case by blast
qed simp

lemma scan_fuel:
  "2 * length s < n \<Longrightarrow> n \<le> m \<Longrightarrow> scan_value m s = scan_value n s"
  "2 * length s + 1 < n \<Longrightarrow> n \<le> m \<Longrightarrow> scan_members m s = scan_members n s"
  "2 * length s + 1 < n \<Longrightarrow> n \<le> m \<Longrightarrow> scan_elems m s = scan_elems n s"
proof -
  show "2 * length s < n \<Longrightarrow> n \<le> m \<Longrightarrow> scan_value m s = scan_value n s"
    by (induction m) (use scan_fuel_Suc in \<open>auto simp: le_Suc_eq simp del: scan_value.simps\<close>)
  show "2 * length s + 1 < n \<Longrightarrow> n \<le> m \<Longrightarrow> scan_members m s = scan_members n s"
    by (induction m) (use scan_fuel_Suc in \<open>auto simp: le_Suc_eq simp del: scan_members.simps\<close>)
  show "2 * length s + 1 < n \<Longrightarrow> n \<le> m \<Longrightarrow> scan_elems m s = scan_elems n s"
    by (induction m) (use scan_fuel_Suc in \<open>auto simp: le_Suc_eq simp del: scan_elems.simps\<close>)
qed

section \<open>What was written is read back\<close>

text \<open>Values without numbers whose objects have no key twice.\<close>

fun json_plain :: "json \<Rightarrow> bool" where
  "json_plain (JNum n) = False"
| "json_plain (JArr vs) = list_all json_plain vs"
| "json_plain (JObj kvs) = (distinct (map fst kvs) \<and> list_all (\<lambda>kv. json_plain (snd kv)) kvs)"
| "json_plain _ = True"

lemma hex4_fixed: "n < 256 \<Longrightarrow> hex4 (hex_fixed 4 n @ t) = Some n"
proof -
  assume n: "n < 256"
  have "CHR ''_'' \<notin> set (hex_fixed 4 n)"
    using set_hex_fixed [of 4 n] hex_alphabet_cases by blast
  then show ?thesis using n by (simp add: hex4_def int16_more_hex_fixed)
qed

lemma scan_escape_u: "scan_escape (CHR ''u'' # hex_fixed 4 (chr_ord c) @ t) = Some (c, 5)"
  by (simp add: scan_escape_def hex4_fixed)

lemma scan_string_char:
  "scan_string (escape_char c @ t) = map_option (\<lambda>(u, r). (c # u, r)) (scan_string t)"
proof (cases "c \<in> {DQUOTE, BSLASH, CHR 0x0A, CHR 0x0D, CHR 0x09, CHR 0x0C, CHR 0x08}")
  case True
  then show ?thesis by (auto simp: escape_char_def scan_escape_def simple_escape_def)
next
  case False
  then have n: "c \<noteq> DQUOTE" "c \<noteq> BSLASH" "c \<noteq> CHR 0x0A" "c \<noteq> CHR 0x0D" "c \<noteq> CHR 0x09"
    "c \<noteq> CHR 0x0C" "c \<noteq> CHR 0x08"
    by blast+
  have e: "escape_char c = (if 32 \<le> chr_ord c \<and> chr_ord c \<le> 126 then [c]
      else BSLASH # CHR ''u'' # hex_fixed 4 (chr_ord c))"
    unfolding escape_char_def by (simp only: n if_False)
  have d: "drop 5 (CHR ''u'' # hex_fixed 4 (chr_ord c) @ t) = t"
  proof -
    have dl: "drop (length p) (p @ t) = t" for p :: string by simp
    have "length (CHR ''u'' # hex_fixed 4 (chr_ord c)) = 5" by (simp only: list.size length_hex_fixed)
    with dl [of "CHR ''u'' # hex_fixed 4 (chr_ord c)"] show ?thesis by (simp only: append_Cons)
  qed
  show ?thesis
  proof (cases "32 \<le> chr_ord c \<and> chr_ord c \<le> 126")
    case True
    then have "escape_char c = [c]" and "\<not> chr_ord c < 32" using e by simp_all
    then show ?thesis using n by simp
  next
    case False
    then have "escape_char c @ t = BSLASH # CHR ''u'' # hex_fixed 4 (chr_ord c) @ t"
      using e by (simp only: if_False append_Cons)
    then show ?thesis by (simp add: scan_escape_u d del: drop_Suc_Cons)
  qed
qed

lemma scan_quoted: "scan_string (concat (map escape_char s) @ DQUOTE # r) = Some (s, r)"
  by (induction s) (simp_all add: scan_string_char)

lemma hd_dumps:
  "json_plain v \<Longrightarrow> json_dumps v \<noteq> [] \<and> hd (json_dumps v) \<in> {DQUOTE, CHR ''{'', CHR ''['', CHR ''n'', CHR ''t'', CHR ''f''}"
  by (cases v) (simp_all add: json_quote_def)

lemma skip_ws_dumps: "json_plain v \<Longrightarrow> skip_ws (json_dumps v @ r) = json_dumps v @ r"
  using hd_dumps [of v] by (cases "json_dumps v") (auto simp: skip_ws_def)

lemma join_Cons: "join sep (x # xs) = x @ (if xs = [] then [] else sep @ join sep xs)"
  by (cases xs) (simp_all add: join_def)

lemma dict_of_distinct: "distinct (map fst kvs) \<Longrightarrow> dict_of kvs = kvs"
proof -
  have "distinct (map fst (d @ kvs)) \<Longrightarrow> foldl (\<lambda>d (k, v). AList.update k v d) d kvs = d @ kvs" for d
  proof (induction kvs arbitrary: d)
    case (Cons kv kvs)
    have u: "k \<notin> fst ` set d \<Longrightarrow> AList.update k v d = d @ [(k, v)]" for k and v :: json
      by (induction d) auto
    show ?case using Cons.prems u [of "fst kv" "snd kv"] Cons.IH [of "d @ [kv]"] by (cases kv) auto
  qed simp
  then show "distinct (map fst kvs) \<Longrightarrow> dict_of kvs = kvs" by (simp add: dict_of_def)
qed

text \<open>Enough fuel of any amount is as good as any other, so the proofs take as much as they need.\<close>

lemma scan_any_fuel:
  "scan_value m s = Some vr \<Longrightarrow> 2 * length s < n \<Longrightarrow> 2 * length s < m \<Longrightarrow> scan_value n s = Some vr"
  by (metis scan_fuel(1) nat_le_linear)

lemma scan_elems_dumps:
  assumes "\<And>v n r. v \<in> set vs \<Longrightarrow> 2 * length (json_dumps v @ r) < n \<Longrightarrow>
      scan_value n (json_dumps v @ r) = Some (v, r)"
    and "list_all json_plain vs" and "vs \<noteq> []"
    and "2 * length (join '', '' (map json_dumps vs) @ '']'' @ r) + 1 < n"
  shows "scan_elems n (join '', '' (map json_dumps vs) @ '']'' @ r) = Some (vs, r)"
  using assms
proof (induction vs arbitrary: n)
  case (Cons v vs)
  obtain m where n: "n = Suc m" using Cons.prems(4) by (cases n) auto
  show ?case
  proof (cases "vs = []")
    case True
    then have "scan_value m (json_dumps v @ '']'' @ r) = Some (v, '']'' @ r)"
      using Cons.prems(1) [of v "'']'' @ r" m] Cons.prems(4) n by (simp add: join_Cons)
    then show ?thesis using True n by (simp add: join_Cons starts_single skip_ws_def)
  next
    case False
    let ?x = "join '', '' (map json_dumps vs) @ '']'' @ r"
    have v: "scan_value m (json_dumps v @ '', '' @ ?x) = Some (v, '', '' @ ?x)"
      using Cons.prems(1) [of v "'', '' @ ?x" m] Cons.prems(4) n False by (simp add: join_Cons)
    have x: "skip_ws ?x = ?x"
      using False Cons.prems(2) by (cases vs) (simp_all add: join_Cons skip_ws_dumps)
    have "scan_elems m ?x = Some (vs, r)"
      using Cons.prems n False by (intro Cons.IH) (auto simp: join_Cons)
    moreover have "skip_ws ('', '' @ ?x) = '', '' @ ?x" and "skip_ws ('' '' @ ?x) = ?x"
      using x by (simp_all add: skip_ws_def)
    ultimately show ?thesis using False n v
      by (simp add: join_Cons starts_single Let_def)
  qed
qed simp

lemma scan_members_dumps:
  assumes "\<And>k v n r. (k, v) \<in> set kvs \<Longrightarrow> 2 * length (json_dumps v @ r) < n \<Longrightarrow>
      scan_value n (json_dumps v @ r) = Some (v, r)"
    and "list_all (\<lambda>kv. json_plain (snd kv)) kvs" and "kvs \<noteq> []"
    and "2 * length (join '', '' (map (\<lambda>kv. json_quote (fst kv) @ '': '' @ json_dumps (snd kv)) kvs) @ ''}'' @ r) + 1 < n"
  shows "scan_members n (join '', '' (map (\<lambda>kv. json_quote (fst kv) @ '': '' @ json_dumps (snd kv)) kvs) @ ''}'' @ r)
    = Some (kvs, r)"
  using assms
proof (induction kvs arbitrary: n)
  case (Cons kv kvs)
  obtain m where n: "n = Suc m" using Cons.prems(4) by (cases n) auto
  obtain k v where kv: "kv = (k, v)" by (cases kv)
  let ?f = "\<lambda>kv. json_quote (fst kv) @ '': '' @ json_dumps (snd kv)"
  define x where "x = (if kvs = [] then ''}'' @ r else '', '' @ join '', '' (map ?f kvs) @ ''}'' @ r)"
  have t: "join '', '' (map ?f (kv # kvs)) @ ''}'' @ r =
      DQUOTE # concat (map escape_char k) @ DQUOTE # '': '' @ json_dumps v @ x"
    by (simp add: join_Cons kv json_quote_def x_def)
  have s: "skip_ws (json_dumps v @ x) = json_dumps v @ x"
    using Cons.prems(2) kv by (intro skip_ws_dumps) simp
  have v: "scan_value m (json_dumps v @ x) = Some (v, x)"
    using Cons.prems(4) n unfolding t by (intro Cons.prems(1) [of k]) (auto simp: kv)
  have step: "scan_members n (join '', '' (map ?f (kv # kvs)) @ ''}'' @ r) =
      (let r3 = skip_ws x in
       if starts ''}'' r3 then Some ([(k, v)], tl r3)
       else if starts '','' r3 then
         map_option (\<lambda>(kvs, r'). ((k, v) # kvs, r')) (scan_members m (skip_ws (tl r3)))
       else None)"
    unfolding t n using s v scan_quoted [of k "'': '' @ json_dumps v @ x"]
    by (simp add: starts_single skip_ws_def)
  show ?case
  proof (cases "kvs = []")
    case True
    then show ?thesis unfolding step by (simp add: x_def kv skip_ws_def starts_single)
  next
    case False
    have y: "skip_ws (join '', '' (map ?f kvs) @ ''}'' @ r) = join '', '' (map ?f kvs) @ ''}'' @ r"
      using False by (cases kvs) (simp_all add: join_Cons json_quote_def skip_ws_def)
    have "scan_members m (join '', '' (map ?f kvs) @ ''}'' @ r) = Some (kvs, r)"
      using Cons.prems n False by (intro Cons.IH) (auto simp: join_Cons)
    moreover have "skip_ws x = x" using False by (simp add: x_def skip_ws_def)
    moreover have "skip_ws (tl x) = join '', '' (map ?f kvs) @ ''}'' @ r"
      using False y by (simp add: x_def) (simp add: skip_ws_def)
    ultimately show ?thesis unfolding step using False by (simp add: starts_single kv) (simp add: x_def)
  qed
qed simp

lemma scan_dumps:
  "json_plain v \<Longrightarrow> 2 * length (json_dumps v @ r) < n \<Longrightarrow> scan_value n (json_dumps v @ r) = Some (v, r)"
proof (induction v arbitrary: n r)
  case (JArr vs)
  obtain m where n: "n = Suc m" using JArr.prems(2) by (cases n) auto
  show ?case
  proof (cases "vs = []")
    case True
    then show ?thesis using n by (simp add: join_def starts_single skip_ws_def)
  next
    case False
    let ?x = "join '', '' (map json_dumps vs) @ '']'' @ r"
    have x: "skip_ws ?x = ?x" and h: "hd ?x \<noteq> CHR '']''"
      using False JArr.prems(1) hd_dumps [of "hd vs"]
      by (cases vs; auto simp: join_Cons skip_ws_dumps)+
    have "scan_elems m ?x = Some (vs, r)"
      using JArr False n by (intro scan_elems_dumps) (auto simp: list_all_iff)
    then show ?thesis using n x h by (simp add: starts_single)
  qed
next
  case (JObj kvs)
  obtain m where n: "n = Suc m" using JObj.prems(2) by (cases n) auto
  let ?f = "\<lambda>kv. json_quote (fst kv) @ '': '' @ json_dumps (snd kv)"
  show ?case
  proof (cases "kvs = []")
    case True
    then show ?thesis using n by (simp add: join_def starts_single skip_ws_def)
  next
    case False
    let ?x = "join '', '' (map ?f kvs) @ ''}'' @ r"
    have x: "skip_ws ?x = ?x" and h: "hd ?x \<noteq> CHR ''}''"
      using False by (cases kvs; simp add: join_Cons json_quote_def skip_ws_def)+
    have "scan_members m ?x = Some (kvs, r)"
      using JObj False n by (intro scan_members_dumps) (auto simp: list_all_iff snds.simps)
    then show ?thesis using n x h JObj.prems(1) by (simp add: starts_single dict_of_distinct)
  qed
next
  case (JStr s)
  then obtain m where n: "n = Suc m" by (cases n) auto
  then show ?case using scan_quoted [of s r] by (simp add: json_quote_def)
qed (simp; case_tac n; simp add: scan_scalar_def starts_def)+

lemma json_loads_dumps: "json_plain v \<Longrightarrow> json_loads (json_dumps v) = Some v"
  using scan_dumps [of v "[]" "2 * length (json_dumps v) + 2"] skip_ws_dumps [of v "[]"]
  by (simp add: json_loads_def skip_ws_def)

end
