(* ===== verification/EventSerializer.thy ===== *)
theory EventSerializer
  imports Events Json
begin

text \<open>
  \<^verbatim>\<open>app/core/domain/events/serializer.py\<close>: audit events as JSON text. \<open>pydantic\<close> turns field
  values into JSON values and back; its conversions are parameters.
\<close>

record pydantic =
  dump_uuid :: "uuid \<Rightarrow> string"
  dump_time :: "datetime \<Rightarrow> string"
  load_uuid :: "json \<Rightarrow> uuid option"
  load_time :: "json \<Rightarrow> datetime option"
  load_str :: "json \<Rightarrow> string option"

text \<open>
  Documented behaviour: a \<open>UUID\<close>, a \<open>datetime\<close> and a \<open>str\<close> dumped in JSON mode validate to the
  same value; \<open>None\<close> is no \<open>str\<close>.
\<close>

definition pydantic_roundtrip :: "pydantic \<Rightarrow> bool" where
  "pydantic_roundtrip P \<longleftrightarrow>
    (\<forall>u. load_uuid P (JStr (dump_uuid P u)) = Some u)
    \<and> (\<forall>t. load_time P (JStr (dump_time P t)) = Some t)
    \<and> (\<forall>s. load_str P (JStr s) = Some s)"

section \<open>\<open>model_dump\<close>\<close>

text \<open>\<open>type(event).__name__\<close>\<close>

fun type_name :: "event \<Rightarrow> string" where
  "type_name (UserCreated _ _ _) = ''UserCreated''"
| "type_name (UserActivated _ _) = ''UserActivated''"
| "type_name (UserDeactivated _ _) = ''UserDeactivated''"
| "type_name (UserEmailVerified _ _ _) = ''UserEmailVerified''"
| "type_name (UserPasswordChanged _ _) = ''UserPasswordChanged''"
| "type_name (UserPasswordRecovered _ _) = ''UserPasswordRecovered''"
| "type_name (UserEmailVerificationRequested _ _ _ _) = ''UserEmailVerificationRequested''"
| "type_name (UserPasswordRecoverRequested _ _ _ _) = ''UserPasswordRecoverRequested''"
| "type_name (RefreshTokenCreated _ _ _ _ _ _) = ''RefreshTokenCreated''"
| "type_name (RefreshTokenRevoked _ _ _) = ''RefreshTokenRevoked''"
| "type_name (RefreshTokenReuseDetected _ _ _ _ _ _) = ''RefreshTokenReuseDetected''"
| "type_name (SuspiciousRefreshTokenRevocation _ _ _ _ _ _) = ''SuspiciousRefreshTokenRevocation''"

definition dump_opt :: "string option \<Rightarrow> json" where
  "dump_opt v = (case v of None \<Rightarrow> JNull | Some s \<Rightarrow> JStr s)"

definition dump_head :: "pydantic \<Rightarrow> datetime \<Rightarrow> uuid \<Rightarrow> (string \<times> json) list" where
  "dump_head P ts u = [(''timestamp'', JStr (dump_time P ts)), (''user_id'', JStr (dump_uuid P u))]"

definition dump_client :: "string option \<Rightarrow> string option \<Rightarrow> string option \<Rightarrow> (string \<times> json) list" where
  "dump_client ip ua loc = [(''client_ip'', dump_opt ip), (''user_agent'', dump_opt ua), (''location'', dump_opt loc)]"

fun model_dump :: "pydantic \<Rightarrow> event \<Rightarrow> (string \<times> json) list" where
  "model_dump P (UserCreated ts u email) = dump_head P ts u @ [(''email'', JStr email)]"
| "model_dump P (UserActivated ts u) = dump_head P ts u"
| "model_dump P (UserDeactivated ts u) = dump_head P ts u"
| "model_dump P (UserEmailVerified ts u email) = dump_head P ts u @ [(''email'', JStr email)]"
| "model_dump P (UserPasswordChanged ts u) = dump_head P ts u"
| "model_dump P (UserPasswordRecovered ts u) = dump_head P ts u"
| "model_dump P (UserEmailVerificationRequested ts u email token) =
    dump_head P ts u @ [(''email'', JStr email), (''token'', JStr token)]"
| "model_dump P (UserPasswordRecoverRequested ts u email token) =
    dump_head P ts u @ [(''email'', JStr email), (''token'', JStr token)]"
| "model_dump P (RefreshTokenCreated ts u i ip ua loc) =
    dump_head P ts u @ (''token_id'', JStr (dump_uuid P i)) # dump_client ip ua loc"
| "model_dump P (RefreshTokenRevoked ts u i) = dump_head P ts u @ [(''token_id'', JStr (dump_uuid P i))]"
| "model_dump P (RefreshTokenReuseDetected ts u i ip ua loc) =
    dump_head P ts u @ (''token_id'', JStr (dump_uuid P i)) # dump_client ip ua loc"
| "model_dump P (SuspiciousRefreshTokenRevocation ts u i ip ua loc) =
    dump_head P ts u @ (''token_id'', JStr (dump_uuid P i)) # dump_client ip ua loc"

definition serialize :: "pydantic \<Rightarrow> event \<Rightarrow> string" where
  "serialize P e = json_dumps (JObj (model_dump P e @ [(''__type__'', JStr (type_name e))]))"

section \<open>\<open>model_validate\<close>\<close>

text \<open>A required field, an optional text (\<open>str | None = None\<close>), and the timestamp, whose default reads the clock.\<close>

definition field :: "(json \<Rightarrow> 'a option) \<Rightarrow> (string \<times> json) list \<Rightarrow> string \<Rightarrow> ('w, 'a) py" where
  "field load d name =
    (case Option.bind (map_of d name) load of None \<Rightarrow> raiseM (LibError ValidationError) | Some x \<Rightarrow> retM x)"

definition opt_field :: "pydantic \<Rightarrow> (string \<times> json) list \<Rightarrow> string \<Rightarrow> ('w, string option) py" where
  "opt_field P d name =
    (case map_of d name of
       None \<Rightarrow> retM None
     | Some j \<Rightarrow>
         if j = JNull then retM None
         else (case load_str P j of None \<Rightarrow> raiseM (LibError ValidationError) | Some s \<Rightarrow> retM (Some s)))"

definition timestamp_field :: "pydantic \<Rightarrow> sysenv \<Rightarrow> (string \<times> json) list \<Rightarrow> ('w, datetime) py" where
  "timestamp_field P E d =
    (case map_of d ''timestamp'' of None \<Rightarrow> utc_now E | Some j \<Rightarrow> field (load_time P) d ''timestamp'')"

definition validate_user_event ::
  "pydantic \<Rightarrow> sysenv \<Rightarrow> (datetime \<Rightarrow> uuid \<Rightarrow> event) \<Rightarrow> (string \<times> json) list \<Rightarrow> ('w, event) py" where
  "validate_user_event P E c d =
    bindM (timestamp_field P E d) (\<lambda>ts.
    bindM (field (load_uuid P) d ''user_id'') (\<lambda>u.
    retM (c ts u)))"

definition validate_email_event ::
  "pydantic \<Rightarrow> sysenv \<Rightarrow> (datetime \<Rightarrow> uuid \<Rightarrow> string \<Rightarrow> event) \<Rightarrow> (string \<times> json) list \<Rightarrow> ('w, event) py" where
  "validate_email_event P E c d =
    bindM (timestamp_field P E d) (\<lambda>ts.
    bindM (field (load_uuid P) d ''user_id'') (\<lambda>u.
    bindM (field (load_str P) d ''email'') (\<lambda>m.
    retM (c ts u m))))"

text \<open>\<open>_REGISTRY\<close>: the validators of the audit event classes by class name.\<close>

definition REGISTRY :: "pydantic \<Rightarrow> sysenv \<Rightarrow> (string \<times> ((string \<times> json) list \<Rightarrow> ('w, event) py)) list" where
  "REGISTRY P E =
    [(''UserCreated'', validate_email_event P E UserCreated),
     (''UserActivated'', validate_user_event P E UserActivated),
     (''UserDeactivated'', validate_user_event P E UserDeactivated),
     (''UserEmailVerified'', validate_email_event P E UserEmailVerified),
     (''UserPasswordChanged'', validate_user_event P E UserPasswordChanged),
     (''UserPasswordRecovered'', validate_user_event P E UserPasswordRecovered),
     (''RefreshTokenCreated'', \<lambda>d.
        bindM (timestamp_field P E d) (\<lambda>ts.
        bindM (field (load_uuid P) d ''user_id'') (\<lambda>u.
        bindM (field (load_uuid P) d ''token_id'') (\<lambda>i.
        bindM (opt_field P d ''client_ip'') (\<lambda>ip.
        bindM (opt_field P d ''user_agent'') (\<lambda>ua.
        bindM (opt_field P d ''location'') (\<lambda>loc.
        retM (RefreshTokenCreated ts u i ip ua loc)))))))),
     (''RefreshTokenRevoked'', \<lambda>d.
        bindM (timestamp_field P E d) (\<lambda>ts.
        bindM (field (load_uuid P) d ''user_id'') (\<lambda>u.
        bindM (field (load_uuid P) d ''token_id'') (\<lambda>i.
        retM (RefreshTokenRevoked ts u i)))))]"

text \<open>
  A text that is no JSON raises a \<open>ValueError\<close>, a JSON value that is no object has no
  \<open>pop\<close> with a key, an array or object as the type name cannot be looked up.
\<close>

definition deserialize :: "pydantic \<Rightarrow> sysenv \<Rightarrow> string \<Rightarrow> ('w, event) py" where
  "deserialize P E raw =
    (case json_loads raw of
       None \<Rightarrow> raiseM (LibError ValueError)
     | Some (JObj d) \<Rightarrow>
         (case map_of d ''__type__'' of
            None \<Rightarrow> raiseM (LibError KeyError)
          | Some (JStr name) \<Rightarrow>
              (case map_of (REGISTRY P E) name of
                 None \<Rightarrow> raiseM (LibError KeyError)
               | Some validate \<Rightarrow> validate (AList.delete ''__type__'' d))
          | Some (JArr _) \<Rightarrow> raiseM (LibError TypeError)
          | Some (JObj _) \<Rightarrow> raiseM (LibError TypeError)
          | Some _ \<Rightarrow> raiseM (LibError KeyError))
     | Some (JArr _) \<Rightarrow> raiseM (LibError TypeError)
     | Some _ \<Rightarrow> raiseM (LibError AttributeError))"

section \<open>What is stored is what is read\<close>

lemmas dump_defs = dump_head_def dump_client_def dump_opt_def

lemma model_dump_plain: "json_plain (JObj (model_dump P e @ [(''__type__'', JStr (type_name e))]))"
  by (cases e) (simp_all add: dump_defs split: option.split)

lemma type_name_field: "map_of (model_dump P e) ''__type__'' = None"
  by (cases e) (simp_all add: dump_defs)

lemma delete_type_name: "AList.delete ''__type__'' (model_dump P e @ [(''__type__'', JStr n)]) = model_dump P e"
proof -
  have "''__type__'' \<notin> fst ` set (model_dump P e)" using type_name_field [of P e] by (simp add: map_of_eq_None_iff)
  then show ?thesis by (simp add: AList.delete_eq) (auto intro!: filter_True; force)
qed

lemma deserialize_serialize_run:
  "deserialize P E (serialize P e) =
    (case map_of (REGISTRY P E) (type_name e) of
       None \<Rightarrow> raiseM (LibError KeyError) | Some validate \<Rightarrow> validate (model_dump P e))"
proof -
  have "map_of (model_dump P e @ [(''__type__'', JStr (type_name e))]) ''__type__'' = Some (JStr (type_name e))"
    using type_name_field [of P e] by (simp add: map_add_def)
  then show ?thesis
    unfolding deserialize_def serialize_def json_loads_dumps [OF model_dump_plain] option.case json.case
    by (simp only: option.case json.case delete_type_name)
qed

lemma run_field [run_simps]:
  "field load d n w =
    (case Option.bind (map_of d n) load of None \<Rightarrow> Inl (LibError ValidationError) | Some x \<Rightarrow> Inr x, w)"
  by (simp add: field_def run_simps split: option.split)

lemma run_opt_field:
  assumes "pydantic_roundtrip P" and "map_of d n = Some (dump_opt v)"
  shows "opt_field P d n w = (Inr v, w)"
  using assms by (cases v) (simp_all add: opt_field_def dump_opt_def run_simps pydantic_roundtrip_def)

lemma run_timestamp_field:
  assumes "pydantic_roundtrip P" and "map_of d ''timestamp'' = Some (JStr (dump_time P ts))"
  shows "timestamp_field P E d w = (Inr ts, w)"
  using assms by (simp add: timestamp_field_def run_simps pydantic_roundtrip_def)

lemma deserialize_serialize:
  assumes "pydantic_roundtrip P" and "is_domain_event e"
  shows "deserialize P E (serialize P e) w = (Inr e, w)"
  unfolding deserialize_serialize_run using assms(2)
  by (cases e) (simp_all add: REGISTRY_def validate_user_event_def validate_email_event_def run_simps
      run_timestamp_field [OF assms(1)] run_opt_field [OF assms(1)] dump_head_def dump_client_def
      assms(1) [unfolded pydantic_roundtrip_def])

lemma deserialize_other:
  "\<not> is_domain_event e \<Longrightarrow> deserialize P E (serialize P e) w = (Inl (LibError KeyError), w)"
  unfolding deserialize_serialize_run by (cases e) (simp_all add: REGISTRY_def run_simps)

lemma only_ticks_fields [ticks_intros]:
  "only_ticks (field load d n)" "only_ticks (opt_field P d n)" "only_ticks (timestamp_field P E d)"
  unfolding field_def opt_field_def timestamp_field_def by (intro ticks_intros)+

lemma only_ticks_registry: "map_of (REGISTRY P E) n = Some v \<Longrightarrow> only_ticks (v d)"
  unfolding REGISTRY_def validate_user_event_def validate_email_event_def
  by (auto split: if_splits intro!: ticks_intros)

lemma only_ticks_deserialize [ticks_intros]: "only_ticks (deserialize P E raw)"
  unfolding deserialize_def
  by (auto split: option.splits json.splits intro: ticks_intros only_ticks_registry)

end
