(* ===== verification/EventBus.thy ===== *)
theory EventBus
  imports EventSerializer
begin

text \<open>
  \<^verbatim>\<open>app/adapters/outbound/event_bus\<close>: the publisher that routes events, the two
  implementations of the audit queue (in memory and on a Redis list) and the notification
  queue. The locale \<open>event_queue\<close> is what the port promises to the publisher and to the events
  page; both queues are shown to keep it.
\<close>

section \<open>The publisher\<close>

text \<open>
  \<open>EventPublisher.publish\<close>, over the two ports it calls. Events are routed one by one, so
  those before a failing call have been sent.
\<close>

fun publish :: "(event \<Rightarrow> ('s, 'x, unit) prog) \<Rightarrow> (event \<Rightarrow> ('s, 'x, unit) prog) \<Rightarrow> event list \<Rightarrow> ('s, 'x, unit) prog" where
  "publish queue_push notify [] = retM ()"
| "publish queue_push notify (e # es) =
    bindM (if is_notification_event e then notify e else queue_push e) (\<lambda>_. publish queue_push notify es)"

section \<open>\<open>InMemoryEventQueue\<close> and \<open>InMemoryNotificationQueue\<close>\<close>

definition memq_push :: "event \<Rightarrow> event list \<Rightarrow> event list" where
  "memq_push e q = q @ [e]"

definition memq_get :: "int \<Rightarrow> int \<Rightarrow> bool \<Rightarrow> event list \<Rightarrow> event list" where
  "memq_get offset limit desc q =
    (if offset < 0 \<or> limit \<le> 0 then []
     else if desc then py_slice (nat offset) (nat (offset + limit)) (rev q)
     else py_slice (nat offset) (nat (offset + limit)) q)"

definition notif_push :: "event \<Rightarrow> event list \<Rightarrow> event list" where
  "notif_push e q = q @ [e]"

definition notif_get_all :: "event list \<Rightarrow> event list" where
  "notif_get_all q = q"

definition notif_clear :: "event list \<Rightarrow> event list" where
  "notif_clear q = []"

section \<open>\<open>RedisEventQueue\<close>\<close>

text \<open>The commands of the Redis server on the list at the queue's key, as parameters.\<close>

record redis =
  rpush :: "string \<Rightarrow> string list \<Rightarrow> string list"
  llen :: "string list \<Rightarrow> int"
  lrange :: "int \<Rightarrow> int \<Rightarrow> string list \<Rightarrow> string list"

text \<open>
  Documented behaviour: \<open>RPUSH\<close> appends, \<open>LLEN\<close> counts, \<open>LRANGE a b\<close> returns the elements from
  \<open>a\<close> to \<open>b\<close>, both included, leaving out what is beyond the end.
\<close>

definition redis_lists :: "redis \<Rightarrow> bool" where
  "redis_lists R \<longleftrightarrow>
    (\<forall>x l. rpush R x l = l @ [x]) \<and> (\<forall>l. llen R l = int (length l))
    \<and> (\<forall>a b l. 0 \<le> a \<longrightarrow> a \<le> b \<longrightarrow> lrange R a b l = take (nat (b - a + 1)) (drop (nat a) l))"

definition redisq_push :: "pydantic \<Rightarrow> redis \<Rightarrow> event \<Rightarrow> string list \<Rightarrow> string list" where
  "redisq_push P R e q = (if \<not> is_domain_event e then q else rpush R (serialize P e) q)"

text \<open>Every text is decoded on its own; one that cannot be decoded is logged and left out.\<close>

fun redisq_decode :: "pydantic \<Rightarrow> sysenv \<Rightarrow> string list \<Rightarrow> ('w, event list) py" where
  "redisq_decode P E [] = retM []"
| "redisq_decode P E (raw # raws) =
    bindM (tryM (bindM (deserialize P E raw) (\<lambda>e. retM [e])) (\<lambda>x. retM [])) (\<lambda>es.
    bindM (redisq_decode P E raws) (\<lambda>es'. retM (es @ es')))"

text \<open>
  A read asks for the length and then for a range: two commands, between which others may push. \<open>q\<close> is the list at the
  first command and \<open>q'\<close> at the second.
\<close>

definition redisq_get_at ::
  "pydantic \<Rightarrow> sysenv \<Rightarrow> redis \<Rightarrow> int \<Rightarrow> int \<Rightarrow> bool \<Rightarrow> string list \<Rightarrow> string list \<Rightarrow> ('w, event list) py" where
  "redisq_get_at P E R offset limit desc q q' =
    (if offset < 0 \<or> limit \<le> 0 then retM []
     else
       (let total = llen R q in
        if total = 0 \<or> offset \<ge> total then retM []
        else
          redisq_decode P E
            (if desc then
               (let start = total - 1 - offset; stop = max (start - limit + 1) 0
                in rev (lrange R stop start q'))
             else
               (let start = offset; stop = offset + limit - 1 in lrange R start stop q'))))"

text \<open>A read of a list that does not change meanwhile.\<close>

definition redisq_get ::
  "pydantic \<Rightarrow> sysenv \<Rightarrow> redis \<Rightarrow> int \<Rightarrow> int \<Rightarrow> bool \<Rightarrow> string list \<Rightarrow> ('w, event list) py" where
  "redisq_get P E R offset limit desc q = redisq_get_at P E R offset limit desc q q"

lemmas redisq_get_defs = redisq_get_def redisq_get_at_def

text \<open>A read that others push into is the read of one list: newest first of the list at the first command, oldest first of
  the list at the second, unless the first already found nothing.\<close>

lemma redisq_get_between:
  assumes "redis_lists R"
  shows "redisq_get_at P E R offset limit desc q (q @ new) =
    redisq_get P E R offset limit desc (if desc \<or> offset \<ge> int (length q) then q else q @ new)"
proof -
  have l: "llen R xs = int (length xs)" and r: "0 \<le> a \<Longrightarrow> a \<le> b \<Longrightarrow>
      lrange R a b xs = take (nat (b - a + 1)) (drop (nat a) xs)" for xs a b
    using assms by (auto simp: redis_lists_def)
  show ?thesis
  proof (cases "0 \<le> offset \<and> 0 < limit \<and> offset < int (length q) \<and> desc")
    case True
    let ?start = "int (length q) - 1 - offset"
    let ?stop = "max (?start - limit + 1) 0"
    have o: "0 \<le> ?stop" "?stop \<le> ?start" using True by auto
    have "nat ?stop \<le> length q" "nat (?start - ?stop + 1) + nat ?stop \<le> length q" using True by linarith+
    then have "lrange R ?stop ?start (q @ new) = lrange R ?stop ?start q" unfolding r [OF o] by simp
    then show ?thesis using True by (simp add: redisq_get_defs Let_def l)
  next
    case False
    then show ?thesis by (auto simp: redisq_get_defs Let_def l)
  qed
qed

section \<open>The contract of an audit queue\<close>

locale event_queue =
  fixes push :: "event \<Rightarrow> 'q \<Rightarrow> 'q"
    and get :: "int \<Rightarrow> int \<Rightarrow> bool \<Rightarrow> 'q \<Rightarrow> event list"
    and contents :: "'q \<Rightarrow> event list"
    and accepts :: "event \<Rightarrow> bool"
    and inv :: "'q \<Rightarrow> bool"
  assumes push_contents: "inv q \<Longrightarrow> contents (push e q) = contents q @ (if accepts e then [e] else [])"
    and push_inv: "inv q \<Longrightarrow> inv (push e q)"
    and get_contents: "inv q \<Longrightarrow> 0 \<le> offset \<Longrightarrow> 0 < limit \<Longrightarrow> get offset limit desc q =
      take (nat limit) (drop (nat offset) (if desc then rev (contents q) else contents q))"
    and get_outside: "offset < 0 \<or> limit \<le> 0 \<Longrightarrow> get offset limit desc q = []"
begin

lemma push_all:
  "inv q \<Longrightarrow> inv (fold push es q) \<and> contents (fold push es q) = contents q @ filter accepts es"
  by (induction es arbitrary: q) (auto simp: push_inv push_contents)

text \<open>The newest event is the first of the descending order, the last of the ascending one.\<close>

lemma newest_first: "inv q \<Longrightarrow> accepts e \<Longrightarrow> 0 < limit \<Longrightarrow> \<exists>es. get 0 limit True (push e q) = e # es"
  by (cases "nat limit") (auto simp: get_contents push_inv push_contents)

text \<open>The pages of a given size, newest first, are together the whole log.\<close>

lemma pages_cover:
  assumes "inv q" and "0 < n" and "length (contents q) \<le> k * n"
  shows "concat (map (\<lambda>p. get (int (p * n)) (int n) True q) [0..<k]) = rev (contents q)"
proof -
  have "concat (map (\<lambda>p. get (int (p * n)) (int n) True q) [0..<j]) = take (j * n) (rev (contents q))" for j
  proof (induction j)
    case (Suc j)
    have "nat (int (j * n)) = j * n" "nat (int n) = n" by (simp_all only: nat_int)
    then have "get (int (j * n)) (int n) True q = take n (drop (j * n) (rev (contents q)))"
      using get_contents [OF assms(1), of "int (j * n)" "int n" True] assms(2) by (simp del: of_nat_mult)
    moreover have "Suc j * n = j * n + n" by simp
    ultimately show ?case using Suc by (simp only: upt_Suc_append le0 map_append concat_append take_add) simp
  qed simp
  then show ?thesis using assms(3) by simp
qed

text \<open>A probe of one event at an offset in the ascending order tells whether a page starts there.\<close>

lemma probe:
  assumes "inv q" and "0 \<le> offset" and "0 < limit"
  shows "get offset 1 False q \<noteq> [] \<longleftrightarrow> get offset limit True q \<noteq> []"
  using get_contents [OF assms(1,2), of 1 False] get_contents [OF assms, of True] assms(2,3) by auto

lemma get_length: "inv q \<Longrightarrow> 0 < limit \<Longrightarrow> length (get offset limit desc q) \<le> nat limit"
  by (cases "0 \<le> offset") (simp_all add: get_contents get_outside)

lemma get_subset: "inv q \<Longrightarrow> set (get offset limit desc q) \<subseteq> set (contents q)"
  by (cases "0 \<le> offset \<and> 0 < limit"; cases desc)
    (auto simp: get_contents get_outside dest!: in_set_takeD in_set_dropD)

end

interpretation memq: event_queue memq_push memq_get "\<lambda>q. q" "\<lambda>e. True" "\<lambda>q. True"
  by unfold_locales (auto simp: memq_push_def memq_get_def py_slice_def nat_add_distrib)

section \<open>The Redis queue keeps the contract\<close>

text \<open>What one stored text decodes to, at a fixed moment, and the events of a list of texts.\<close>

definition redisq_contents :: "pydantic \<Rightarrow> sysenv \<Rightarrow> string list \<Rightarrow> event list" where
  "redisq_contents P E q =
    (case fst (redisq_decode P E q \<lparr>tick = 0\<rparr>) of Inl x \<Rightarrow> [] | Inr es \<Rightarrow> es)"

definition redisq_view :: "pydantic \<Rightarrow> sysenv \<Rightarrow> redis \<Rightarrow> int \<Rightarrow> int \<Rightarrow> bool \<Rightarrow> string list \<Rightarrow> event list" where
  "redisq_view P E R offset limit desc q =
    (case fst (redisq_get P E R offset limit desc q \<lparr>tick = 0\<rparr>) of Inl x \<Rightarrow> [] | Inr es \<Rightarrow> es)"

text \<open>The list holds texts of audit events, and the parameters behave as documented.\<close>

definition redisq_inv :: "pydantic \<Rightarrow> redis \<Rightarrow> string list \<Rightarrow> bool" where
  "redisq_inv P R q \<longleftrightarrow> pydantic_roundtrip P \<and> redis_lists R
    \<and> (\<exists>es. q = map (serialize P) es \<and> (\<forall>e \<in> set es. is_domain_event e))"

lemma redisq_decode_serialized:
  "pydantic_roundtrip P \<Longrightarrow> \<forall>e \<in> set es. is_domain_event e \<Longrightarrow>
    redisq_decode P E (map (serialize P) es) w = (Inr es, w)"
  by (induction es) (simp_all add: run_simps deserialize_serialize)

lemma redisq_contents_serialized:
  "pydantic_roundtrip P \<Longrightarrow> \<forall>e \<in> set es. is_domain_event e \<Longrightarrow>
    redisq_contents P E (map (serialize P) es) = es"
  by (simp add: redisq_contents_def redisq_decode_serialized)

lemma redisq_get_window:
  assumes "redis_lists R" and "0 \<le> offset" and "0 < limit"
  shows "redisq_get P E R offset limit desc q =
    redisq_decode P E (take (nat limit) (drop (nat offset) (if desc then rev q else q)))"
proof (cases "offset \<ge> int (length q)")
  case True
  then have "drop (nat offset) (if desc then rev q else q) = []" by auto
  then show ?thesis using assms True by (auto simp: redisq_get_defs redis_lists_def Let_def)
next
  case False
  have l: "llen R q = int (length q)" and r: "\<And>a b. 0 \<le> a \<Longrightarrow> a \<le> b \<Longrightarrow>
      lrange R a b q = take (nat (b - a + 1)) (drop (nat a) q)"
    using assms(1) by (auto simp: redis_lists_def)
  show ?thesis
  proof (cases desc)
    case True
    let ?start = "int (length q) - 1 - offset"
    let ?stop = "max (?start - limit + 1) 0"
    have ord: "0 \<le> ?stop" "?stop \<le> ?start" using False assms(3) by auto
    have b: "nat (?start - ?stop + 1) = length q - nat offset - nat ?stop" using False assms(2,3) by linarith
    have c: "length q - nat offset - nat ?stop = min (nat limit) (length q - nat offset)" (is "?A = ?B")
      using False assms(2,3) by linarith
    have "rev (lrange R ?stop ?start q) = rev (drop (nat ?stop) (take (length q - nat offset) q))"
      using r [OF ord] b by (simp add: drop_take)
    also have "\<dots> = take (length q - nat offset - nat ?stop) (drop (nat offset) (rev q))"
      using False assms(2) by (simp add: rev_drop rev_take)
    also have "\<dots> = take (nat limit) (drop (nat offset) (rev q))"
      unfolding c by (simp add: take_map [symmetric] min_def)
    finally show ?thesis using True False assms l by (simp add: redisq_get_defs Let_def not_le)
  next
    case d: False
    have "lrange R offset (offset + limit - 1) q = take (nat limit) (drop (nat offset) q)"
      using r [of offset "offset + limit - 1"] assms(2,3) by simp
    then show ?thesis using d False assms l by (simp add: redisq_get_defs Let_def not_le)
  qed
qed

lemma redisq_window:
  assumes "redisq_inv P R q" and "0 \<le> offset" and "0 < limit"
  shows "redisq_get P E R offset limit desc q w =
    (Inr (take (nat limit) (drop (nat offset) (if desc then rev (redisq_contents P E q) else redisq_contents P E q))), w)"
proof -
  from assms(1) obtain es where P: "pydantic_roundtrip P" and R: "redis_lists R"
    and q: "q = map (serialize P) es" "\<forall>e \<in> set es. is_domain_event e"
    by (auto simp: redisq_inv_def)
  let ?es = "take (nat limit) (drop (nat offset) (if desc then rev es else es))"
  have "take (nat limit) (drop (nat offset) (if desc then rev q else q)) = map (serialize P) ?es"
    by (simp add: q(1) take_map drop_map rev_map)
  moreover have "\<forall>e \<in> set ?es. is_domain_event e"
    using q(2) by (auto dest!: in_set_takeD in_set_dropD)
  ultimately have "redisq_get P E R offset limit desc q w = (Inr ?es, w)"
    unfolding redisq_get_window [OF R assms(2,3)] by (simp only: redisq_decode_serialized [OF P])
  then show ?thesis unfolding q(1) redisq_contents_serialized [OF P q(2)] .
qed

interpretation redisq: event_queue "redisq_push P R" "redisq_view P E R" "redisq_contents P E"
  is_domain_event "redisq_inv P R" for P E R
proof unfold_locales
  fix q e assume "redisq_inv P R q"
  then obtain es where P: "pydantic_roundtrip P" and R: "redis_lists R"
    and q: "q = map (serialize P) es" "\<forall>e \<in> set es. is_domain_event e"
    by (auto simp: redisq_inv_def)
  have p: "redisq_push P R e q = map (serialize P) (es @ (if is_domain_event e then [e] else []))"
    using R by (simp add: redisq_push_def redis_lists_def q(1))
  have d: "\<forall>x \<in> set (es @ (if is_domain_event e then [e] else [])). is_domain_event x" using q(2) by auto
  show "redisq_contents P E (redisq_push P R e q) = redisq_contents P E q @ (if is_domain_event e then [e] else [])"
    by (simp only: p redisq_contents_serialized [OF P d]) (simp only: q(1) redisq_contents_serialized [OF P q(2)])
  show "redisq_inv P R (redisq_push P R e q)"
    using P R p d unfolding redisq_inv_def by blast
next
  fix q desc and offset limit :: int
  assume "redisq_inv P R q" and "0 \<le> offset" and "0 < limit"
  then show "redisq_view P E R offset limit desc q =
      take (nat limit) (drop (nat offset) (if desc then rev (redisq_contents P E q) else redisq_contents P E q))"
    by (simp add: redisq_view_def redisq_window)
next
  fix q desc and offset limit :: int
  assume "offset < 0 \<or> limit \<le> 0"
  then show "redisq_view P E R offset limit desc q = []"
    by (simp add: redisq_view_def redisq_get_defs run_simps)
qed

end
