(* ===== verification/App.thy ===== *)
theory App
  imports RepositoryContract EventBus
begin

text \<open>
  What a use case works on: the database, the audit log kept in Redis and the notification
  queue, with the transaction of
  \<^verbatim>\<open>app/adapters/outbound/persistence/sqlalchemy/transaction.py\<close> and the ports as the wiring
  of \<^verbatim>\<open>app/adapters/nexus.py\<close> binds them.
\<close>

record app_world = world +
  db :: database
  event_log :: "string list"
  notifications :: "event list"

type_synonym 'a app = "(app_world, exn, 'a) prog"

text \<open>The surroundings, the settings, and the behaviour of pydantic and of the Redis server.\<close>

record env =
  sys :: sysenv
  cfg :: settings
  pyd :: pydantic
  red :: redis

section \<open>Ports\<close>

text \<open>A read and a write of a repository.\<close>

definition readM :: "(database \<Rightarrow> exn + 'a) \<Rightarrow> 'a app" where
  "readM f = (\<lambda>w. (f (db w), w))"

definition writeM :: "(database \<Rightarrow> exn + ('a \<times> database)) \<Rightarrow> 'a app" where
  "writeM f = (\<lambda>w. case f (db w) of Inl e \<Rightarrow> (Inl e, w) | Inr (a, d) \<Rightarrow> (Inr a, w\<lparr>db := d\<rparr>))"

text \<open>
  \<open>async with self.tx\<close>: the body's writes are committed if it ends normally and rolled back
  if it raises; the exception goes on.
\<close>

definition with_tx :: "'a app \<Rightarrow> 'a app" where
  "with_tx m = (\<lambda>w. case m w of (Inl e, w') \<Rightarrow> (Inl e, w'\<lparr>db := db w\<rparr>) | (Inr a, w') \<Rightarrow> (Inr a, w'))"

definition push_event :: "env \<Rightarrow> event \<Rightarrow> unit app" where
  "push_event V e = modifyM (\<lambda>w. w\<lparr>event_log := redisq_push (pyd V) (red V) e (event_log w)\<rparr>)"

definition push_notification :: "event \<Rightarrow> unit app" where
  "push_notification e = modifyM (\<lambda>w. w\<lparr>notifications := notif_push e (notifications w)\<rparr>)"

definition publish_events :: "env \<Rightarrow> event list \<Rightarrow> unit app" where
  "publish_events V es = publish (push_event V) push_notification es"

lemma run_readM [run_simps]: "readM f w = (f (db w), w)"
  by (simp add: readM_def)

lemma run_writeM [run_simps]:
  "writeM f w = (case f (db w) of Inl e \<Rightarrow> (Inl e, w) | Inr (a, d) \<Rightarrow> (Inr a, w\<lparr>db := d\<rparr>))"
  by (simp add: writeM_def)

section \<open>Publishing\<close>

lemma run_publish_events [run_simps]:
  "publish_events V es w =
    (Inr (), w\<lparr>event_log := fold (redisq_push (pyd V) (red V)) (filter (\<lambda>e. \<not> is_notification_event e) es) (event_log w),
       notifications := notifications w @ filter is_notification_event es\<rparr>)"
  by (induction es arbitrary: w)
    (simp_all add: publish_events_def push_event_def push_notification_def notif_push_def run_simps)

text \<open>The audit log as events, and the condition under which it can be read back.\<close>

definition audit :: "env \<Rightarrow> app_world \<Rightarrow> event list" where
  "audit V w = redisq_contents (pyd V) (sys V) (event_log w)"

definition log_inv :: "env \<Rightarrow> app_world \<Rightarrow> bool" where
  "log_inv V w \<longleftrightarrow> redisq_inv (pyd V) (red V) (event_log w)"

lemma publish_audit:
  assumes "log_inv V w" and "publish_events V es w = (r, w')"
  shows "log_inv V w'" and "audit V w' = audit V w @ filter is_domain_event es"
    and "notifications w' = notifications w @ filter is_notification_event es"
    and "db w' = db w" and "r = Inr ()"
proof -
  have f: "filter is_domain_event (filter (\<lambda>e. \<not> is_notification_event e) es) = filter is_domain_event es"
    using event_kinds(2) by (induction es) auto
  from assms(2) have w': "event_log w' =
      fold (redisq_push (pyd V) (red V)) (filter (\<lambda>e. \<not> is_notification_event e) es) (event_log w)"
    by (auto simp: run_simps)
  note p = redisq.push_all [OF assms(1) [unfolded log_inv_def], where es = "filter (\<lambda>e. \<not> is_notification_event e) es"]
  show "log_inv V w'" and "audit V w' = audit V w @ filter is_domain_event es"
    using p unfolding log_inv_def audit_def w' f by simp_all
  show "notifications w' = notifications w @ filter is_notification_event es" and "db w' = db w" and "r = Inr ()"
    using assms(2) by (auto simp: run_simps)
qed

lemma log_inv_cong: "event_log w = event_log w' \<Longrightarrow> log_inv V w = log_inv V w'"
  "event_log w = event_log w' \<Longrightarrow> audit V w = audit V w'"
  by (simp_all add: log_inv_def audit_def)

section \<open>Transactions\<close>

text \<open>Inside a transaction a program moves the moment and the database, nothing else.\<close>

definition tx_local :: "'a app \<Rightarrow> bool" where
  "tx_local m \<longleftrightarrow> (\<forall>w. \<exists>n d. snd (m w) = w\<lparr>tick := n, db := d\<rparr>)"

named_theorems tx_intros "rules that show that a program stays inside the transaction"

lemma tx_localD: "tx_local m \<Longrightarrow> m w = (r, w') \<Longrightarrow> event_log w' = event_log w \<and> notifications w' = notifications w"
proof -
  assume "tx_local m" and m: "m w = (r, w')"
  then obtain n d where "snd (m w) = w\<lparr>tick := n, db := d\<rparr>" unfolding tx_local_def by blast
  with m show ?thesis by simp
qed

lemma tx_local_only_ticks [tx_intros]: "only_ticks m \<Longrightarrow> tx_local m"
  unfolding tx_local_def
proof
  fix w :: app_world
  assume "only_ticks m"
  from only_ticks_snd [OF this] obtain n where "snd (m w) = w\<lparr>tick := n\<rparr>" by blast
  then have "snd (m w) = w\<lparr>tick := n, db := db w\<rparr>" by simp
  then show "\<exists>n d. snd (m w) = w\<lparr>tick := n, db := d\<rparr>" by blast
qed

lemma tx_local_readM [tx_intros]: "tx_local (readM f)"
  unfolding tx_local_def
proof
  fix w :: app_world
  have "snd (readM f w) = w\<lparr>tick := tick w, db := db w\<rparr>" by (simp add: run_simps)
  then show "\<exists>n d. snd (readM f w) = w\<lparr>tick := n, db := d\<rparr>" by blast
qed

lemma tx_local_writeM [tx_intros]: "tx_local (writeM f)"
  unfolding tx_local_def
proof
  fix w :: app_world
  have "snd (writeM f w) = w\<lparr>tick := tick w, db := db (snd (writeM f w))\<rparr>"
    by (simp add: run_simps split: sum.split)
  then show "\<exists>n d. snd (writeM f w) = w\<lparr>tick := n, db := d\<rparr>" by blast
qed

lemma tx_local_bindM [tx_intros]:
  assumes "tx_local m" and "\<And>a. tx_local (f a)"
  shows "tx_local (bindM m f)"
  unfolding tx_local_def
proof
  fix w :: app_world
  obtain r w1 where r: "m w = (r, w1)" by fastforce
  with assms(1) obtain n d where w1: "w1 = w\<lparr>tick := n, db := d\<rparr>" unfolding tx_local_def by (metis snd_conv)
  show "\<exists>n d. snd (bindM m f w) = w\<lparr>tick := n, db := d\<rparr>"
  proof (cases r)
    case (Inl e)
    then show ?thesis using r w1 by (auto simp: bindM_def)
  next
    case (Inr a)
    obtain n' d' where "snd (f a w1) = w1\<lparr>tick := n', db := d'\<rparr>"
      using assms(2) [of a] unfolding tx_local_def by blast
    then have "snd (bindM m f w) = w\<lparr>tick := n', db := d'\<rparr>" using r w1 Inr by (simp add: bindM_def)
    then show ?thesis by blast
  qed
qed

lemma tx_local_case_option [tx_intros]:
  "tx_local m \<Longrightarrow> (\<And>a. tx_local (f a)) \<Longrightarrow> tx_local (case r of None \<Rightarrow> m | Some a \<Rightarrow> f a)"
  by (cases r) auto

lemma tx_local_case_prod [tx_intros]:
  "(\<And>a b. tx_local (f a b)) \<Longrightarrow> tx_local (case p of (a, b) \<Rightarrow> f a b)"
  by (cases p) auto

text \<open>A transaction that raises leaves the database, the log and the notifications as they were.\<close>

lemma with_tx_Inl:
  assumes "tx_local m" and "with_tx m w = (Inl e, w')"
  shows "db w' = db w \<and> event_log w' = event_log w \<and> notifications w' = notifications w"
proof -
  from assms(2) obtain w1 where "m w = (Inl e, w1)" and "w' = w1\<lparr>db := db w\<rparr>"
    by (auto simp: with_tx_def split: prod.splits sum.splits)
  with tx_localD [OF assms(1)] show ?thesis by fastforce
qed

lemma with_tx_Inr: "with_tx m w = (Inr a, w') \<longleftrightarrow> m w = (Inr a, w')"
  by (auto simp: with_tx_def split: prod.splits sum.splits)

lemma keeps_with_tx:
  assumes "keeps (\<lambda>w. P (db w)) m"
  shows "keeps (\<lambda>w. P (db w)) (with_tx m)"
proof (rule keepsI)
  fix w :: app_world assume "P (db w)"
  then have "P (db (snd (m w)))" using keepsD [OF assms] by blast
  then show "P (db (snd (with_tx m w)))"
    using \<open>P (db w)\<close> by (cases "m w"; cases "fst (m w)") (auto simp: with_tx_def)
qed

lemma keeps_db_only_ticks: "only_ticks m \<Longrightarrow> keeps (\<lambda>w :: app_world. P (db w)) m"
proof (rule keepsI)
  fix w :: app_world
  assume m: "only_ticks m" and P: "P (db w)"
  from only_ticks_snd [OF m] obtain n where "snd (m w) = w\<lparr>tick := n\<rparr>" by blast
  with P show "P (db (snd (m w)))" by simp
qed

lemma keeps_db_readM [keeps_intros]: "keeps (\<lambda>w. P (db w)) (readM f)"
  by (rule keepsI) (simp add: run_simps)

lemma keeps_db_writeM:
  assumes "\<And>a d d'. P d \<Longrightarrow> f d = Inr (a, d') \<Longrightarrow> P d'"
  shows "keeps (\<lambda>w. P (db w)) (writeM f)"
  by (rule keepsI) (use assms in \<open>auto simp: run_simps split: sum.split\<close>)

lemma keeps_db_publish: "keeps (\<lambda>w. P (db w)) (publish_events V es)"
  by (rule keepsI) (simp add: run_simps)

end
