(* ===== verification/UseCases.thy ===== *)
theory UseCases
  imports App
begin

text \<open>
  \<^verbatim>\<open>app/application/cases/user\<close>: the \<open>execute\<close> methods of the eight use cases. Each is its
  transaction, which returns the events and the answer, followed by the publication of the
  events outside it.
\<close>

section \<open>Registration and email verification\<close>

definition register_tx :: "env \<Rightarrow> pyval \<Rightarrow> pyval \<Rightarrow> event list app" where
  "register_tx V email password =
    bindM (readM (user_get_by_email email)) (\<lambda>found.
    bindM (raise_if (case found of None \<Rightarrow> False | Some u \<Rightarrow> u_is_email_verified u)
      (mk_error UserAlreadyExists None)) (\<lambda>_.
    bindM (case found of None \<Rightarrow> user_create (sys V) email password | Some u \<Rightarrow> retM u) (\<lambda>user.
    bindM (request_verification (sys V) user (email_token_len (cfg V)) (email_token_exp (cfg V))) (\<lambda>(user, ott, token).
    case user_pull_domain_events user of (events, user) \<Rightarrow>
    bindM (writeM (user_save user)) (\<lambda>user.
    bindM (writeM (ott_save ott)) (\<lambda>ott.
    retM events))))))"

definition register_execute :: "env \<Rightarrow> pyval \<Rightarrow> pyval \<Rightarrow> unit app" where
  "register_execute V email password =
    bindM (with_tx (register_tx V email password)) (\<lambda>events. publish_events V events)"

definition verify_email_tx :: "env \<Rightarrow> pyval \<Rightarrow> event list app" where
  "verify_email_tx V one_time_token =
    bindM (readM (ott_get_by_string one_time_token)) (\<lambda>found.
    case found of
      None \<Rightarrow> raiseM (mk_error OneTimeTokenNotFound (Some ''Invalid token''))
    | Some ott \<Rightarrow>
        bindM (readM (user_get_by_id (o_user_id ott))) (\<lambda>found.
        case found of
          None \<Rightarrow> raiseM (mk_error UserNotFound None)
        | Some user \<Rightarrow>
            bindM (ott_use (sys V) ott VERIFY_EMAIL) (\<lambda>ott.
            bindM (verify_email (sys V) user) (\<lambda>user.
            case user_pull_domain_events user of (events, user) \<Rightarrow>
            bindM (writeM (user_save user)) (\<lambda>user.
            bindM (writeM (ott_save ott)) (\<lambda>ott.
            retM events))))))"

definition verify_email_execute :: "env \<Rightarrow> pyval \<Rightarrow> unit app" where
  "verify_email_execute V one_time_token =
    bindM (with_tx (verify_email_tx V one_time_token)) (\<lambda>events. publish_events V events)"

section \<open>Sessions\<close>

text \<open>\<open>TokenPairDTO\<close>\<close>

record token_pair =
  access_token :: string
  refresh_token :: string

definition login_tx ::
  "env \<Rightarrow> string \<Rightarrow> string \<Rightarrow> string option \<Rightarrow> string option \<Rightarrow> string option \<Rightarrow> (event list \<times> token_pair) app" where
  "login_tx V email password client_ip user_agent location =
    bindM (readM (user_get_by_email (PyStr email))) (\<lambda>found.
    case found of
      None \<Rightarrow> raiseM (mk_error UserNotFound (Some ''User does not exist''))
    | Some user \<Rightarrow>
        bindM (assert_can_login (sys V) user password) (\<lambda>_.
        bindM (access_token_issue (sys V) (cfg V) (u_id user) (access_token_exp (cfg V))) (\<lambda>access.
        bindM (rt_create (sys V) (u_id user) (refresh_token_len (cfg V)) (refresh_token_exp (cfg V))
          location client_ip user_agent) (\<lambda>(rt, refresh).
        case user_pull_domain_events user of (events1, user) \<Rightarrow>
        case rt_pull_domain_events rt of (events2, rt) \<Rightarrow>
        bindM (writeM (user_save user)) (\<lambda>user.
        bindM (writeM (rt_save rt)) (\<lambda>rt.
        retM (events1 @ events2, \<lparr>access_token = access, refresh_token = refresh\<rparr>)))))))"

definition login_execute ::
  "env \<Rightarrow> string \<Rightarrow> string \<Rightarrow> string option \<Rightarrow> string option \<Rightarrow> string option \<Rightarrow> token_pair app" where
  "login_execute V email password client_ip user_agent location =
    bindM (with_tx (login_tx V email password client_ip user_agent location)) (\<lambda>(events, pair).
    bindM (publish_events V events) (\<lambda>_. retM pair))"

definition refresh_tx :: "env \<Rightarrow> string \<Rightarrow> (event list \<times> token_pair) app" where
  "refresh_tx V token =
    bindM (readM (rt_get_by_string token)) (\<lambda>found.
    case found of
      None \<Rightarrow> raiseM (mk_error RefreshTokenNotFound None)
    | Some rt \<Rightarrow>
        bindM (rt_use (sys V) rt) (\<lambda>rt.
        bindM (rotate (sys V) rt (refresh_token_len (cfg V)) (refresh_token_exp (cfg V))
          (access_token_exp (cfg V)) (access_token_issue (sys V) (cfg V))) (\<lambda>(rt, new_rt, refresh, access).
        case rt_pull_domain_events rt of (events1, rt) \<Rightarrow>
        case rt_pull_domain_events new_rt of (events2, new_rt) \<Rightarrow>
        bindM (writeM (rt_save rt)) (\<lambda>rt.
        bindM (writeM (rt_save new_rt)) (\<lambda>new_rt.
        retM (events1 @ events2, \<lparr>access_token = access, refresh_token = refresh\<rparr>))))))"

text \<open>The transaction of the handler of \<open>RefreshTokenReuse\<close>.\<close>

definition reuse_tx ::
  "env \<Rightarrow> string \<Rightarrow> string option \<Rightarrow> string option \<Rightarrow> string option \<Rightarrow> event list app" where
  "reuse_tx V token client_ip user_agent location =
    bindM (readM (rt_get_by_string token)) (\<lambda>found.
    case found of
      None \<Rightarrow> retM []
    | Some rt \<Rightarrow>
        bindM (mk_event (sys V) (\<lambda>ts.
          RefreshTokenReuseDetected ts (r_user_id rt) (r_id rt) client_ip user_agent location)) (\<lambda>e.
        retM [e]))"

text \<open>
  On success the answer is returned from inside the \<open>try\<close>, before any publication. Only
  \<open>rt.use()\<close> raises \<open>RefreshTokenReuse\<close>, at which point the list of events is still empty.
\<close>

definition refresh_execute ::
  "env \<Rightarrow> string \<Rightarrow> string option \<Rightarrow> string option \<Rightarrow> string option \<Rightarrow> token_pair app" where
  "refresh_execute V token client_ip user_agent location =
    tryM
      (bindM (with_tx (refresh_tx V token)) (\<lambda>(events, pair). retM pair))
      (\<lambda>e. if isinstance e RefreshTokenReuse then
             bindM (with_tx (reuse_tx V token client_ip user_agent location)) (\<lambda>events.
             bindM (publish_events V events) (\<lambda>_. raiseM e))
           else raiseM e)"

definition revoke_tx ::
  "env \<Rightarrow> string \<Rightarrow> string option \<Rightarrow> string option \<Rightarrow> string option \<Rightarrow> event list app" where
  "revoke_tx V token client_ip user_agent location =
    bindM (readM (rt_get_by_string token)) (\<lambda>found.
    case found of
      None \<Rightarrow> raiseM (mk_error RefreshTokenNotFound None)
    | Some rt \<Rightarrow>
        bindM (rt_revoke (sys V) rt) (\<lambda>rt.
        let security_threat = assess_risk (r_client_ip rt) (r_user_agent rt) (r_location rt)
              client_ip user_agent location in
        bindM (if security_threat \<noteq> 0 then
             bindM (mk_event (sys V) (\<lambda>ts.
               SuspiciousRefreshTokenRevocation ts (r_user_id rt) (r_id rt) client_ip user_agent location)) (\<lambda>e.
             retM [e])
           else retM []) (\<lambda>events1.
        case rt_pull_domain_events rt of (events2, rt) \<Rightarrow>
        bindM (writeM (rt_save rt)) (\<lambda>rt.
        retM (events1 @ events2)))))"

definition revoke_execute ::
  "env \<Rightarrow> string \<Rightarrow> string option \<Rightarrow> string option \<Rightarrow> string option \<Rightarrow> unit app" where
  "revoke_execute V token client_ip user_agent location =
    bindM (with_tx (revoke_tx V token client_ip user_agent location)) (\<lambda>events. publish_events V events)"

section \<open>Passwords\<close>

definition change_password_tx :: "env \<Rightarrow> string \<Rightarrow> string \<Rightarrow> string \<Rightarrow> event list app" where
  "change_password_tx V access old new =
    bindM (access_token_verify (sys V) (cfg V) access) (\<lambda>user_id.
    bindM (readM (user_get_by_id user_id)) (\<lambda>found.
    case found of
      None \<Rightarrow> raiseM (mk_error UserNotFound None)
    | Some user \<Rightarrow>
        bindM (change_password (sys V) user old new) (\<lambda>user.
        case user_pull_domain_events user of (events, user) \<Rightarrow>
        bindM (writeM (user_save user)) (\<lambda>user.
        retM events))))"

definition change_password_execute :: "env \<Rightarrow> string \<Rightarrow> string \<Rightarrow> string \<Rightarrow> unit app" where
  "change_password_execute V access old new =
    bindM (with_tx (change_password_tx V access old new)) (\<lambda>events. publish_events V events)"

definition recover_request_tx :: "env \<Rightarrow> pyval \<Rightarrow> event list app" where
  "recover_request_tx V email =
    bindM (readM (user_get_by_email email)) (\<lambda>found.
    case found of
      None \<Rightarrow> raiseM (mk_error UserNotFound None)
    | Some user \<Rightarrow>
        bindM (recover_request_service (sys V) user (password_recover_token_len (cfg V))
          (password_recover_token_exp (cfg V))) (\<lambda>(user, ott, token).
        case user_pull_domain_events user of (events, user) \<Rightarrow>
        bindM (writeM (user_save user)) (\<lambda>user.
        bindM (writeM (ott_save ott)) (\<lambda>ott.
        retM events))))"

definition recover_request_execute :: "env \<Rightarrow> pyval \<Rightarrow> unit app" where
  "recover_request_execute V email =
    bindM (with_tx (recover_request_tx V email)) (\<lambda>events. publish_events V events)"

definition recover_tx :: "env \<Rightarrow> pyval \<Rightarrow> pyval \<Rightarrow> event list app" where
  "recover_tx V token password =
    bindM (readM (ott_get_by_string token)) (\<lambda>found.
    case found of
      None \<Rightarrow> raiseM (mk_error OneTimeTokenNotFound (Some ''Password recover token not found''))
    | Some ott \<Rightarrow>
        bindM (readM (user_get_by_id (o_user_id ott))) (\<lambda>found.
        case found of
          None \<Rightarrow> raiseM (mk_error UserNotFound None)
        | Some user \<Rightarrow>
            bindM (recover_password (sys V) user password) (\<lambda>user.
            bindM (ott_use (sys V) ott RECOVER_PASSWORD) (\<lambda>ott.
            case user_pull_domain_events user of (events, user) \<Rightarrow>
            bindM (writeM (user_save user)) (\<lambda>user.
            bindM (writeM (ott_save ott)) (\<lambda>ott.
            retM events))))))"

definition recover_execute :: "env \<Rightarrow> pyval \<Rightarrow> pyval \<Rightarrow> unit app" where
  "recover_execute V token password =
    bindM (with_tx (recover_tx V token password)) (\<lambda>events. publish_events V events)"

lemmas tx_defs =
  register_tx_def verify_email_tx_def login_tx_def refresh_tx_def reuse_tx_def revoke_tx_def
  change_password_tx_def recover_request_tx_def recover_tx_def

lemmas execute_defs =
  register_execute_def verify_email_execute_def login_execute_def refresh_execute_def
  revoke_execute_def change_password_execute_def recover_request_execute_def recover_execute_def

section \<open>The transactions touch only the database\<close>

lemma tx_local_cases [tx_intros]:
  "tx_local (register_tx V em pw)" "tx_local (verify_email_tx V t)"
  "tx_local (login_tx V m p ip ua loc)" "tx_local (refresh_tx V s)"
  "tx_local (reuse_tx V s ip ua loc)" "tx_local (revoke_tx V s ip ua loc)"
  "tx_local (change_password_tx V a p q)" "tx_local (recover_request_tx V em)"
  "tx_local (recover_tx V t pw)"
  unfolding tx_defs Let_def by (intro tx_intros ticks_intros)+

end
