(* ===== verification/AuthSpec.thy ===== *)
theory AuthSpec
  imports RepositoryContract
begin

text \<open>
  The abstract specification of the service: the stored users, one-time tokens and refresh
  tokens by key, and the steps that the service may make on them. No tables, versions checks,
  random sources, hashing or events; what the steps promise is stated and proved here once, and
  the use cases refine it in the theory \<open>UseCaseRefinement\<close>.
\<close>

record store =
  st_users :: "uuid \<rightharpoonup> user"
  st_otts :: "uuid \<rightharpoonup> ott"
  st_rts :: "uuid \<rightharpoonup> rtoken"

definition abs_store :: "database \<Rightarrow> store" where
  "abs_store d = \<lparr>st_users = user_lookup d, st_otts = ott_lookup d, st_rts = rt_lookup d\<rparr>"

lemma abs_store_sel [simp]:
  "st_users (abs_store d) = user_lookup d" "st_otts (abs_store d) = ott_lookup d" "st_rts (abs_store d) = rt_lookup d"
  by (simp_all add: abs_store_def)

section \<open>The steps\<close>

text \<open>A one-time token that has just been issued, and a refresh token that has just been created.\<close>

definition fresh_ott :: "ott \<Rightarrow> bool" where
  "fresh_ott t \<longleftrightarrow> \<not> o_used t \<and> length (o_token_hash t) = 64 \<and> o_version t = Some 1"

definition fresh_rt :: "rtoken \<Rightarrow> bool" where
  "fresh_rt t \<longleftrightarrow> r_revoked_at t = None \<and> r_replaced_by_id t = None \<and> length (r_token_hash t) = 64
    \<and> r_version t = Some 1"

definition fresh_user :: "user \<Rightarrow> bool" where
  "fresh_user u \<longleftrightarrow> u_active u \<and> \<not> u_is_email_verified u \<and> u_events u = [] \<and> u_version u = Some 1
    \<and> validate_email (PyStr (u_email u)) = Inr (u_email u)"

text \<open>A one-time token for this purpose may be issued to this user.\<close>

definition may_issue :: "ott_purpose \<Rightarrow> user \<Rightarrow> bool" where
  "may_issue p u \<longleftrightarrow> (case p of VERIFY_EMAIL \<Rightarrow> \<not> u_is_email_verified u | RECOVER_PASSWORD \<Rightarrow> u_is_email_verified u)"

inductive spec_step :: "store \<Rightarrow> store \<Rightarrow> bool" where
  spec_register:
  "st_users S (u_id u) = None \<Longrightarrow> \<forall>v \<in> ran (st_users S). u_email v \<noteq> u_email u \<Longrightarrow> fresh_user u \<Longrightarrow>
    st_otts S (o_id t) = None \<Longrightarrow> o_user_id t = u_id u \<Longrightarrow> o_purpose t = VERIFY_EMAIL \<Longrightarrow> fresh_ott t \<Longrightarrow>
    spec_step S (S\<lparr>st_users := (st_users S)(u_id u \<mapsto> u), st_otts := (st_otts S)(o_id t \<mapsto> t)\<rparr>)"
| spec_issue:
  "st_users S (u_id u) = Some u \<Longrightarrow> may_issue (o_purpose t) u \<Longrightarrow>
    st_otts S (o_id t) = None \<Longrightarrow> o_user_id t = u_id u \<Longrightarrow> fresh_ott t \<Longrightarrow>
    spec_step S (S\<lparr>st_users := (st_users S)(u_id u \<mapsto> user_stored u), st_otts := (st_otts S)(o_id t \<mapsto> t)\<rparr>)"
| spec_verify:
  "st_otts S (o_id t) = Some t \<Longrightarrow> o_purpose t = VERIFY_EMAIL \<Longrightarrow> \<not> o_used t \<Longrightarrow>
    st_users S (o_user_id t) = Some u \<Longrightarrow> \<not> u_is_email_verified u \<Longrightarrow>
    spec_step S (S\<lparr>st_users := (st_users S)(o_user_id t \<mapsto> user_stored (u\<lparr>u_is_email_verified := True\<rparr>)),
      st_otts := (st_otts S)(o_id t \<mapsto> ott_stored (t\<lparr>o_used := True\<rparr>))\<rparr>)"
| spec_login:
  "st_users S (u_id u) = Some u \<Longrightarrow> u_active u \<Longrightarrow> u_is_email_verified u \<Longrightarrow>
    st_rts S (r_id t) = None \<Longrightarrow> r_user_id t = u_id u \<Longrightarrow> fresh_rt t \<Longrightarrow>
    spec_step S (S\<lparr>st_users := (st_users S)(u_id u \<mapsto> user_stored u), st_rts := (st_rts S)(r_id t \<mapsto> t)\<rparr>)"
| spec_rotate:
  "st_rts S (r_id t) = Some t \<Longrightarrow> r_revoked_at t = None \<Longrightarrow> r_replaced_by_id t = None \<Longrightarrow>
    st_rts S (r_id n) = None \<Longrightarrow> r_user_id n = r_user_id t \<Longrightarrow> fresh_rt n \<Longrightarrow>
    spec_step S (S\<lparr>st_rts := (st_rts S)
      (r_id t \<mapsto> rt_stored (t\<lparr>r_revoked_at := Some now, r_replaced_by_id := Some (r_id n)\<rparr>), r_id n \<mapsto> n)\<rparr>)"
| spec_revoke:
  "st_rts S (r_id t) = Some t \<Longrightarrow> r_revoked_at t = None \<Longrightarrow>
    spec_step S (S\<lparr>st_rts := (st_rts S)(r_id t \<mapsto> rt_stored (t\<lparr>r_revoked_at := Some now\<rparr>))\<rparr>)"
| spec_change_password:
  "st_users S (u_id u) = Some u \<Longrightarrow>
    spec_step S (S\<lparr>st_users := (st_users S)(u_id u \<mapsto> user_stored (u\<lparr>u_password_hash := h\<rparr>))\<rparr>)"
| spec_recover:
  "st_otts S (o_id t) = Some t \<Longrightarrow> o_purpose t = RECOVER_PASSWORD \<Longrightarrow> \<not> o_used t \<Longrightarrow>
    st_users S (o_user_id t) = Some u \<Longrightarrow>
    spec_step S (S\<lparr>st_users := (st_users S)(o_user_id t \<mapsto> user_stored (u\<lparr>u_password_hash := h\<rparr>)),
      st_otts := (st_otts S)(o_id t \<mapsto> ott_stored (t\<lparr>o_used := True\<rparr>))\<rparr>)"

lemmas stored_defs = user_stored_def ott_stored_def rt_stored_def
lemmas fresh_defs = fresh_ott_def fresh_rt_def fresh_user_def may_issue_def

section \<open>What no step undoes\<close>

text \<open>
  A user keeps id, address and creation time, a verified address stays verified; a one-time
  token stays used; a refresh token stays revoked and keeps its successor. Versions grow.
\<close>

definition ver_le :: "int option \<Rightarrow> int option \<Rightarrow> bool" where
  "ver_le a b \<longleftrightarrow> (\<forall>v. a = Some v \<longrightarrow> (\<exists>v'. b = Some v' \<and> v \<le> v'))"

definition user_le :: "user \<Rightarrow> user \<Rightarrow> bool" where
  "user_le u u' \<longleftrightarrow> u_id u' = u_id u \<and> u_email u' = u_email u \<and> u_created_at u' = u_created_at u
    \<and> u_active u' = u_active u \<and> (u_is_email_verified u \<longrightarrow> u_is_email_verified u')
    \<and> ver_le (u_version u) (u_version u')"

definition ott_le :: "ott \<Rightarrow> ott \<Rightarrow> bool" where
  "ott_le t t' \<longleftrightarrow> o_id t' = o_id t \<and> o_user_id t' = o_user_id t \<and> o_token_hash t' = o_token_hash t
    \<and> o_expires_at t' = o_expires_at t \<and> o_purpose t' = o_purpose t \<and> (o_used t \<longrightarrow> o_used t')
    \<and> ver_le (o_version t) (o_version t')"

definition rt_le :: "rtoken \<Rightarrow> rtoken \<Rightarrow> bool" where
  "rt_le t t' \<longleftrightarrow> r_id t' = r_id t \<and> r_user_id t' = r_user_id t \<and> r_token_hash t' = r_token_hash t
    \<and> r_expires_at t' = r_expires_at t \<and> r_created_at t' = r_created_at t
    \<and> (r_revoked_at t \<noteq> None \<longrightarrow> r_revoked_at t' = r_revoked_at t)
    \<and> (r_replaced_by_id t \<noteq> None \<longrightarrow> r_replaced_by_id t' = r_replaced_by_id t)
    \<and> ver_le (r_version t) (r_version t')"

definition map_le_by :: "('a \<Rightarrow> 'a \<Rightarrow> bool) \<Rightarrow> ('k \<rightharpoonup> 'a) \<Rightarrow> ('k \<rightharpoonup> 'a) \<Rightarrow> bool" where
  "map_le_by le m m' \<longleftrightarrow> (\<forall>k a. m k = Some a \<longrightarrow> (\<exists>a'. m' k = Some a' \<and> le a a'))"

definition store_le :: "store \<Rightarrow> store \<Rightarrow> bool" where
  "store_le S S' \<longleftrightarrow> map_le_by user_le (st_users S) (st_users S')
    \<and> map_le_by ott_le (st_otts S) (st_otts S') \<and> map_le_by rt_le (st_rts S) (st_rts S')"

lemma ver_le_refl [simp]: "ver_le a a"
  by (simp add: ver_le_def)

lemma ver_le_bump [simp]: "ver_le a (Some (case a of None \<Rightarrow> 1 | Some v \<Rightarrow> v + 1))"
  by (auto simp: ver_le_def)

lemma ver_le_trans: "ver_le a b \<Longrightarrow> ver_le b c \<Longrightarrow> ver_le a c"
  by (fastforce simp: ver_le_def)

lemma entity_le_refl [simp]: "user_le u u" "ott_le t t" "rt_le r r"
  by (simp_all add: user_le_def ott_le_def rt_le_def)

lemma entity_le_trans:
  "user_le u v \<Longrightarrow> user_le v x \<Longrightarrow> user_le u x"
  "ott_le t t1 \<Longrightarrow> ott_le t1 t2 \<Longrightarrow> ott_le t t2"
  "rt_le r r1 \<Longrightarrow> rt_le r1 r2 \<Longrightarrow> rt_le r r2"
  by (auto simp: user_le_def ott_le_def rt_le_def dest: ver_le_trans)

lemma stored_le [simp]:
  "user_le u (user_stored u)" "user_le u (user_stored (u\<lparr>u_is_email_verified := True\<rparr>))"
  "user_le u (user_stored (u\<lparr>u_password_hash := h\<rparr>))" "ott_le t (ott_stored (t\<lparr>o_used := True\<rparr>))"
  by (simp_all add: user_le_def ott_le_def stored_defs)

lemma rt_stored_le [simp]:
  "r_revoked_at t = None \<Longrightarrow> rt_le t (rt_stored (t\<lparr>r_revoked_at := Some now\<rparr>))"
  "r_revoked_at t = None \<Longrightarrow> r_replaced_by_id t = None \<Longrightarrow>
    rt_le t (rt_stored (t\<lparr>r_revoked_at := Some now, r_replaced_by_id := Some j\<rparr>))"
  by (simp_all add: rt_le_def stored_defs)

lemma map_le_by_refl [simp]: "(\<And>a. le a a) \<Longrightarrow> map_le_by le m m"
  by (simp add: map_le_by_def)

lemma map_le_by_upd:
  "map_le_by le m m' \<Longrightarrow> (\<And>a. m k = Some a \<Longrightarrow> le a b) \<Longrightarrow> map_le_by le m (m'(k \<mapsto> b))"
  by (auto simp: map_le_by_def)

lemma map_le_by_trans:
  "(\<And>a b c. le a b \<Longrightarrow> le b c \<Longrightarrow> le a c) \<Longrightarrow> map_le_by le m m1 \<Longrightarrow> map_le_by le m1 m2 \<Longrightarrow> map_le_by le m m2"
  unfolding map_le_by_def by meson

lemma store_le_refl [simp]: "store_le S S"
  by (simp add: store_le_def)

lemma store_le_trans: "store_le S S1 \<Longrightarrow> store_le S1 S2 \<Longrightarrow> store_le S S2"
  unfolding store_le_def
  by (blast intro: map_le_by_trans [of user_le] map_le_by_trans [of ott_le] map_le_by_trans [of rt_le]
      entity_le_trans)

lemma spec_step_le: "spec_step S S' \<Longrightarrow> store_le S S'"
  by (induction rule: spec_step.induct)
    (auto simp: store_le_def intro!: map_le_by_upd)

section \<open>Invariants of the specification\<close>

definition users_inv :: "(uuid \<rightharpoonup> user) \<Rightarrow> bool" where
  "users_inv U \<longleftrightarrow> (\<forall>i u. U i = Some u \<longrightarrow> u_id u = i \<and> validate_email (PyStr (u_email u)) = Inr (u_email u))
    \<and> (\<forall>i j u v. U i = Some u \<longrightarrow> U j = Some v \<longrightarrow> u_email u = u_email v \<longrightarrow> i = j)"

text \<open>A one-time token belongs to a user; one that was used, or that recovers a password, to a verified one.\<close>

definition ott_ok :: "(uuid \<rightharpoonup> user) \<Rightarrow> uuid \<Rightarrow> ott \<Rightarrow> bool" where
  "ott_ok U k t \<longleftrightarrow> o_id t = k \<and> length (o_token_hash t) = 64
    \<and> (\<exists>u. U (o_user_id t) = Some u \<and> (o_used t \<or> o_purpose t = RECOVER_PASSWORD \<longrightarrow> u_is_email_verified u))"

text \<open>A refresh token belongs to a verified user; one that was replaced is revoked.\<close>

definition rt_ok :: "(uuid \<rightharpoonup> user) \<Rightarrow> uuid \<Rightarrow> rtoken \<Rightarrow> bool" where
  "rt_ok U k t \<longleftrightarrow> r_id t = k \<and> length (r_token_hash t) = 64
    \<and> (\<exists>u. U (r_user_id t) = Some u \<and> u_is_email_verified u)
    \<and> (r_replaced_by_id t \<noteq> None \<longrightarrow> r_revoked_at t \<noteq> None)"

text \<open>
  Which refresh token was replaced by which. The rotations form chains within a user's
  tokens: a token replaces at most one other, and no chain closes.
\<close>

definition replaced :: "(uuid \<rightharpoonup> rtoken) \<Rightarrow> (uuid \<times> uuid) set" where
  "replaced R = {(i, j). \<exists>t. R i = Some t \<and> r_replaced_by_id t = Some j}"

definition chains_inv :: "(uuid \<rightharpoonup> rtoken) \<Rightarrow> bool" where
  "chains_inv R \<longleftrightarrow> acyclic (replaced R)
    \<and> (\<forall>i i' j. (i, j) \<in> replaced R \<longrightarrow> (i', j) \<in> replaced R \<longrightarrow> i = i')
    \<and> (\<forall>i j t. R i = Some t \<longrightarrow> r_replaced_by_id t = Some j \<longrightarrow> (\<exists>n. R j = Some n \<and> r_user_id n = r_user_id t))"

definition spec_inv :: "store \<Rightarrow> bool" where
  "spec_inv S \<longleftrightarrow> users_inv (st_users S)
    \<and> (\<forall>k t. st_otts S k = Some t \<longrightarrow> ott_ok (st_users S) k t)
    \<and> (\<forall>k t. st_rts S k = Some t \<longrightarrow> rt_ok (st_users S) k t)
    \<and> chains_inv (st_rts S)"

lemma users_inv_upd:
  assumes "users_inv U" and "U i = Some u" and "u_id u' = u_id u" and "u_email u' = u_email u"
  shows "users_inv (U(i \<mapsto> u'))"
  unfolding users_inv_def
proof (intro conjI allI impI)
  fix j v assume "(U(i \<mapsto> u')) j = Some v"
  then show "u_id v = j" and "validate_email (PyStr (u_email v)) = Inr (u_email v)"
    using assms by (auto simp: users_inv_def split: if_splits)
next
  fix j k v x assume "(U(i \<mapsto> u')) j = Some v" "(U(i \<mapsto> u')) k = Some x" "u_email v = u_email x"
  then show "j = k" using assms unfolding users_inv_def by (metis fun_upd_apply option.inject)
qed

lemma users_inv_new:
  assumes "users_inv U" and "\<forall>v \<in> ran U. u_email v \<noteq> u_email u"
    and "validate_email (PyStr (u_email u)) = Inr (u_email u)"
  shows "users_inv (U(u_id u \<mapsto> u))"
  unfolding users_inv_def
proof (intro conjI allI impI)
  fix j v assume "(U(u_id u \<mapsto> u)) j = Some v"
  then show "u_id v = j" and "validate_email (PyStr (u_email v)) = Inr (u_email v)"
    using assms by (auto simp: users_inv_def split: if_splits)
next
  fix j k v x assume "(U(u_id u \<mapsto> u)) j = Some v" "(U(u_id u \<mapsto> u)) k = Some x" "u_email v = u_email x"
  then show "j = k" using assms unfolding users_inv_def by (metis fun_upd_apply option.inject ranI)
qed

lemma ok_mono:
  assumes "map_le_by user_le U U'"
  shows "ott_ok U k t \<Longrightarrow> ott_ok U' k t" and "rt_ok U k r \<Longrightarrow> rt_ok U' k r"
  using assms unfolding ott_ok_def rt_ok_def map_le_by_def user_le_def by meson+

lemma spec_step_users_inv: "spec_step S S' \<Longrightarrow> users_inv (st_users S) \<Longrightarrow> users_inv (st_users S')"
  by (induction rule: spec_step.induct)
    (auto simp: stored_defs fresh_defs intro: users_inv_upd users_inv_new)

lemma all_upd:
  assumes "\<forall>k t. m k = Some t \<longrightarrow> P k t" and "P i a"
  shows "\<forall>k t. (m(i \<mapsto> a)) k = Some t \<longrightarrow> P k t"
  using assms by simp

lemma spec_step_otts_ok:
  assumes "spec_step S S'" and "\<forall>k t. st_otts S k = Some t \<longrightarrow> ott_ok (st_users S) k t"
  shows "\<forall>k t. st_otts S' k = Some t \<longrightarrow> ott_ok (st_users S') k t"
proof -
  have "map_le_by user_le (st_users S) (st_users S')"
    using spec_step_le [OF assms(1)] by (simp add: store_le_def)
  with ok_mono(1) assms(2) have old: "\<forall>k t. st_otts S k = Some t \<longrightarrow> ott_ok (st_users S') k t" by blast
  from assms(1) old assms(2) show ?thesis
  proof (cases rule: spec_step.cases)
    case (spec_register u t)
    then show ?thesis using old by (auto simp: ott_ok_def fresh_defs intro!: all_upd)
  next
    case (spec_issue u t)
    then show ?thesis using old
      by (auto simp: ott_ok_def fresh_defs stored_defs intro!: all_upd split: ott_purpose.splits)
  next
    case (spec_verify t u)
    then have "ott_ok (st_users S') (o_id t) (ott_stored (t\<lparr>o_used := True\<rparr>))"
      using assms(2) [rule_format, of "o_id t" t] by (simp add: ott_ok_def stored_defs)
    then show ?thesis using old all_upd [of "st_otts S" "ott_ok (st_users S')"] spec_verify(1) by simp
  next
    case (spec_recover t u h)
    then have "ott_ok (st_users S') (o_id t) (ott_stored (t\<lparr>o_used := True\<rparr>))"
      using assms(2) [rule_format, of "o_id t" t] by (simp add: ott_ok_def stored_defs)
    then show ?thesis using old all_upd [of "st_otts S" "ott_ok (st_users S')"] spec_recover(1) by simp
  qed simp_all
qed

lemma spec_step_rts_ok:
  assumes "spec_step S S'" and "\<forall>k t. st_rts S k = Some t \<longrightarrow> rt_ok (st_users S) k t"
  shows "\<forall>k t. st_rts S' k = Some t \<longrightarrow> rt_ok (st_users S') k t"
proof -
  have "map_le_by user_le (st_users S) (st_users S')"
    using spec_step_le [OF assms(1)] by (simp add: store_le_def)
  with ok_mono(2) assms(2) have old: "\<forall>k t. st_rts S k = Some t \<longrightarrow> rt_ok (st_users S') k t" by blast
  from assms(1) show ?thesis
  proof (cases rule: spec_step.cases)
    case (spec_login u t)
    then have "rt_ok (st_users S') (r_id t) t" by (simp add: rt_ok_def fresh_defs stored_defs)
    then show ?thesis using old all_upd [of "st_rts S" "rt_ok (st_users S')"] spec_login(1) by simp
  next
    case (spec_rotate t n now)
    have "rt_ok (st_users S') (r_id t) (rt_stored (t\<lparr>r_revoked_at := Some now, r_replaced_by_id := Some (r_id n)\<rparr>))"
      and "rt_ok (st_users S') (r_id n) n"
      using spec_rotate old [rule_format, of "r_id t" t] by (simp_all add: rt_ok_def fresh_defs stored_defs)
    from all_upd [OF all_upd [OF old this(1)] this(2)] show ?thesis unfolding spec_rotate(1) by simp
  next
    case (spec_revoke t now)
    have "rt_ok (st_users S') (r_id t) (rt_stored (t\<lparr>r_revoked_at := Some now\<rparr>))"
      using spec_revoke old [rule_format, of "r_id t" t] by (simp add: rt_ok_def stored_defs)
    then show ?thesis using old all_upd [of "st_rts S" "rt_ok (st_users S')"] spec_revoke(1) by simp
  qed (use old in simp_all)
qed

text \<open>A token that is new, or that keeps its successor, leaves the chains; a rotation adds one link.\<close>

lemma replaced_upd:
  assumes "(case R i of None \<Rightarrow> r_replaced_by_id t = None | Some s \<Rightarrow> r_replaced_by_id t = r_replaced_by_id s)"
  shows "replaced (R(i \<mapsto> t)) = replaced R"
  using assms by (auto simp: replaced_def split: option.splits if_splits)

lemma replaced_link:
  assumes "R i = Some s" and "r_replaced_by_id s = None" and "r_replaced_by_id t = Some j"
  shows "replaced (R(i \<mapsto> t)) = insert (i, j) (replaced R)"
  using assms by (auto simp: replaced_def split: if_splits)

lemma chains_inv_upd:
  assumes "chains_inv R"
    and "(case R i of None \<Rightarrow> r_replaced_by_id t = None
      | Some s \<Rightarrow> r_replaced_by_id t = r_replaced_by_id s \<and> r_user_id t = r_user_id s)"
  shows "chains_inv (R(i \<mapsto> t))"
proof -
  have r: "replaced (R(i \<mapsto> t)) = replaced R"
    using assms(2) by (intro replaced_upd) (auto split: option.splits)
  have "\<exists>m. (R(i \<mapsto> t)) l = Some m \<and> r_user_id m = r_user_id x"
    if x: "(R(i \<mapsto> t)) k = Some x" "r_replaced_by_id x = Some l" for k l x
  proof -
    obtain y where "R k = Some y" "r_replaced_by_id y = Some l" "r_user_id y = r_user_id x"
      using x assms(2) by (cases "k = i") (auto split: option.splits)
    then obtain m where "R l = Some m" "r_user_id m = r_user_id x"
      using assms(1) unfolding chains_inv_def by metis
    then show ?thesis using assms(2) by (cases "l = i") auto
  qed
  then show ?thesis using assms(1) unfolding chains_inv_def r by blast
qed

lemma chains_inv_rotate:
  assumes c: "chains_inv R" and i: "R i = Some s" "r_replaced_by_id s = None"
    and t: "r_replaced_by_id t = Some j" "r_user_id t = r_user_id s"
    and j: "R j = None" "r_replaced_by_id n = None" "r_user_id n = r_user_id s"
  shows "chains_inv (R(i \<mapsto> t, j \<mapsto> n))"
proof -
  have ne: "i \<noteq> j" using i j by auto
  have r: "replaced (R(i \<mapsto> t, j \<mapsto> n)) = insert (i, j) (replaced R)"
    using replaced_link [where R = R and i = i and s = s and t = t and j = j]
      replaced_upd [where R = "R(i \<mapsto> t)" and i = j and t = n] i t j ne by simp
  have out: "(j, l) \<notin> replaced R" for l using j by (simp add: replaced_def)
  have into: "(l, j) \<notin> replaced R" for l using c j by (fastforce simp: replaced_def chains_inv_def)
  have "(j, i) \<notin> (replaced R)\<^sup>*" using out ne by (auto elim: converse_rtranclE)
  then have "acyclic (insert (i, j) (replaced R))"
    using c by (simp add: chains_inv_def)
  moreover have "k = k'" if "(k, l) \<in> insert (i, j) (replaced R)" "(k', l) \<in> insert (i, j) (replaced R)" for k k' l
    using that into c unfolding chains_inv_def by blast
  moreover have "\<exists>m. (R(i \<mapsto> t, j \<mapsto> n)) l = Some m \<and> r_user_id m = r_user_id x"
    if x: "(R(i \<mapsto> t, j \<mapsto> n)) k = Some x" "r_replaced_by_id x = Some l" for k l x
  proof (cases "k = i \<or> k = j")
    case True
    then show ?thesis using x t j ne by auto
  next
    case False
    then obtain m where "R l = Some m" "r_user_id m = r_user_id x"
      using x c unfolding chains_inv_def by (metis fun_upd_apply)
    then show ?thesis using i t j by (cases "l = i") auto
  qed
  ultimately show ?thesis unfolding chains_inv_def r by blast
qed

lemma spec_step_chains: "spec_step S S' \<Longrightarrow> chains_inv (st_rts S) \<Longrightarrow> chains_inv (st_rts S')"
proof (induction rule: spec_step.induct)
  case (spec_login S u t)
  then have "chains_inv ((st_rts S)(r_id t \<mapsto> t))" by (intro chains_inv_upd) (simp_all add: fresh_defs)
  then show ?case by (simp add: fun_upd_def)
next
  case (spec_rotate S t n now)
  then have "chains_inv ((st_rts S)(r_id t \<mapsto> rt_stored (t\<lparr>r_revoked_at := Some now, r_replaced_by_id := Some (r_id n)\<rparr>), r_id n \<mapsto> n))"
    by (intro chains_inv_rotate [where s = t]) (simp_all add: fresh_defs stored_defs)
  then show ?case by (simp add: fun_upd_def)
next
  case (spec_revoke S t now)
  then have "chains_inv ((st_rts S)(r_id t \<mapsto> rt_stored (t\<lparr>r_revoked_at := Some now\<rparr>)))"
    by (intro chains_inv_upd) (simp_all add: stored_defs)
  then show ?case by (simp add: fun_upd_def)
qed simp_all

lemma spec_step_inv: "spec_step S S' \<Longrightarrow> spec_inv S \<Longrightarrow> spec_inv S'"
  unfolding spec_inv_def
  using spec_step_users_inv spec_step_otts_ok spec_step_rts_ok spec_step_chains by blast

lemma spec_inv_empty [simp]: "spec_inv (abs_store empty_database)"
  by (simp add: spec_inv_def users_inv_def chains_inv_def replaced_def acyclic_def empty_database_def
      user_lookup_def ott_lookup_def rt_lookup_def)

end
