(* ===== verification/UseCaseRefinement.thy ===== *)
theory UseCaseRefinement
  imports UseCases AuthSpec
begin

text \<open>
  What each transaction of the use cases has done when it ends normally, read off its
  definition, and that it is a step of the specification \<open>AuthSpec\<close> on the stored entities. A
  transaction that raises has changed nothing (\<open>with_tx_Inl\<close>).
\<close>

section \<open>Two saves in a row\<close>

lemma user_stored_events [simp]: "user_stored (u\<lparr>u_events := es\<rparr>) = user_stored u"
  by (simp add: user_stored_def)

lemma rt_stored_events [simp]: "rt_stored (t\<lparr>r_events := es\<rparr>) = rt_stored t"
  by (simp add: rt_stored_def)

lemma stored_keys [simp]:
  "u_id (user_stored u) = u_id u" "u_email (user_stored u) = u_email u"
  "o_id (ott_stored t) = o_id t" "o_user_id (ott_stored t) = o_user_id t" "o_purpose (ott_stored t) = o_purpose t"
  "r_id (rt_stored r) = r_id r" "r_user_id (rt_stored r) = r_user_id r"
  by (simp_all add: stored_defs)

lemma save_user_ott:
  assumes "db_inv d" and "user_save u d = Inr (u', d1)" and "ott_save t d1 = Inr (t', d2)"
    and "\<And>s. ott_lookup d (o_id t) = Some s \<Longrightarrow> o_purpose s = o_purpose t"
  shows "abs_store d2 = (abs_store d)\<lparr>st_users := (user_lookup d)(u_id u \<mapsto> user_stored u),
      st_otts := (ott_lookup d)(o_id t \<mapsto> ott_stored t)\<rparr>"
    and "db_inv d2" and "o_version t = None \<Longrightarrow> ott_lookup d (o_id t) = None"
    and "u_version u = None \<Longrightarrow> user_lookup d (u_id u) = None"
proof -
  note u = user_save_lookup [OF assms(1,2)]
  note t = ott_save_lookup [OF u(4) assms(3)]
  have p: "\<And>s. ott_lookup d1 (o_id t) = Some s \<Longrightarrow> o_purpose s = o_purpose t" using assms(4) u(2) by simp
  show "abs_store d2 = (abs_store d)\<lparr>st_users := (user_lookup d)(u_id u \<mapsto> user_stored u),
      st_otts := (ott_lookup d)(o_id t \<mapsto> ott_stored t)\<rparr>"
    using t(1-3) [OF p] u(1-3) by (simp add: abs_store_def)
  show "db_inv d2" using t(4) [OF p] .
  show "o_version t = None \<Longrightarrow> ott_lookup d (o_id t) = None" using t(5) [OF p] u(2) by simp
  show "u_version u = None \<Longrightarrow> user_lookup d (u_id u) = None" using u(5) by simp
qed

lemma save_user_rt:
  assumes "db_inv d" and "user_save u d = Inr (u', d1)" and "rt_save t d1 = Inr (t', d2)"
  shows "abs_store d2 = (abs_store d)\<lparr>st_users := (user_lookup d)(u_id u \<mapsto> user_stored u),
      st_rts := (rt_lookup d)(r_id t \<mapsto> rt_stored t)\<rparr>"
    and "db_inv d2" and "r_version t = None \<Longrightarrow> rt_lookup d (r_id t) = None"
proof -
  note u = user_save_lookup [OF assms(1,2)]
  note t = rt_save_lookup [OF u(4) assms(3)]
  show "abs_store d2 = (abs_store d)\<lparr>st_users := (user_lookup d)(u_id u \<mapsto> user_stored u),
      st_rts := (rt_lookup d)(r_id t \<mapsto> rt_stored t)\<rparr>"
    using t(1-3) u(1-3) by (simp add: abs_store_def)
  show "db_inv d2" using t(4) .
  show "r_version t = None \<Longrightarrow> rt_lookup d (r_id t) = None" using t(5) u(3) by simp
qed

lemma save_rt_rt:
  assumes "db_inv d" and "rt_save s d = Inr (s', d1)" and "rt_save t d1 = Inr (t', d2)"
  shows "abs_store d2 = (abs_store d)\<lparr>st_rts := (rt_lookup d)(r_id s \<mapsto> rt_stored s, r_id t \<mapsto> rt_stored t)\<rparr>"
    and "db_inv d2" and "r_version t = None \<Longrightarrow> rt_lookup d (r_id t) = None \<and> r_id t \<noteq> r_id s"
proof -
  note u = rt_save_lookup [OF assms(1,2)]
  note t = rt_save_lookup [OF u(4) assms(3)]
  show "abs_store d2 = (abs_store d)\<lparr>st_rts := (rt_lookup d)(r_id s \<mapsto> rt_stored s, r_id t \<mapsto> rt_stored t)\<rparr>"
    using t(1-3) u(1-3) by (simp add: abs_store_def)
  show "db_inv d2" using t(4) .
  show "r_version t = None \<Longrightarrow> rt_lookup d (r_id t) = None \<and> r_id t \<noteq> r_id s"
    using t(5) u(1) by (auto split: if_splits)
qed

text \<open>Inserting a user succeeds only if no stored user has the address.\<close>

lemma user_save_new_email:
  assumes "user_save u d = Inr (u', d')" and "u_version u = None"
  shows "\<forall>v \<in> ran (user_lookup d). u_email v \<noteq> u_email u"
proof
  fix v assume "v \<in> ran (user_lookup d)"
  then obtain i r where "table_map ur_id (users d) i = Some r" and "v = user_orm2domain r"
    by (auto simp: ran_def user_lookup_def)
  then have "u_email v \<in> ur_email ` set (users d)"
    using table_map_SomeD by (fastforce simp: user_orm2domain_def)
  moreover have "u_email u \<notin> ur_email ` set (users d)"
    using assms by (auto simp: user_save_def insert_user_def user_domain2orm_def split: sum.splits if_splits)
  ultimately show "u_email v \<noteq> u_email u" by auto
qed

lemma user_get_by_id_Some:
  assumes "db_inv d" and "user_get_by_id i d = Inr (Some u)"
  shows "user_lookup d i = Some u \<and> u_id u = i \<and> u_events u = []"
  using assms user_repo.lookup_key [OF assms(1)] user_lookup_Some by (auto simp: user_get_by_id_eq)

section \<open>Email verification\<close>

lemma verify_email_tx_Inr:
  assumes "db_inv (db w)" and "verify_email_tx V v w = (Inr es, w')"
  obtains s t u ts n where "v = PyStr s" and "ott_get_by_string v (db w) = Inr (Some t)" and "ott_lookup (db w) (o_id t) = Some t" and "o_token_hash t = hash_token s"
    and "user_lookup (db w) (o_user_id t) = Some u" and "u_id u = o_user_id t"
    and "o_purpose t = VERIFY_EMAIL" and "\<not> o_used t" and "now_at (sys V) (tick w) \<le> o_expires_at t"
    and "\<not> u_is_email_verified u"
    and "es = [UserEmailVerified ts (u_id u) (u_email u)]" and "db_inv (db w')"
    and "abs_store (db w') = (abs_store (db w))
      \<lparr>st_users := (user_lookup (db w))(u_id u \<mapsto> user_stored (u\<lparr>u_is_email_verified := True\<rparr>)),
       st_otts := (ott_lookup (db w))(o_id t \<mapsto> ott_stored (t\<lparr>o_used := True\<rparr>))\<rparr>"
proof -
  from assms(2) obtain t u u1 d1 t1 d2 where t: "ott_get_by_string v (db w) = Inr (Some t)"
    and u: "user_get_by_id (o_user_id t) (db w) = Inr (Some u)"
    and g: "o_purpose t = VERIFY_EMAIL" "\<not> o_used t" "now_at (sys V) (tick w) \<le> o_expires_at t"
      "\<not> u_is_email_verified u"
    and s1: "user_save (u\<lparr>u_is_email_verified := True, u_events := []\<rparr>) (db w) = Inr (u1, d1)"
    and s2: "ott_save (t\<lparr>o_used := True\<rparr>) d1 = Inr (t1, d2)" and d2: "db w' = d2"
    and es: "es = u_events u @ [UserEmailVerified (now_at (sys V) (Suc (tick w))) (u_id u) (u_email u)]"
    by (auto simp: verify_email_tx_def run_simps verify_email_def user_pull_domain_events_def
        split: sum.splits option.splits if_splits prod.splits)
  from ott_get_by_string_Some [OF assms(1) t] obtain s where s: "v = PyStr s" "o_token_hash t = hash_token s"
    "ott_lookup (db w) (o_id t) = Some t" by blast
  note ul = user_get_by_id_Some [OF assms(1) u]
  note sv = save_user_ott [OF assms(1) s1 s2]
  show ?thesis
    by (rule that [OF s(1) t s(3) s(2)]) (use ul g es sv s(3) d2 in auto)
qed

section \<open>Registration and recovery requests\<close>

lemma only_ticks_db: "only_ticks m \<Longrightarrow> m w = (r, w') \<Longrightarrow> db w' = db w"
  by (auto dest: only_ticksD)

lemma user_create_Inr:
  assumes "user_create E em pw w = (Inr u, w')"
  obtains ts p salt where "validate_password pw = Inr p"
    and "bcrypt_hashpw E (utf8_encode p) salt = Some (utf8_encode (u_password_hash u))" and "u_version u = None" and "u_active u" and "\<not> u_is_email_verified u"
    and "validate_email em = Inr (u_email u)" and "u_events u = [UserCreated ts (u_id u) (u_email u)]"
proof -
  from assms obtain p salt hb where v: "validate_password pw = Inr p" and h: "bcrypt_hashpw E (utf8_encode p) salt = Some hb"
    and d: "utf8_decode hb = Some (u_password_hash u)"
    and u: "u_version u = None" "u_active u" "\<not> u_is_email_verified u" "validate_email em = Inr (u_email u)"
      "\<exists>ts. u_events u = [UserCreated ts (u_id u) (u_email u)]"
    unfolding user_create_def
    by (auto simp: run_simps Let_def validate_hash_password_run hash_password_cases
        split: sum.splits option.splits if_splits)
  from u(5) obtain ts where "u_events u = [UserCreated ts (u_id u) (u_email u)]" ..
  with v h u(1-4) show ?thesis
    unfolding utf8_encode_decode [OF d, symmetric] by (intro that [of p salt ts]) auto
qed

lemma ott_create_Inr:
  assumes "ott_create E i n x p w = (Inr (t, s), w')"
  shows "o_version t = None \<and> \<not> o_used t \<and> o_token_hash t = hash_token s \<and> o_user_id t = i \<and> o_purpose t = p
    \<and> o_expires_at t = now_at E (tick w) + x"
  using assms unfolding run_ott_create by (simp split: if_splits) (elim conjE, hypsubst, simp)

lemma request_verification_Inr:
  assumes "request_verification E u n x w = (Inr (u', t, s), w')"
  obtains ts where "\<not> u_is_email_verified u" and "o_version t = None" and "\<not> o_used t"
    and "o_token_hash t = hash_token s" and "o_user_id t = u_id u" and "o_purpose t = VERIFY_EMAIL"
    and "u' = u\<lparr>u_events := u_events u @ [UserEmailVerificationRequested ts (u_id u) (u_email u) s]\<rparr>"
proof -
  from assms obtain w1 where c: "ott_create E (u_id u) n x (o_purpose t) w = (Inr (t, s), w1)"
    and p: "o_purpose t = VERIFY_EMAIL" and m: "request_email_verification E u s w1 = (Inr u', w')"
    using ott_create_Inr unfolding request_verification_def by (fastforce elim!: bindM_InrE simp: run_retM)
  show ?thesis
    by (rule that) (use ott_create_Inr [OF c] p m in \<open>auto simp: request_email_verification_def run_simps split: if_splits\<close>)
qed

lemma recover_request_service_Inr:
  assumes "recover_request_service E u n x w = (Inr (u', t, s), w')"
  obtains ts where "u_is_email_verified u" and "o_version t = None" and "\<not> o_used t"
    and "o_token_hash t = hash_token s" and "o_user_id t = u_id u" and "o_purpose t = RECOVER_PASSWORD"
    and "u' = u\<lparr>u_events := u_events u @ [UserPasswordRecoverRequested ts (u_id u) (u_email u) s]\<rparr>"
proof -
  from assms obtain w1 where c: "ott_create E (u_id u) n x (o_purpose t) w = (Inr (t, s), w1)"
    and p: "o_purpose t = RECOVER_PASSWORD" and m: "request_password_recover E u s w1 = (Inr u', w')"
    using ott_create_Inr unfolding recover_request_service_def by (fastforce elim!: bindM_InrE simp: run_retM)
  show ?thesis
    by (rule that) (use ott_create_Inr [OF c] p m in \<open>auto simp: request_password_recover_def run_simps split: if_splits\<close>)
qed

lemma fresh_ott_stored:
  "o_version t = None \<Longrightarrow> \<not> o_used t \<Longrightarrow> o_token_hash t = hash_token s \<Longrightarrow> fresh_ott (ott_stored t)"
  by (simp add: fresh_ott_def ott_stored_def)

text \<open>A new address: the user and its first token are created.\<close>

lemma register_tx_new:
  assumes d: "db_inv (db w)" and f: "user_get_by_email em (db w) = Inr None"
    and r: "register_tx V em pw w = (Inr es, w')"
  obtains u t s ts ts' p salt where "validate_email em = Inr (u_email u)" and "validate_password pw = Inr p"
    and "bcrypt_hashpw (sys V) (utf8_encode p) salt = Some (utf8_encode (u_password_hash u))" and "fresh_user u" and "fresh_ott t"
    and "o_token_hash t = hash_token s" and "o_user_id t = u_id u" and "o_purpose t = VERIFY_EMAIL"
    and "user_lookup (db w) (u_id u) = None" and "ott_lookup (db w) (o_id t) = None"
    and "\<forall>v \<in> ran (user_lookup (db w)). u_email v \<noteq> u_email u"
    and "es = [UserCreated ts (u_id u) (u_email u), UserEmailVerificationRequested ts' (u_id u) (u_email u) s]"
    and "db_inv (db w')"
    and "abs_store (db w') = (abs_store (db w))
      \<lparr>st_users := (user_lookup (db w))(u_id u \<mapsto> u), st_otts := (ott_lookup (db w))(o_id t \<mapsto> t)\<rparr>"
proof -
  from r f obtain u w1 u1 t s w2 u2 d1 t1 d2 where c: "user_create (sys V) em pw w = (Inr u, w1)"
    and q: "request_verification (sys V) u (email_token_len (cfg V)) (email_token_exp (cfg V)) w1 = (Inr (u1, t, s), w2)"
    and s1: "user_save (u1\<lparr>u_events := []\<rparr>) (db w2) = Inr (u2, d1)"
    and s2: "ott_save t d1 = Inr (t1, d2)" and d2: "db w' = d2" and es: "es = u_events u1"
    by (auto simp: register_tx_def run_simps user_pull_domain_events_def split: sum.splits prod.splits)
  have dw: "db w2 = db w" using c q only_ticks_db [OF only_ticks_user_ops(1)] only_ticks_db [OF only_ticks_services(1)] by metis
  note s1 = s1 [unfolded dw]
  obtain ts p salt where pw: "validate_password pw = Inr p"
      "bcrypt_hashpw (sys V) (utf8_encode p) salt = Some (utf8_encode (u_password_hash u))"
    and u: "u_version u = None" "u_active u" "\<not> u_is_email_verified u"
    "validate_email em = Inr (u_email u)" "u_events u = [UserCreated ts (u_id u) (u_email u)]"
    using user_create_Inr [OF c] .
  obtain ts' where t: "o_version t = None" "\<not> o_used t" "o_token_hash t = hash_token s" "o_user_id t = u_id u"
    "o_purpose t = VERIFY_EMAIL"
    "u1 = u\<lparr>u_events := u_events u @ [UserEmailVerificationRequested ts' (u_id u) (u_email u) s]\<rparr>"
    using request_verification_Inr [OF q] by blast
  have n: "ott_lookup (db w) (o_id t) = None"
    using ott_repo.save_base [OF _ s2] user_save_lookup(2,4) [OF d s1] t(1) by simp
  note sv = save_user_ott [OF d s1 s2]
  have fu: "fresh_user (user_stored u)"
    using u validate_email_idem [OF u(4)] by (simp add: fresh_user_def user_stored_def)
  show ?thesis
    by (rule that [of "user_stored u" p salt "ott_stored t" s ts ts'])
      (use pw u t n fu sv es d2 fresh_ott_stored [OF t(1-3)] user_save_new_email [OF s1] in \<open>auto simp: stored_defs\<close>)
qed

text \<open>A known user: a new token is issued, the password given is ignored.\<close>

lemma register_tx_again:
  assumes d: "db_inv (db w)" and f: "user_get_by_email em (db w) = Inr (Some u)"
    and r: "register_tx V em pw w = (Inr es, w')"
  obtains t s ts where "em = PyStr (u_email u)" and "user_lookup (db w) (u_id u) = Some u"
    and "\<not> u_is_email_verified u" and "fresh_ott t" and "o_token_hash t = hash_token s"
    and "o_user_id t = u_id u" and "o_purpose t = VERIFY_EMAIL" and "ott_lookup (db w) (o_id t) = None"
    and "es = [UserEmailVerificationRequested ts (u_id u) (u_email u) s]" and "db_inv (db w')"
    and "abs_store (db w') = (abs_store (db w))
      \<lparr>st_users := (user_lookup (db w))(u_id u \<mapsto> user_stored u), st_otts := (ott_lookup (db w))(o_id t \<mapsto> t)\<rparr>"
proof -
  from r f obtain u1 t s w2 u2 d1 t1 d2 where v: "\<not> u_is_email_verified u"
    and q: "request_verification (sys V) u (email_token_len (cfg V)) (email_token_exp (cfg V)) w = (Inr (u1, t, s), w2)"
    and s1: "user_save (u1\<lparr>u_events := []\<rparr>) (db w2) = Inr (u2, d1)"
    and s2: "ott_save t d1 = Inr (t1, d2)" and d2: "db w' = d2" and es: "es = u_events u1"
    by (auto simp: register_tx_def run_simps user_pull_domain_events_def split: sum.splits prod.splits if_splits)
  have dw: "db w2 = db w" using q only_ticks_db [OF only_ticks_services(1)] by metis
  note s1 = s1 [unfolded dw]
  have u: "em = PyStr (u_email u)" "user_lookup (db w) (u_id u) = Some u" "u_events u = []"
    using user_get_by_email_Some [OF d f] user_lookup_Some by auto
  obtain ts where t: "o_version t = None" "\<not> o_used t" "o_token_hash t = hash_token s" "o_user_id t = u_id u"
    "o_purpose t = VERIFY_EMAIL"
    "u1 = u\<lparr>u_events := u_events u @ [UserEmailVerificationRequested ts (u_id u) (u_email u) s]\<rparr>"
    using request_verification_Inr [OF q] by blast
  have n: "ott_lookup (db w) (o_id t) = None"
    using ott_repo.save_base [OF _ s2] user_save_lookup(2,4) [OF d s1] t(1) by simp
  note sv = save_user_ott [OF d s1 s2]
  show ?thesis
    by (rule that [of "ott_stored t" s ts])
      (use u v t n sv es d2 fresh_ott_stored [OF t(1-3)] in \<open>auto simp: ott_stored_def\<close>)
qed

lemma recover_request_tx_Inr:
  assumes d: "db_inv (db w)" and r: "recover_request_tx V em w = (Inr es, w')"
  obtains u t s ts where "em = PyStr (u_email u)" and "user_lookup (db w) (u_id u) = Some u"
    and "u_is_email_verified u" and "fresh_ott t" and "o_token_hash t = hash_token s"
    and "o_user_id t = u_id u" and "o_purpose t = RECOVER_PASSWORD" and "ott_lookup (db w) (o_id t) = None"
    and "es = [UserPasswordRecoverRequested ts (u_id u) (u_email u) s]" and "db_inv (db w')"
    and "abs_store (db w') = (abs_store (db w))
      \<lparr>st_users := (user_lookup (db w))(u_id u \<mapsto> user_stored u), st_otts := (ott_lookup (db w))(o_id t \<mapsto> t)\<rparr>"
proof -
  from r obtain u u1 t s w2 u2 d1 t1 d2 where f: "user_get_by_email em (db w) = Inr (Some u)"
    and q: "recover_request_service (sys V) u (password_recover_token_len (cfg V)) (password_recover_token_exp (cfg V)) w
      = (Inr (u1, t, s), w2)"
    and s1: "user_save (u1\<lparr>u_events := []\<rparr>) (db w2) = Inr (u2, d1)"
    and s2: "ott_save t d1 = Inr (t1, d2)" and d2: "db w' = d2" and es: "es = u_events u1"
    by (auto simp: recover_request_tx_def run_simps user_pull_domain_events_def
        split: sum.splits prod.splits if_splits option.splits)
  have dw: "db w2 = db w" using q only_ticks_db [OF only_ticks_services(2)] by metis
  note s1 = s1 [unfolded dw]
  have u: "em = PyStr (u_email u)" "user_lookup (db w) (u_id u) = Some u" "u_events u = []"
    using user_get_by_email_Some [OF d f] user_lookup_Some by auto
  obtain ts where v: "u_is_email_verified u" and t: "o_version t = None" "\<not> o_used t"
    "o_token_hash t = hash_token s" "o_user_id t = u_id u" "o_purpose t = RECOVER_PASSWORD"
    "u1 = u\<lparr>u_events := u_events u @ [UserPasswordRecoverRequested ts (u_id u) (u_email u) s]\<rparr>"
    using recover_request_service_Inr [OF q] by blast
  have n: "ott_lookup (db w) (o_id t) = None"
    using ott_repo.save_base [OF _ s2] user_save_lookup(2,4) [OF d s1] t(1) by simp
  note sv = save_user_ott [OF d s1 s2]
  show ?thesis
    by (rule that [of u "ott_stored t" s ts])
      (use u v t n sv es d2 fresh_ott_stored [OF t(1-3)] in \<open>auto simp: ott_stored_def\<close>)
qed

section \<open>Sessions\<close>

lemma rt_create_Inr:
  assumes "rt_create E i n x l ip ua w = (Inr (t, s), w')"
  shows "r_user_id t = i \<and> r_token_hash t = hash_token s \<and> r_revoked_at t = None \<and> r_replaced_by_id t = None
    \<and> r_version t = None \<and> r_client_ip t = ip \<and> r_user_agent t = ua \<and> r_location t = l
    \<and> r_expires_at t = r_created_at t + x
    \<and> (\<exists>ts. r_events t = [RefreshTokenCreated ts i (r_id t) ip ua l])"
  using assms unfolding run_rt_create Let_def by (simp split: if_splits) (elim conjE, hypsubst, simp)

lemma fresh_rt_stored:
  "r_version t = None \<Longrightarrow> r_revoked_at t = None \<Longrightarrow> r_replaced_by_id t = None \<Longrightarrow> r_token_hash t = hash_token s \<Longrightarrow>
    fresh_rt (rt_stored t)"
  by (simp add: fresh_rt_def rt_stored_def)

text \<open>What \<open>assert_can_login\<close> lets pass.\<close>

definition can_login :: "sysenv \<Rightarrow> user \<Rightarrow> string \<Rightarrow> bool" where
  "can_login E u password \<longleftrightarrow> u_active u \<and> u_is_email_verified u
    \<and> bcrypt_checkpw E (utf8_encode password) (utf8_encode (u_password_hash u)) = Some True"

lemma assert_can_login_Inr: "assert_can_login E u p w = (Inr x, w') \<longleftrightarrow> can_login E u p \<and> w' = w"
  by (auto simp: assert_can_login_def can_login_def run_simps split: option.splits)

lemma login_tx_Inr:
  assumes d: "db_inv (db w)" and r: "login_tx V m p ip ua loc w = (Inr (es, pair), w')"
  obtains u t ts w1 where "user_lookup (db w) (u_id u) = Some u" and "u_email u = m" and "can_login (sys V) u p"
    and "rt_lookup (db w) (r_id t) = None" and "r_user_id t = u_id u" and "fresh_rt t"
    and "r_token_hash t = hash_token (refresh_token pair)"
    and "access_token_issue (sys V) (cfg V) (u_id u) (access_token_exp (cfg V)) w = (Inr (access_token pair), w1)"
    and "r_expires_at t = r_created_at t + refresh_token_exp (cfg V)"
    and "es = [RefreshTokenCreated ts (u_id u) (r_id t) ip ua loc]" and "db_inv (db w')"
    and "abs_store (db w') = (abs_store (db w))
      \<lparr>st_users := (user_lookup (db w))(u_id u \<mapsto> user_stored u), st_rts := (rt_lookup (db w))(r_id t \<mapsto> t)\<rparr>"
proof -
  from r obtain u a w1 t s w2 u2 d1 t1 d2 where f: "user_get_by_email (PyStr m) (db w) = Inr (Some u)"
    and c: "can_login (sys V) u p"
    and a: "access_token_issue (sys V) (cfg V) (u_id u) (access_token_exp (cfg V)) w = (Inr a, w1)"
    and q: "rt_create (sys V) (u_id u) (refresh_token_len (cfg V)) (refresh_token_exp (cfg V)) loc ip ua w1 = (Inr (t, s), w2)"
    and s1: "user_save (u\<lparr>u_events := []\<rparr>) (db w2) = Inr (u2, d1)"
    and s2: "rt_save (t\<lparr>r_events := []\<rparr>) d1 = Inr (t1, d2)" and d2: "db w' = d2"
    and es: "es = u_events u @ r_events t" and pair: "pair = \<lparr>access_token = a, refresh_token = s\<rparr>"
    unfolding login_tx_def
    by (auto simp: run_bindM run_readM run_writeM run_raiseM run_retM user_pull_domain_events_def
        rt_pull_domain_events_def assert_can_login_Inr split: sum.splits prod.splits option.splits)
  have dw: "db w2 = db w"
    using only_ticks_db [OF only_ticks_access_token(1) a] only_ticks_db [OF only_ticks_rt_ops(1) q] by simp
  note s1 = s1 [unfolded dw]
  have u: "u_email u = m" "user_lookup (db w) (u_id u) = Some u" "u_events u = []"
    using user_get_by_email_Some [OF d f] user_lookup_Some by auto
  note t = rt_create_Inr [OF q]
  then obtain ts where ts: "r_events t = [RefreshTokenCreated ts (u_id u) (r_id t) ip ua loc]" by blast
  note sv = save_user_rt [OF d s1 s2]
  have fr: "fresh_rt (rt_stored t)" using t by (intro fresh_rt_stored) auto
  show ?thesis
    by (rule that [of u "rt_stored t" w1 ts])
      (use u c a t ts fr sv es d2 pair in \<open>auto simp: rt_stored_def\<close>)
qed

lemma rotate_Inr:
  assumes r: "rotate E t n x y (access_token_issue E S) w = (Inr (t', m, s, a), w')"
  obtains w1 ts where "r_replaced_by_id t = None" and "t' = t\<lparr>r_replaced_by_id := Some (r_id m)\<rparr>"
    and "r_user_id m = r_user_id t" and "r_token_hash m = hash_token s" and "r_revoked_at m = None"
    and "r_replaced_by_id m = None" and "r_version m = None"
    and "access_token_issue E S (r_user_id t) y w1 = (Inr a, w')"
    and "r_events m = [RefreshTokenCreated ts (r_user_id t) (r_id m) None None None]"
proof -
  from r obtain w1 where c: "rt_create E (r_user_id t) n x None None None w = (Inr (m, s), w1)"
    and p: "rt_mark_as_replaced_by t (r_id m) = Inr t'"
    and a: "access_token_issue E S (r_user_id m) y w1 = (Inr a, w')"
    unfolding rotate_def
    by (auto simp: run_bindM run_liftM run_retM split: prod.splits sum.splits)
  show ?thesis
    using that rt_create_Inr [OF c] p a by (auto simp: rt_mark_as_replaced_by_def split: if_splits)
qed

lemma refresh_tx_Inr:
  assumes d: "db_inv (db w)" and r: "refresh_tx V tok w = (Inr (es, pair), w')"
  obtains t n now where "rt_get_by_string tok (db w) = Inr (Some t)" and "rt_lookup (db w) (r_id t) = Some t" and "r_token_hash t = hash_token tok"
    and "r_revoked_at t = None" and "r_replaced_by_id t = None" and "now_at (sys V) (tick w) \<le> r_expires_at t"
    and "rt_lookup (db w) (r_id n) = None" and "r_user_id n = r_user_id t" and "fresh_rt n"
    and "r_token_hash n = hash_token (refresh_token pair)" and "db_inv (db w')"
    and "abs_store (db w') = (abs_store (db w))\<lparr>st_rts := (rt_lookup (db w))
      (r_id t \<mapsto> rt_stored (t\<lparr>r_revoked_at := Some now, r_replaced_by_id := Some (r_id n)\<rparr>), r_id n \<mapsto> n)\<rparr>"
proof -
  from r obtain t t1 w1 t2 n s a w2 t3 d1 n1 d2 where f: "rt_get_by_string tok (db w) = Inr (Some t)"
    and u: "rt_use (sys V) t w = (Inr t1, w1)"
    and q: "rotate (sys V) t1 (refresh_token_len (cfg V)) (refresh_token_exp (cfg V)) (access_token_exp (cfg V))
        (access_token_issue (sys V) (cfg V)) w1 = (Inr (t2, n, s, a), w2)"
    and s1: "rt_save (t2\<lparr>r_events := []\<rparr>) (db w2) = Inr (t3, d1)"
    and s2: "rt_save (n\<lparr>r_events := []\<rparr>) d1 = Inr (n1, d2)" and d2: "db w' = d2"
    and pair: "pair = \<lparr>access_token = a, refresh_token = s\<rparr>"
    unfolding refresh_tx_def
    by (auto simp: run_bindM run_readM run_writeM run_raiseM run_retM
        rt_pull_domain_events_def split: sum.splits prod.splits option.splits)
  have dw: "db w2 = db w"
    using only_ticks_db [OF only_ticks_rt_ops(5) u] only_ticks_db [OF only_ticks_rotate q] only_ticks_access_token(1)
    by auto
  note s1 = s1 [unfolded dw]
  note t = rt_get_by_string_Some [OF d f]
  from u obtain now es1 where g: "r_replaced_by_id t = None" "r_revoked_at t = None"
    "now_at (sys V) (tick w) \<le> r_expires_at t"
    and t1: "t1 = t\<lparr>r_revoked_at := Some now, r_events := es1\<rparr>"
    by (auto simp: run_rt_use run_rt_set_revoked split: if_splits)
  have n: "t2 = t1\<lparr>r_replaced_by_id := Some (r_id n)\<rparr>" "r_user_id n = r_user_id t1"
    "r_token_hash n = hash_token s" "r_revoked_at n = None" "r_replaced_by_id n = None" "r_version n = None"
    by (rule rotate_Inr [OF q], assumption)+
  note sv = save_rt_rt [OF d s1 s2]
  have fr: "fresh_rt (rt_stored n)" using n by (intro fresh_rt_stored) auto
  have st: "rt_stored t2 = rt_stored (t\<lparr>r_revoked_at := Some now, r_replaced_by_id := Some (r_id n)\<rparr>)"
    by (simp add: n(1) t1 rt_stored_def)
  show ?thesis
    by (rule that [of t "rt_stored n" now])
      (use f t g n t1 fr sv st d2 pair in \<open>auto simp: rt_stored_def\<close>)
qed

lemma revoke_tx_Inr:
  assumes d: "db_inv (db w)" and r: "revoke_tx V tok ip ua loc w = (Inr es, w')"
  obtains t now ts ts' where "rt_get_by_string tok (db w) = Inr (Some t)" and "rt_lookup (db w) (r_id t) = Some t" and "r_token_hash t = hash_token tok"
    and "r_revoked_at t = None" and "now_at (sys V) (tick w) \<le> r_expires_at t"
    and "es = [SuspiciousRefreshTokenRevocation ts (r_user_id t) (r_id t) ip ua loc,
      RefreshTokenRevoked ts' (r_user_id t) (r_id t)]"
    and "db_inv (db w')"
    and "abs_store (db w') = (abs_store (db w))\<lparr>st_rts := (rt_lookup (db w))
      (r_id t \<mapsto> rt_stored (t\<lparr>r_revoked_at := Some now\<rparr>))\<rparr>"
proof -
  from r obtain t where f: "rt_get_by_string tok (db w) = Inr (Some t)"
    by (auto simp: revoke_tx_def run_simps split: sum.splits option.splits)
  note t = rt_get_by_string_Some [OF d f]
  note c = rt_lookup_Some [OF conjunct2 [OF t]]
  have risk: "assess_risk None None None ip ua loc \<noteq> 0" by (simp add: assess_risk_eq)
  from r f c risk obtain now ts ts' t1 d1 where g: "r_revoked_at t = None" "now_at (sys V) (tick w) \<le> r_expires_at t"
    and es: "es = [SuspiciousRefreshTokenRevocation ts (r_user_id t) (r_id t) ip ua loc,
      RefreshTokenRevoked ts' (r_user_id t) (r_id t)]"
    and s1: "rt_save (t\<lparr>r_revoked_at := Some now, r_events := []\<rparr>) (db w) = Inr (t1, d1)" and d1: "db w' = d1"
    by (auto simp: revoke_tx_def run_simps run_rt_revoke rt_pull_domain_events_def Let_def
        split: sum.splits option.splits if_splits prod.splits)
  note sv = rt_save_lookup [OF d s1]
  have a: "abs_store (db w') = (abs_store (db w))\<lparr>st_rts := (rt_lookup (db w))
      (r_id t \<mapsto> rt_stored (t\<lparr>r_revoked_at := Some now\<rparr>))\<rparr>"
    using sv(1-3) d1 by (simp add: abs_store_def rt_stored_def)
  show ?thesis by (rule that [OF f _ _ g es _ a]) (use t sv(4) d1 in auto)
qed

section \<open>Passwords\<close>

lemma change_password_tx_Inr:
  assumes d: "db_inv (db w)" and r: "change_password_tx V a p q w = (Inr es, w')"
  obtains u w1 h ts where "access_token_verify (sys V) (cfg V) a w = (Inr (u_id u), w1)"
    and "user_lookup (db w) (u_id u) = Some u"
    and "bcrypt_checkpw (sys V) (utf8_encode p) (utf8_encode (u_password_hash u)) = Some True" and "p \<noteq> q"
    and "validate_hash_password (sys V) (PyStr q) w1 = (Inr h, w1\<lparr>tick := Suc (tick w1)\<rparr>)"
    and "es = [UserPasswordChanged ts (u_id u)]" and "db_inv (db w')"
    and "abs_store (db w') = (abs_store (db w))
      \<lparr>st_users := (user_lookup (db w))(u_id u \<mapsto> user_stored (u\<lparr>u_password_hash := h\<rparr>))\<rparr>"
proof -
  from r obtain i w1 u u1 w2 u2 d1 where v: "access_token_verify (sys V) (cfg V) a w = (Inr i, w1)"
    and f: "user_get_by_id i (db w1) = Inr (Some u)"
    and c: "change_password (sys V) u p q w1 = (Inr u1, w2)"
    and s1: "user_save (u1\<lparr>u_events := []\<rparr>) (db w2) = Inr (u2, d1)" and d1: "db w' = d1" and es: "es = u_events u1"
    unfolding change_password_tx_def
    by (auto simp: run_bindM run_readM run_writeM run_raiseM run_retM user_pull_domain_events_def
        split: sum.splits prod.splits option.splits)
  have dw: "db w1 = db w" "db w2 = db w"
    using only_ticks_db [OF only_ticks_access_token(2) v] only_ticks_db [OF only_ticks_user_ops(7) c] by simp_all
  note u = user_get_by_id_Some [OF d f [unfolded dw]]
  from c obtain h ts where g: "bcrypt_checkpw (sys V) (utf8_encode p) (utf8_encode (u_password_hash u)) = Some True" "p \<noteq> q"
    and h: "validate_hash_password (sys V) (PyStr q) w1 = (Inr h, w1\<lparr>tick := Suc (tick w1)\<rparr>)"
    and u1: "u1 = u\<lparr>u_password_hash := h, u_events := u_events u @ [UserPasswordChanged ts (u_id u)]\<rparr>"
    by (auto simp: user_run_simps split: sum.splits option.splits if_splits bool.splits)
  note sv = user_save_lookup [OF d s1 [unfolded dw]]
  have a: "abs_store (db w') = (abs_store (db w))
      \<lparr>st_users := (user_lookup (db w))(u_id u \<mapsto> user_stored (u\<lparr>u_password_hash := h\<rparr>))\<rparr>"
    using sv(1-3) d1 u1 by (simp add: abs_store_def user_stored_def)
  show ?thesis by (rule that [OF _ _ g h _ _ a]) (use v u es u1 sv(4) d1 in auto)
qed

lemma recover_tx_Inr:
  assumes d: "db_inv (db w)" and r: "recover_tx V v pw w = (Inr es, w')"
  obtains s t u and w1 :: app_world and h ts where "v = PyStr s" and "ott_get_by_string v (db w) = Inr (Some t)" and "ott_lookup (db w) (o_id t) = Some t" and "o_token_hash t = hash_token s"
    and "user_lookup (db w) (o_user_id t) = Some u" and "u_id u = o_user_id t"
    and "o_purpose t = RECOVER_PASSWORD" and "\<not> o_used t" and "now_at (sys V) (tick w1) \<le> o_expires_at t"
    and "validate_hash_password (sys V) pw w = (Inr h, w\<lparr>tick := Suc (tick w)\<rparr>)"
    and "es = [UserPasswordRecovered ts (u_id u)]" and "db_inv (db w')"
    and "abs_store (db w') = (abs_store (db w))
      \<lparr>st_users := (user_lookup (db w))(u_id u \<mapsto> user_stored (u\<lparr>u_password_hash := h\<rparr>)),
       st_otts := (ott_lookup (db w))(o_id t \<mapsto> ott_stored (t\<lparr>o_used := True\<rparr>))\<rparr>"
proof -
  from r obtain t u u1 w1 t1 w2 u2 d1 t2 d2 where f: "ott_get_by_string v (db w) = Inr (Some t)"
    and g: "user_get_by_id (o_user_id t) (db w) = Inr (Some u)"
    and c: "recover_password (sys V) u pw w = (Inr u1, w1)"
    and o: "ott_use (sys V) t RECOVER_PASSWORD w1 = (Inr t1, w2)"
    and s1: "user_save (u1\<lparr>u_events := []\<rparr>) (db w2) = Inr (u2, d1)"
    and s2: "ott_save t1 d1 = Inr (t2, d2)" and d2: "db w' = d2" and es: "es = u_events u1"
    unfolding recover_tx_def
    by (auto simp: run_bindM run_readM run_writeM run_raiseM run_retM user_pull_domain_events_def
        split: sum.splits prod.splits option.splits)
  have dw: "db w2 = db w"
    using only_ticks_db [OF only_ticks_user_ops(8) c] only_ticks_db [OF only_ticks_ott_ops(3) o] by simp
  note u = user_get_by_id_Some [OF d g]
  from ott_get_by_string_Some [OF d f] obtain s where s: "v = PyStr s" "o_token_hash t = hash_token s"
    "ott_lookup (db w) (o_id t) = Some t" by blast
  from c obtain h ts where h: "validate_hash_password (sys V) pw w = (Inr h, w\<lparr>tick := Suc (tick w)\<rparr>)"
    and u1: "u1 = u\<lparr>u_password_hash := h, u_events := u_events u @ [UserPasswordRecovered ts (u_id u)]\<rparr>"
    by (auto simp: user_run_simps split: sum.splits option.splits if_splits bool.splits)
  from o have k: "o_purpose t = RECOVER_PASSWORD" "\<not> o_used t" "now_at (sys V) (tick w1) \<le> o_expires_at t"
    and t1: "t1 = t\<lparr>o_used := True\<rparr>"
    by (auto simp: run_ott_use split: if_splits)
  note sv = save_user_ott [OF d s1 [unfolded dw] s2]
  have us: "user_stored (u1\<lparr>u_events := []\<rparr>) = user_stored (u\<lparr>u_password_hash := h\<rparr>)" "u_id u1 = u_id u"
    by (simp_all add: u1 user_stored_def)
  show ?thesis
    by (rule that [of s t u w1 h ts]) (use f k h u u1 es us sv s t1 d2 in auto)
qed

section \<open>The use cases refine the specification\<close>

text \<open>A transaction that ends normally is one step of the specification and keeps \<open>db_inv\<close>.\<close>

definition refines_step :: "('b app) \<Rightarrow> bool" where
  "refines_step m \<longleftrightarrow> (\<forall>w a w'. db_inv (db w) \<longrightarrow> m w = (Inr a, w') \<longrightarrow>
    db_inv (db w') \<and> spec_step (abs_store (db w)) (abs_store (db w')))"

lemma refines_register: "refines_step (register_tx V em pw)"
  unfolding refines_step_def
proof (intro allI impI)
  fix w es w' assume d: "db_inv (db w)" and r: "register_tx V em pw w = (Inr es, w')"
  then obtain f where f: "user_get_by_email em (db w) = Inr f"
    by (auto simp: register_tx_def run_simps split: sum.splits)
  show "db_inv (db w') \<and> spec_step (abs_store (db w)) (abs_store (db w'))"
  proof (cases f)
    case None
    show ?thesis
    proof (rule register_tx_new [OF d f [unfolded None] r])
      fix u t s ts ts' p salt
      assume a: "fresh_user u" "fresh_ott t" "o_user_id t = u_id u" "o_purpose t = VERIFY_EMAIL"
        "user_lookup (db w) (u_id u) = None" "ott_lookup (db w) (o_id t) = None"
        "\<forall>v \<in> ran (user_lookup (db w)). u_email v \<noteq> u_email u" "db_inv (db w')"
        and e: "abs_store (db w') = (abs_store (db w))
          \<lparr>st_users := (user_lookup (db w))(u_id u \<mapsto> u), st_otts := (ott_lookup (db w))(o_id t \<mapsto> t)\<rparr>"
      show ?thesis using spec_register [of "abs_store (db w)" u t] a unfolding e by simp
    qed
  next
    case (Some u)
    show ?thesis
    proof (rule register_tx_again [OF d f [unfolded Some] r])
      fix t s ts
      assume a: "user_lookup (db w) (u_id u) = Some u" "\<not> u_is_email_verified u" "fresh_ott t"
        "o_user_id t = u_id u" "o_purpose t = VERIFY_EMAIL" "ott_lookup (db w) (o_id t) = None" "db_inv (db w')"
        and e: "abs_store (db w') = (abs_store (db w))\<lparr>st_users := (user_lookup (db w))(u_id u \<mapsto> user_stored u),
          st_otts := (ott_lookup (db w))(o_id t \<mapsto> t)\<rparr>"
      show ?thesis using spec_issue [of "abs_store (db w)" u t] a unfolding e by (simp add: may_issue_def)
    qed
  qed
qed

lemma refines_verify_email: "refines_step (verify_email_tx V v)"
  unfolding refines_step_def
proof (intro allI impI)
  fix w es w' assume "db_inv (db w)" and "verify_email_tx V v w = (Inr es, w')"
  then show "db_inv (db w') \<and> spec_step (abs_store (db w)) (abs_store (db w'))"
    by (rule verify_email_tx_Inr) (use spec_verify [of "abs_store (db w)"] in auto)
qed

lemma refines_login: "refines_step (login_tx V m p ip ua loc)"
  unfolding refines_step_def
proof (intro allI impI)
  fix w r w' assume d: "db_inv (db w)" and r0: "login_tx V m p ip ua loc w = (Inr r, w')"
  obtain es pair where rp: "r = (es, pair)" by (cases r)
  show "db_inv (db w') \<and> spec_step (abs_store (db w)) (abs_store (db w'))"
  proof (rule login_tx_Inr [OF d r0 [unfolded rp]])
    fix u t
    assume a: "user_lookup (db w) (u_id u) = Some u" "can_login (sys V) u p" "rt_lookup (db w) (r_id t) = None"
      "r_user_id t = u_id u" "fresh_rt t" "db_inv (db w')"
      and e: "abs_store (db w') = (abs_store (db w))\<lparr>st_users := (user_lookup (db w))(u_id u \<mapsto> user_stored u),
        st_rts := (rt_lookup (db w))(r_id t \<mapsto> t)\<rparr>"
    show ?thesis using spec_login [of "abs_store (db w)" u t] a unfolding e by (simp add: can_login_def)
  qed
qed

lemma refines_refresh: "refines_step (refresh_tx V tok)"
  unfolding refines_step_def
proof (intro allI impI)
  fix w r w' assume d: "db_inv (db w)" and r0: "refresh_tx V tok w = (Inr r, w')"
  obtain es pair where rp: "r = (es, pair)" by (cases r)
  show "db_inv (db w') \<and> spec_step (abs_store (db w)) (abs_store (db w'))"
  proof (rule refresh_tx_Inr [OF d r0 [unfolded rp]])
    fix t n now
    assume a: "rt_lookup (db w) (r_id t) = Some t" "r_revoked_at t = None" "r_replaced_by_id t = None"
      "rt_lookup (db w) (r_id n) = None" "r_user_id n = r_user_id t" "fresh_rt n" "db_inv (db w')"
      and e: "abs_store (db w') = (abs_store (db w))\<lparr>st_rts := (rt_lookup (db w))
        (r_id t \<mapsto> rt_stored (t\<lparr>r_revoked_at := Some now, r_replaced_by_id := Some (r_id n)\<rparr>), r_id n \<mapsto> n)\<rparr>"
    show ?thesis using spec_rotate [of "abs_store (db w)" t n now] a unfolding e by simp
  qed
qed

lemma refines_revoke: "refines_step (revoke_tx V tok ip ua loc)"
  unfolding refines_step_def
proof (intro allI impI)
  fix w es w' assume "db_inv (db w)" and "revoke_tx V tok ip ua loc w = (Inr es, w')"
  then show "db_inv (db w') \<and> spec_step (abs_store (db w)) (abs_store (db w'))"
    by (rule revoke_tx_Inr) (use spec_revoke [of "abs_store (db w)"] in auto)
qed

lemma refines_change_password: "refines_step (change_password_tx V a p q)"
  unfolding refines_step_def
proof (intro allI impI)
  fix w es w' assume "db_inv (db w)" and "change_password_tx V a p q w = (Inr es, w')"
  then show "db_inv (db w') \<and> spec_step (abs_store (db w)) (abs_store (db w'))"
    by (rule change_password_tx_Inr) (use spec_change_password [of "abs_store (db w)"] in auto)
qed

lemma refines_recover_request: "refines_step (recover_request_tx V em)"
  unfolding refines_step_def
proof (intro allI impI)
  fix w es w' assume "db_inv (db w)" and "recover_request_tx V em w = (Inr es, w')"
  then show "db_inv (db w') \<and> spec_step (abs_store (db w)) (abs_store (db w'))"
    by (rule recover_request_tx_Inr) (use spec_issue [of "abs_store (db w)"] in \<open>auto simp: may_issue_def\<close>)
qed

lemma refines_recover: "refines_step (recover_tx V v pw)"
  unfolding refines_step_def
proof (intro allI impI)
  fix w es w' assume "db_inv (db w)" and "recover_tx V v pw w = (Inr es, w')"
  then show "db_inv (db w') \<and> spec_step (abs_store (db w)) (abs_store (db w'))"
    by (rule recover_tx_Inr) (use spec_recover [of "abs_store (db w)"] in auto)
qed

end
