(* ===== verification/ServiceSystem.thy ===== *)
theory ServiceSystem
  imports UseCaseRefinement
begin

text \<open>
  The service as a whole: the calls of its interface, one at a time, on the database, the
  audit log and the notifications; the states it can reach; and what holds of all of them.
\<close>

section \<open>Calls\<close>

datatype call =
    Register pyval pyval
  | VerifyEmail pyval
  | Login string string "string option" "string option" "string option"
  | Refresh string "string option" "string option" "string option"
  | Revoke string "string option" "string option" "string option"
  | ChangePassword string string string
  | RecoverRequest pyval
  | Recover pyval pyval

definition handle :: "env \<Rightarrow> call \<Rightarrow> token_pair option app" where
  "handle V c =
    (case c of
       Register email password \<Rightarrow> bindM (register_execute V email password) (\<lambda>_. retM None)
     | VerifyEmail token \<Rightarrow> bindM (verify_email_execute V token) (\<lambda>_. retM None)
     | Login email password ip ua loc \<Rightarrow> bindM (login_execute V email password ip ua loc) (\<lambda>p. retM (Some p))
     | Refresh token ip ua loc \<Rightarrow> bindM (refresh_execute V token ip ua loc) (\<lambda>p. retM (Some p))
     | Revoke token ip ua loc \<Rightarrow> bindM (revoke_execute V token ip ua loc) (\<lambda>_. retM None)
     | ChangePassword access old new \<Rightarrow> bindM (change_password_execute V access old new) (\<lambda>_. retM None)
     | RecoverRequest email \<Rightarrow> bindM (recover_request_execute V email) (\<lambda>_. retM None)
     | Recover token password \<Rightarrow> bindM (recover_execute V token password) (\<lambda>_. retM None))"

definition initial_world :: "nat \<Rightarrow> app_world" where
  "initial_world n = \<lparr>tick = n, db = empty_database, event_log = [], notifications = []\<rparr>"

inductive reachable :: "env \<Rightarrow> app_world \<Rightarrow> bool" for V where
  reachable_init: "reachable V (initial_world n)"
| reachable_call: "reachable V w \<Longrightarrow> handle V c w = (r, w') \<Longrightarrow> reachable V w'"

text \<open>The states after a state, by any calls.\<close>

inductive later :: "env \<Rightarrow> app_world \<Rightarrow> app_world \<Rightarrow> bool" for V where
  later_refl: "later V w w"
| later_call: "later V w w1 \<Longrightarrow> handle V c w1 = (r, w') \<Longrightarrow> later V w w'"

section \<open>The outcome of a call\<close>

text \<open>A transaction followed by publication: it raises and changes nothing, or commits and publishes.\<close>

definition unchanged :: "app_world \<Rightarrow> app_world \<Rightarrow> bool" where
  "unchanged w w' \<longleftrightarrow> db w' = db w \<and> event_log w' = event_log w \<and> notifications w' = notifications w"

text \<open>What a call that ended normally has published, on top of one step of the specification.\<close>

definition committed :: "env \<Rightarrow> app_world \<Rightarrow> event list \<Rightarrow> app_world \<Rightarrow> bool" where
  "committed V w es w' \<longleftrightarrow> db_inv (db w') \<and> spec_step (abs_store (db w)) (abs_store (db w'))
    \<and> event_log w' = fold (redisq_push (pyd V) (red V)) (filter (\<lambda>e. \<not> is_notification_event e) es) (event_log w)
    \<and> notifications w' = notifications w @ filter is_notification_event es"

lemma with_tx_committed:
  assumes "tx_local m" and "refines_step m" and "db_inv (db w)" and "with_tx m w = (Inr a, w1)"
    and "publish_events V es w1 = (r, w')"
  shows "committed V w es w' \<and> r = Inr () \<and> db w' = db w1"
proof -
  from assms(4) have m: "m w = (Inr a, w1)" by (simp add: with_tx_Inr)
  note l = tx_localD [OF assms(1) m]
  from assms(2,3) m have "db_inv (db w1)" "spec_step (abs_store (db w)) (abs_store (db w1))"
    unfolding refines_step_def by blast+
  with l assms(5) show ?thesis by (auto simp: committed_def run_simps)
qed

lemma tx_publish_outcome:
  assumes "tx_local m" and "refines_step m" and "db_inv (db w)"
    and "bindM (with_tx m) (\<lambda>es. publish_events V es) w = (r, w')"
  shows "(\<exists>e. r = Inl e \<and> with_tx m w = (Inl e, w') \<and> unchanged w w')
    \<or> (\<exists>es w1. r = Inr () \<and> m w = (Inr es, w1) \<and> db w' = db w1 \<and> committed V w es w')"
proof (cases "with_tx m w")
  case (Pair x w1)
  show ?thesis
  proof (cases x)
    case (Inl e)
    then show ?thesis using assms(4) Pair with_tx_Inl [OF assms(1)] by (auto simp: run_bindM unchanged_def)
  next
    case (Inr es)
    then have "publish_events V es w1 = (r, w')" using assms(4) Pair by (simp add: run_bindM)
    with with_tx_committed [OF assms(1-3)] Pair Inr show ?thesis by (auto simp: with_tx_Inr)
  qed
qed

lemma execute_outcome:
  assumes d: "db_inv (db w)"
  shows "register_execute V em pw w = (r, w') \<Longrightarrow> (\<exists>e. r = Inl e \<and> with_tx (register_tx V em pw) w = (Inl e, w') \<and> unchanged w w')
      \<or> (\<exists>es w1. r = Inr () \<and> register_tx V em pw w = (Inr es, w1) \<and> db w' = db w1 \<and> committed V w es w')"
    and "verify_email_execute V v w = (r, w') \<Longrightarrow> (\<exists>e. r = Inl e \<and> with_tx (verify_email_tx V v) w = (Inl e, w') \<and> unchanged w w')
      \<or> (\<exists>es w1. r = Inr () \<and> verify_email_tx V v w = (Inr es, w1) \<and> db w' = db w1 \<and> committed V w es w')"
    and "revoke_execute V t ip ua loc w = (r, w') \<Longrightarrow> (\<exists>e. r = Inl e \<and> with_tx (revoke_tx V t ip ua loc) w = (Inl e, w') \<and> unchanged w w')
      \<or> (\<exists>es w1. r = Inr () \<and> revoke_tx V t ip ua loc w = (Inr es, w1) \<and> db w' = db w1 \<and> committed V w es w')"
    and "change_password_execute V a p q w = (r, w') \<Longrightarrow> (\<exists>e. r = Inl e \<and> with_tx (change_password_tx V a p q) w = (Inl e, w') \<and> unchanged w w')
      \<or> (\<exists>es w1. r = Inr () \<and> change_password_tx V a p q w = (Inr es, w1) \<and> db w' = db w1 \<and> committed V w es w')"
    and "recover_request_execute V em w = (r, w') \<Longrightarrow> (\<exists>e. r = Inl e \<and> with_tx (recover_request_tx V em) w = (Inl e, w') \<and> unchanged w w')
      \<or> (\<exists>es w1. r = Inr () \<and> recover_request_tx V em w = (Inr es, w1) \<and> db w' = db w1 \<and> committed V w es w')"
    and "recover_execute V v pw w = (r, w') \<Longrightarrow> (\<exists>e. r = Inl e \<and> with_tx (recover_tx V v pw) w = (Inl e, w') \<and> unchanged w w')
      \<or> (\<exists>es w1. r = Inr () \<and> recover_tx V v pw w = (Inr es, w1) \<and> db w' = db w1 \<and> committed V w es w')"
  unfolding execute_defs
  by (rule tx_publish_outcome; (rule tx_local_cases refines_register refines_verify_email refines_revoke
        refines_change_password refines_recover_request refines_recover d | assumption))+

lemma login_outcome:
  assumes d: "db_inv (db w)" and r: "login_execute V m p ip ua loc w = (r, w')"
  shows "(\<exists>e. r = Inl e \<and> with_tx (login_tx V m p ip ua loc) w = (Inl e, w') \<and> unchanged w w')
    \<or> (\<exists>es pair w1. r = Inr pair \<and> login_tx V m p ip ua loc w = (Inr (es, pair), w1) \<and> db w' = db w1 \<and> committed V w es w')"
proof (cases "with_tx (login_tx V m p ip ua loc) w")
  case (Pair x w1)
  show ?thesis
  proof (cases x)
    case (Inl e)
    then show ?thesis using r Pair with_tx_Inl [OF tx_local_cases(3)]
      by (auto simp: login_execute_def run_bindM unchanged_def)
  next
    case (Inr y)
    obtain es pair where y: "y = (es, pair)" by (cases y)
    obtain x' w2 where p: "publish_events V es w1 = (x', w2)" by fastforce
    have "committed V w es w2 \<and> x' = Inr () \<and> db w2 = db w1"
      using with_tx_committed [OF tx_local_cases(3) refines_login d] Pair Inr p by blast
    then show ?thesis using r Pair Inr y p by (auto simp: login_execute_def run_bindM run_retM with_tx_Inr)
  qed
qed

text \<open>
  A refresh publishes nothing when it succeeds; when it detects a reuse it publishes an event
  that the Redis queue does not accept.
\<close>

lemma refresh_outcome:
  assumes d: "db_inv (db w)" and r: "refresh_execute V t ip ua loc w = (r, w')"
  shows "(\<exists>e. r = Inl e \<and> unchanged w w' \<and> (\<exists>w2. with_tx (refresh_tx V t) w = (Inl e, w2)))
    \<or> (\<exists>es pair. r = Inr pair \<and> refresh_tx V t w = (Inr (es, pair), w') \<and> committed V w [] w')"
proof (cases "with_tx (refresh_tx V t) w")
  case (Pair x w1)
  show ?thesis
  proof (cases x)
    case (Inl e)
    with Pair with_tx_Inl [OF tx_local_cases(4)] have u: "unchanged w w1" by (simp add: unchanged_def)
    show ?thesis
    proof (cases "isinstance e RefreshTokenReuse")
      case False
      then show ?thesis using r Pair Inl u by (auto simp: refresh_execute_def run_simps)
    next
      case True
      obtain y w2 where y: "with_tx (reuse_tx V t ip ua loc) w1 = (y, w2)" by fastforce
      have "rt_get_by_string t (db w) \<noteq> Inl x" for x
      proof
        assume g: "rt_get_by_string t (db w) = Inl x"
        then have "x = LibError MultipleResultsFound"
          by (auto simp: rt_get_by_string_def scalar_one_or_none_def split: list.splits)
        then show False using g Pair Inl True by (auto simp: with_tx_def refresh_tx_def run_simps)
      qed
      then obtain f where f: "rt_get_by_string t (db w) = Inr f" by (cases "rt_get_by_string t (db w)") auto
      have "db w1 = db w" using u by (simp add: unchanged_def)
      then have ok: "y \<noteq> Inl x" for x
        using y f by (cases f) (auto simp: with_tx_def reuse_tx_def run_simps)
      have u2: "unchanged w1 w2 \<and> (\<forall>es. y = Inr es \<longrightarrow> (\<forall>e \<in> set es. is_application_event e))"
      proof (cases y)
        case (Inl e)
        then show ?thesis using with_tx_Inl [OF tx_local_cases(5)] y by (simp add: unchanged_def)
      next
        case (Inr es)
        with y have "reuse_tx V t ip ua loc w1 = (Inr es, w2)" by (simp add: with_tx_Inr)
        then show ?thesis using Inr
          by (auto simp: reuse_tx_def run_simps unchanged_def split: sum.splits option.splits)
      qed
      have skip: "fold (redisq_push (pyd V) (red V)) (filter (\<lambda>e. \<not> is_notification_event e) es) q = q
          \<and> filter is_notification_event es = []"
        if "\<forall>e \<in> set es. is_application_event e" for es q
      proof -
        have "\<not> is_domain_event e \<and> \<not> is_notification_event e" if "e \<in> set es" for e
          using that \<open>\<forall>e \<in> set es. is_application_event e\<close> event_kinds by blast
        then show ?thesis
          by (induction es arbitrary: q) (simp_all add: redisq_push_def filter_empty_conv)
      qed
      show ?thesis using r Pair Inl True y u u2 skip ok
        by (cases y) (auto simp: refresh_execute_def run_simps unchanged_def)
    qed
  next
    case (Inr y)
    obtain es pair where y: "y = (es, pair)" by (cases y)
    from Pair Inr y have m: "refresh_tx V t w = (Inr (es, pair), w1)" by (simp add: with_tx_Inr)
    have "db_inv (db w1)" "spec_step (abs_store (db w)) (abs_store (db w1))"
      using refines_refresh d m unfolding refines_step_def by blast+
    then have "committed V w [] w1" using tx_localD [OF tx_local_cases(4) m] by (simp add: committed_def)
    then show ?thesis using r Pair Inr y m by (auto simp: refresh_execute_def run_simps)
  qed
qed

text \<open>Every call either raises and changes nothing, or is a committed step.\<close>

lemma handle_outcome:
  assumes d: "db_inv (db w)" and r: "handle V c w = (r, w')"
  shows "(\<exists>e. r = Inl e \<and> unchanged w w') \<or> (\<exists>x es. r = Inr x \<and> committed V w es w')"
proof (cases c)
  case (Register em pw)
  obtain x w1 where "register_execute V em pw w = (x, w1)" by fastforce
  with execute_outcome(1) [OF d this] r Register show ?thesis by (auto simp: handle_def run_simps)
next
  case (VerifyEmail v)
  obtain x w1 where "verify_email_execute V v w = (x, w1)" by fastforce
  with execute_outcome(2) [OF d this] r VerifyEmail show ?thesis by (auto simp: handle_def run_simps)
next
  case (Login m p ip ua loc)
  obtain x w1 where "login_execute V m p ip ua loc w = (x, w1)" by fastforce
  with login_outcome [OF d this] r Login show ?thesis by (auto simp: handle_def run_simps)
next
  case (Refresh t ip ua loc)
  obtain x w1 where "refresh_execute V t ip ua loc w = (x, w1)" by fastforce
  with refresh_outcome [OF d this] r Refresh show ?thesis by (auto simp: handle_def run_simps)
next
  case (Revoke t ip ua loc)
  obtain x w1 where "revoke_execute V t ip ua loc w = (x, w1)" by fastforce
  with execute_outcome(3) [OF d this] r Revoke show ?thesis by (auto simp: handle_def run_simps)
next
  case (ChangePassword a p q)
  obtain x w1 where "change_password_execute V a p q w = (x, w1)" by fastforce
  with execute_outcome(4) [OF d this] r ChangePassword show ?thesis by (auto simp: handle_def run_simps)
next
  case (RecoverRequest em)
  obtain x w1 where "recover_request_execute V em w = (x, w1)" by fastforce
  with execute_outcome(5) [OF d this] r RecoverRequest show ?thesis by (auto simp: handle_def run_simps)
next
  case (Recover v pw)
  obtain x w1 where "recover_execute V v pw w = (x, w1)" by fastforce
  with execute_outcome(6) [OF d this] r Recover show ?thesis by (auto simp: handle_def run_simps)
qed

section \<open>Reachable states\<close>

definition service_inv :: "app_world \<Rightarrow> bool" where
  "service_inv w \<longleftrightarrow> db_inv (db w) \<and> spec_inv (abs_store (db w))"

lemma handle_inv: "service_inv w \<Longrightarrow> handle V c w = (r, w') \<Longrightarrow> service_inv w'"
  using handle_outcome [of w V c r w'] spec_step_inv [of "abs_store (db w)" "abs_store (db w')"]
  by (auto simp: service_inv_def committed_def unchanged_def)

lemma handle_le: "db_inv (db w) \<Longrightarrow> handle V c w = (r, w') \<Longrightarrow> store_le (abs_store (db w)) (abs_store (db w'))"
  using handle_outcome [of w V c r w'] spec_step_le by (auto simp: committed_def unchanged_def)

lemma initial_inv: "service_inv (initial_world n)"
  by (simp add: service_inv_def initial_world_def)

lemma reachable_inv: "reachable V w \<Longrightarrow> service_inv w"
  by (induction rule: reachable.induct) (auto intro: initial_inv handle_inv)

lemma later_inv: "later V w w' \<Longrightarrow> service_inv w \<Longrightarrow> service_inv w'"
  by (induction rule: later.induct) (auto intro: handle_inv)

lemma later_reachable: "later V w w' \<Longrightarrow> reachable V w \<Longrightarrow> reachable V w'"
  by (induction rule: later.induct) (auto intro: reachable.intros)

lemma later_le: "later V w w' \<Longrightarrow> service_inv w \<Longrightarrow> store_le (abs_store (db w)) (abs_store (db w'))"
proof (induction rule: later.induct)
  case (later_call w w1 c r w')
  then have "store_le (abs_store (db w1)) (abs_store (db w'))"
    using handle_le later_inv unfolding service_inv_def by blast
  with later_call show ?case using store_le_trans by blast
qed simp

text \<open>The audit log can be read back in every reachable state.\<close>

lemma audit_push:
  assumes "log_inv V w"
    and "event_log w' = fold (redisq_push (pyd V) (red V)) (filter (\<lambda>e. \<not> is_notification_event e) es) (event_log w)"
  shows "log_inv V w' \<and> audit V w' = audit V w @ filter is_domain_event es"
proof -
  have f: "filter is_domain_event (filter (\<lambda>e. \<not> is_notification_event e) es) = filter is_domain_event es"
    using event_kinds(2) by (induction es) auto
  show ?thesis
    using redisq.push_all [OF assms(1) [unfolded log_inv_def], where es = "filter (\<lambda>e. \<not> is_notification_event e) es"]
      assms(2) unfolding log_inv_def audit_def f by simp
qed

lemma committed_log:
  "committed V w es w' \<Longrightarrow> log_inv V w \<Longrightarrow> log_inv V w' \<and> audit V w' = audit V w @ filter is_domain_event es"
  by (rule audit_push) (simp_all add: committed_def)

lemma handle_log: "db_inv (db w) \<Longrightarrow> log_inv V w \<Longrightarrow> handle V c w = (r, w') \<Longrightarrow> log_inv V w'"
  using handle_outcome [of w V c r w'] committed_log [of V w _ w'] by (auto simp: unchanged_def log_inv_def)

lemma reachable_log:
  assumes "pydantic_roundtrip (pyd V)" and "redis_lists (red V)"
  shows "reachable V w \<Longrightarrow> log_inv V w"
proof (induction rule: reachable.induct)
  case (reachable_init n)
  show ?case using assms by (simp add: log_inv_def redisq_inv_def initial_world_def)
next
  case (reachable_call w c r w')
  then show ?case using handle_log reachable_inv unfolding service_inv_def by blast
qed

section \<open>Tokens that have been used\<close>

lemma handle_pair: "handle V c w = (fst (handle V c w), snd (handle V c w))"
  by simp

text \<open>The one-time token that a call consumes, and the refresh token that a call ends.\<close>

fun consumes :: "call \<Rightarrow> string option" where
  "consumes (VerifyEmail (PyStr s)) = Some s"
| "consumes (Recover (PyStr s) pw) = Some s"
| "consumes _ = None"

fun ends_session :: "call \<Rightarrow> string option" where
  "ends_session (Refresh s ip ua loc) = Some s"
| "ends_session (Revoke s ip ua loc) = Some s"
| "ends_session _ = None"

text \<open>The stored token with the hash of a text is used, or revoked.\<close>

definition spent :: "app_world \<Rightarrow> string \<Rightarrow> bool" where
  "spent w s \<longleftrightarrow> (\<exists>k t. ott_lookup (db w) k = Some t \<and> o_token_hash t = hash_token s \<and> o_used t)"

definition ended :: "app_world \<Rightarrow> string \<Rightarrow> bool" where
  "ended w s \<longleftrightarrow> (\<exists>k t. rt_lookup (db w) k = Some t \<and> r_token_hash t = hash_token s \<and> r_revoked_at t \<noteq> None)"

lemma spent_later: "later V w w' \<Longrightarrow> service_inv w \<Longrightarrow> spent w s \<Longrightarrow> spent w' s"
  using later_le [of V w w'] unfolding spent_def store_le_def map_le_by_def ott_le_def abs_store_sel by metis

lemma ended_later: "later V w w' \<Longrightarrow> service_inv w \<Longrightarrow> ended w s \<Longrightarrow> ended w' s"
  using later_le [of V w w'] unfolding ended_def store_le_def map_le_by_def rt_le_def abs_store_sel by metis

lemma consumes_spends:
  assumes d: "db_inv (db w)" and c: "consumes c = Some s" and r: "handle V c w = (Inr x, w')"
  shows "spent w' s"
proof -
  consider (verify) "c = VerifyEmail (PyStr s)" | (recover) pw where "c = Recover (PyStr s) pw"
    using c by (cases c rule: consumes.cases) auto
  then show ?thesis
  proof cases
    case verify
    from r verify have e: "verify_email_execute V (PyStr s) w = (Inr (), w')"
      by (auto simp: handle_def run_bindM run_retM split: prod.splits sum.splits)
    from execute_outcome(2) [OF d e] obtain es w1 where t: "verify_email_tx V (PyStr s) w = (Inr es, w1)"
      and w1: "db w' = db w1" by auto
    show ?thesis
      by (rule verify_email_tx_Inr [OF d t])
        (auto simp: spent_def w1 [symmetric] abs_store_def ott_stored_def intro!: exI)
  next
    case (recover pw)
    from r recover have e: "recover_execute V (PyStr s) pw w = (Inr (), w')"
      by (auto simp: handle_def run_bindM run_retM split: prod.splits sum.splits)
    from execute_outcome(6) [OF d e] obtain es w1 where t: "recover_tx V (PyStr s) pw w = (Inr es, w1)"
      and w1: "db w' = db w1" by auto
    show ?thesis
      by (rule recover_tx_Inr [OF d t])
        (auto simp: spent_def w1 [symmetric] abs_store_def ott_stored_def intro!: exI)
  qed
qed

lemma spent_raises:
  assumes d: "db_inv (db w)" and c: "consumes c = Some s" and p: "spent w s"
  shows "\<exists>e. fst (handle V c w) = Inl e"
proof (rule ccontr)
  assume "\<nexists>e. fst (handle V c w) = Inl e"
  then obtain x where "fst (handle V c w) = Inr x" by (cases "fst (handle V c w)") auto
  then have r: "handle V c w = (Inr x, snd (handle V c w))" by (simp add: prod_eq_iff)
  from p obtain k t where t: "ott_lookup (db w) k = Some t" "o_token_hash t = hash_token s" "o_used t"
    unfolding spent_def by blast
  have u: "t' = t" if "ott_get_by_string (PyStr s) (db w) = Inr (Some t')" for t'
    using ott_get_by_string_unique [OF that t(1,2)] by simp
  consider (verify) "c = VerifyEmail (PyStr s)" | (recover) pw where "c = Recover (PyStr s) pw"
    using c by (cases c rule: consumes.cases) auto
  then show False
  proof cases
    case verify
    from r verify have e: "verify_email_execute V (PyStr s) w = (Inr (), snd (handle V c w))"
      by (auto simp: handle_def run_bindM run_retM split: prod.splits sum.splits)
    from execute_outcome(2) [OF d e] obtain es w1 where "verify_email_tx V (PyStr s) w = (Inr es, w1)" by auto
    with d show False by (rule verify_email_tx_Inr) (use u t(3) in auto)
  next
    case (recover pw)
    from r recover have e: "recover_execute V (PyStr s) pw w = (Inr (), snd (handle V c w))"
      by (auto simp: handle_def run_bindM run_retM split: prod.splits sum.splits)
    from execute_outcome(6) [OF d e] obtain es w1 where "recover_tx V (PyStr s) pw w = (Inr es, w1)" by auto
    with d show False by (rule recover_tx_Inr) (use u t(3) in auto)
  qed
qed

lemma ends_session_ends:
  assumes d: "db_inv (db w)" and c: "ends_session c = Some s" and r: "handle V c w = (Inr x, w')"
  shows "ended w' s"
proof -
  consider (refresh) ip ua loc where "c = Refresh s ip ua loc" | (revoke) ip ua loc where "c = Revoke s ip ua loc"
    using c by (cases c rule: ends_session.cases) auto
  then show ?thesis
  proof cases
    case (refresh ip ua loc)
    from r refresh obtain p where e: "refresh_execute V s ip ua loc w = (Inr p, w')"
      by (auto simp: handle_def run_bindM run_retM split: prod.splits sum.splits)
    from refresh_outcome [OF d e] obtain es where t: "refresh_tx V s w = (Inr (es, p), w')" by auto
    show ?thesis
    proof (rule refresh_tx_Inr [OF d t])
      fix t n now
      assume a: "r_token_hash t = hash_token s" "rt_lookup (db w) (r_id t) = Some t" "rt_lookup (db w) (r_id n) = None"
        and e: "abs_store (db w') = (abs_store (db w))\<lparr>st_rts := (rt_lookup (db w))
          (r_id t \<mapsto> rt_stored (t\<lparr>r_revoked_at := Some now, r_replaced_by_id := Some (r_id n)\<rparr>), r_id n \<mapsto> n)\<rparr>"
      have "r_id t \<noteq> r_id n" using a by auto
      then have "rt_lookup (db w') (r_id t)
          = Some (rt_stored (t\<lparr>r_revoked_at := Some now, r_replaced_by_id := Some (r_id n)\<rparr>))"
        using arg_cong [OF e, of st_rts] by simp
      with a(1) show ?thesis unfolding ended_def
        by (intro exI [of _ "r_id t"] exI conjI) (assumption | simp add: rt_stored_def)+
    qed
  next
    case (revoke ip ua loc)
    from r revoke have e: "revoke_execute V s ip ua loc w = (Inr (), w')"
      by (auto simp: handle_def run_bindM run_retM split: prod.splits sum.splits)
    from execute_outcome(3) [OF d e] obtain es w1 where t: "revoke_tx V s ip ua loc w = (Inr es, w1)"
      and w1: "db w' = db w1" by auto
    show ?thesis
      by (rule revoke_tx_Inr [OF d t])
        (auto simp: ended_def w1 [symmetric] abs_store_def rt_stored_def intro!: exI)
  qed
qed

lemma ended_raises:
  assumes d: "db_inv (db w)" and c: "ends_session c = Some s" and p: "ended w s"
  shows "\<exists>e. fst (handle V c w) = Inl e"
proof (rule ccontr)
  assume "\<nexists>e. fst (handle V c w) = Inl e"
  then obtain x where "fst (handle V c w) = Inr x" by (cases "fst (handle V c w)") auto
  then have r: "handle V c w = (Inr x, snd (handle V c w))" by (simp add: prod_eq_iff)
  from p obtain k t where t: "rt_lookup (db w) k = Some t" "r_token_hash t = hash_token s" "r_revoked_at t \<noteq> None"
    unfolding ended_def by blast
  have u: "t' = t" if "rt_get_by_string s (db w) = Inr (Some t')" for t'
    using rt_get_by_string_unique [OF that t(1,2)] by simp
  consider (refresh) ip ua loc where "c = Refresh s ip ua loc" | (revoke) ip ua loc where "c = Revoke s ip ua loc"
    using c by (cases c rule: ends_session.cases) auto
  then show False
  proof cases
    case (refresh ip ua loc)
    from r refresh obtain p where e: "refresh_execute V s ip ua loc w = (Inr p, snd (handle V c w))"
      by (auto simp: handle_def run_bindM run_retM split: prod.splits sum.splits)
    from refresh_outcome [OF d e] obtain es where "refresh_tx V s w = (Inr (es, p), snd (handle V c w))" by auto
    with d show False by (rule refresh_tx_Inr) (use u t(3) in auto)
  next
    case (revoke ip ua loc)
    from r revoke have e: "revoke_execute V s ip ua loc w = (Inr (), snd (handle V c w))"
      by (auto simp: handle_def run_bindM run_retM split: prod.splits sum.splits)
    from execute_outcome(3) [OF d e] obtain es w1 where "revoke_tx V s ip ua loc w = (Inr es, w1)" by auto
    with d show False by (rule revoke_tx_Inr) (use u t(3) in auto)
  qed
qed

section \<open>What a call publishes\<close>

text \<open>The classes of the events that a call that ends normally adds to the audit log and to the notifications.\<close>

fun audit_of :: "app_world \<Rightarrow> call \<Rightarrow> string list" where
  "audit_of w (Register em pw) = (if user_get_by_email em (db w) = Inr None then [''UserCreated''] else [])"
| "audit_of w (VerifyEmail v) = [''UserEmailVerified'']"
| "audit_of w (Login m p ip ua loc) = [''RefreshTokenCreated'']"
| "audit_of w (Refresh s ip ua loc) = []"
| "audit_of w (Revoke s ip ua loc) = [''RefreshTokenRevoked'']"
| "audit_of w (ChangePassword a p q) = [''UserPasswordChanged'']"
| "audit_of w (RecoverRequest em) = []"
| "audit_of w (Recover v pw) = [''UserPasswordRecovered'']"

fun notices_of :: "call \<Rightarrow> string list" where
  "notices_of (Register em pw) = [''UserEmailVerificationRequested'']"
| "notices_of (RecoverRequest em) = [''UserPasswordRecoverRequested'']"
| "notices_of _ = []"

lemma register_outcome_types:
  assumes d: "db_inv (db w)" and r: "register_tx V em pw w = (Inr es, w1)"
  shows "map type_name (filter is_domain_event es) = audit_of w (Register em pw)
    \<and> map type_name (filter is_notification_event es) = notices_of (Register em pw)"
proof -
  obtain f where f: "user_get_by_email em (db w) = Inr f"
    using r by (cases "user_get_by_email em (db w)") (auto simp: register_tx_def run_simps)
  show ?thesis
  proof (cases f)
    case None
    show ?thesis by (rule register_tx_new [OF d f [unfolded None] r]) (simp add: f None)
  next
    case (Some u)
    show ?thesis by (rule register_tx_again [OF d f [unfolded Some] r]) (use f Some in auto)
  qed
qed

lemma handle_published:
  assumes d: "db_inv (db w)" and r: "handle V c w = (Inr x, w')"
  shows "\<exists>es. committed V w es w' \<and> map type_name (filter is_domain_event es) = audit_of w c
    \<and> map type_name (filter is_notification_event es) = notices_of c"
proof (cases c)
  case (Register em pw)
  with r have e: "register_execute V em pw w = (Inr (), w')"
    by (auto simp: handle_def run_bindM run_retM split: prod.splits sum.splits)
  from execute_outcome(1) [OF d e] register_outcome_types [OF d] show ?thesis unfolding Register by blast
next
  case (VerifyEmail v)
  with r have e: "verify_email_execute V v w = (Inr (), w')"
    by (auto simp: handle_def run_bindM run_retM split: prod.splits sum.splits)
  from execute_outcome(2) [OF d e] obtain es w1 where t: "verify_email_tx V v w = (Inr es, w1)" and "committed V w es w'" by auto
  then show ?thesis unfolding VerifyEmail by (intro exI [of _ es]) (rule verify_email_tx_Inr [OF d t], simp)
next
  case (Login m p ip ua loc)
  with r obtain q where e: "login_execute V m p ip ua loc w = (Inr q, w')"
    by (auto simp: handle_def run_bindM run_retM split: prod.splits sum.splits)
  from login_outcome [OF d e] obtain es w1 where t: "login_tx V m p ip ua loc w = (Inr (es, q), w1)"
    and "committed V w es w'" by auto
  then show ?thesis unfolding Login by (intro exI [of _ es]) (rule login_tx_Inr [OF d t], simp)
next
  case (Refresh s ip ua loc)
  with r obtain q where e: "refresh_execute V s ip ua loc w = (Inr q, w')"
    by (auto simp: handle_def run_bindM run_retM split: prod.splits sum.splits)
  from refresh_outcome [OF d e] show ?thesis unfolding Refresh by (intro exI [of _ "[]"]) auto
next
  case (Revoke s ip ua loc)
  with r have e: "revoke_execute V s ip ua loc w = (Inr (), w')"
    by (auto simp: handle_def run_bindM run_retM split: prod.splits sum.splits)
  from execute_outcome(3) [OF d e] obtain es w1 where t: "revoke_tx V s ip ua loc w = (Inr es, w1)" and "committed V w es w'" by auto
  then show ?thesis unfolding Revoke by (intro exI [of _ es]) (rule revoke_tx_Inr [OF d t], simp)
next
  case (ChangePassword a p q)
  with r have e: "change_password_execute V a p q w = (Inr (), w')"
    by (auto simp: handle_def run_bindM run_retM split: prod.splits sum.splits)
  from execute_outcome(4) [OF d e] obtain es w1 where t: "change_password_tx V a p q w = (Inr es, w1)" and "committed V w es w'" by auto
  then show ?thesis unfolding ChangePassword by (intro exI [of _ es]) (rule change_password_tx_Inr [OF d t], simp)
next
  case (RecoverRequest em)
  with r have e: "recover_request_execute V em w = (Inr (), w')"
    by (auto simp: handle_def run_bindM run_retM split: prod.splits sum.splits)
  from execute_outcome(5) [OF d e] obtain es w1 where t: "recover_request_tx V em w = (Inr es, w1)" and "committed V w es w'" by auto
  then show ?thesis unfolding RecoverRequest by (intro exI [of _ es]) (rule recover_request_tx_Inr [OF d t], simp)
next
  case (Recover v pw)
  with r have e: "recover_execute V v pw w = (Inr (), w')"
    by (auto simp: handle_def run_bindM run_retM split: prod.splits sum.splits)
  from execute_outcome(6) [OF d e] obtain es w1 where t: "recover_tx V v pw w = (Inr es, w1)" and "committed V w es w'" by auto
  then show ?thesis unfolding Recover by (intro exI [of _ es]) (rule recover_tx_Inr [OF d t], simp)
qed

text \<open>A reuse is reported by the exception only: nothing but the clock has moved.\<close>

lemma refresh_reuse:
  assumes "rt_get_by_string s (db w) = Inr (Some t)" and "r_replaced_by_id t \<noteq> None"
  shows "refresh_execute V s ip ua loc w = (Inl (mk_error RefreshTokenReuse None), w\<lparr>tick := Suc (tick w)\<rparr>)"
proof -
  have i: "isinstance (mk_error RefreshTokenReuse None) RefreshTokenReuse"
    by (simp add: isinstance_RefreshTokenReuse mk_error_def)
  have tx: "with_tx (refresh_tx V s) w = (Inl (mk_error RefreshTokenReuse None), w)"
    using assms by (simp add: with_tx_def refresh_tx_def run_simps run_rt_use)
  show ?thesis unfolding refresh_execute_def
    by (simp add: run_simps tx i) (simp add: with_tx_def reuse_tx_def run_simps assms(1) redisq_push_def)
qed

section \<open>A verification that cannot fail\<close>

text \<open>The verification with a stored, unused, unexpired token of an unverified user, where the versions have room.\<close>

lemma verify_email_handled:
  assumes "db_inv (db w)" and "ott_get_by_string (PyStr s) (db w) = Inr (Some t)"
    and "o_purpose t = VERIFY_EMAIL" and "\<not> o_used t" and "now_at (sys V) (tick w) \<le> o_expires_at t"
    and "user_lookup (db w) (o_user_id t) = Some u" and "\<not> u_is_email_verified u"
    and "\<exists>v. o_version t = Some v \<and> int4 (v + 1)" and "\<exists>v. u_version u = Some v \<and> int4 (v + 1)"
  obtains w' where "handle V (VerifyEmail (PyStr s)) w = (Inr None, w')" and "db_inv (db w')"
    and "user_lookup (db w') = (user_lookup (db w))(o_user_id t \<mapsto> user_stored (u\<lparr>u_is_email_verified := True\<rparr>))"
    and "ott_lookup (db w') = (ott_lookup (db w))(o_id t \<mapsto> ott_stored (t\<lparr>o_used := True\<rparr>))"
proof -
  from assms(8,9) obtain a b where a: "o_version t = Some a" "int4 (a + 1)" and b: "u_version u = Some b" "int4 (b + 1)"
    by blast
  have ui: "u_id u = o_user_id t" using user_repo.lookup_key [OF assms(1,6)] by simp
  have tl: "ott_lookup (db w) (o_id t) = Some t" using ott_get_by_string_Some [OF assms(1,2)] by blast
  let ?u = "u\<lparr>u_is_email_verified := True, u_events := []\<rparr>" and ?t = "t\<lparr>o_used := True\<rparr>"
  obtain u1 d1 where s1: "user_save ?u (db w) = Inr (u1, d1)"
    using user_save_current [OF assms(1), of ?u b u] assms(6) ui b by auto
  note l1 = user_save_lookup [OF assms(1) s1]
  obtain t1 d2 where s2: "ott_save ?t d1 = Inr (t1, d2)"
    using ott_save_current [OF l1(4), of ?t a t] tl l1(2) a by auto
  have e: "verify_email_tx V (PyStr s) w = (Inr (u_events u @ [UserEmailVerified (now_at (sys V) (Suc (tick w))) (u_id u) (u_email u)]),
      w\<lparr>tick := Suc (Suc (tick w)), db := d2\<rparr>)"
    using assms(2-7) s1 s2 user_get_by_id_eq [OF assms(1)]
    by (simp add: verify_email_tx_def run_simps verify_email_def user_pull_domain_events_def)
  note sv = save_user_ott [OF assms(1) s1 s2]
  have st: "abs_store d2 = (abs_store (db w))
      \<lparr>st_users := (user_lookup (db w))(u_id u \<mapsto> user_stored (u\<lparr>u_is_email_verified := True\<rparr>)),
       st_otts := (ott_lookup (db w))(o_id t \<mapsto> ott_stored ?t)\<rparr>"
    using sv(1) tl by simp
  obtain w' where h: "handle V (VerifyEmail (PyStr s)) w = (Inr None, w')" and w': "db w' = d2"
    by (simp add: handle_def verify_email_execute_def with_tx_def run_simps e)
  show ?thesis
    by (rule that [OF h]) (use arg_cong [OF st, of st_users] arg_cong [OF st, of st_otts] ui w' sv(2) tl in auto)
qed

end
