(* ===== verification/Dto.thy ===== *)
theory Dto
  imports Validators
begin

text \<open>
  The data that the endpoints hand to the use cases: \<^verbatim>\<open>app/application/dto/user.py\<close>. Every field
  is marked \<open>SkipValidation\<close>, so an object is made of any values; the lengths in a \<open>Field\<close> are not
  checked either (the integration tests expect the answer of the domain's validator, 400, for a
  short password, not FastAPI's 422). A field that only ever comes from a validated \<open>str\<close> or from
  the headers is a text, one that comes straight from a JSON body any value.
\<close>

record register_user_input =
  rui_email :: pyval
  rui_password :: pyval

record verify_email_input =
  vei_one_time_token :: pyval

record login_user_input =
  lui_email :: string
  lui_password :: string
  lui_client_ip :: "string option"
  lui_user_agent :: "string option"
  lui_location :: "string option"

record refresh_token_input =
  rti_refresh_token :: string
  rti_client_ip :: "string option"
  rti_user_agent :: "string option"
  rti_location :: "string option"

record revoke_refresh_token_input =
  rri_refresh_token :: string
  rri_client_ip :: "string option"
  rri_user_agent :: "string option"
  rri_location :: "string option"

record change_password_input =
  cpi_access_token :: string
  cpi_old_password :: string
  cpi_new_password :: string

record password_recover_request_input =
  prri_email :: pyval

record password_recover_input =
  pri_token :: pyval
  pri_password :: pyval

lemma dto_eta [simp]:
  "\<lparr>rui_email = rui_email r, rui_password = rui_password r\<rparr> = r"
  "\<lparr>vei_one_time_token = vei_one_time_token v\<rparr> = v"
  "\<lparr>prri_email = prri_email q\<rparr> = q"
  "\<lparr>pri_token = pri_token p, pri_password = pri_password p\<rparr> = p"
  by simp_all

end
