(* ===== verification/HttpApi.thy ===== *)
theory HttpApi
  imports ServiceSystem PyTime Dto
begin

text \<open>
  \<^verbatim>\<open>app/adapters/inbound/http/routers\<close>: the endpoints with the status codes of their errors, the
  client data taken from the request's headers, and the events page. FastAPI's decoding of
  requests and encoding of responses is left out.
\<close>

section \<open>Endpoints\<close>

text \<open>\<open>TokenResponse\<close>\<close>

record token_response =
  tr_refresh_token :: string
  tr_access_token :: string
  tr_token_type :: string

definition token_response :: "token_pair \<Rightarrow> token_response" where
  "token_response p =
    \<lparr>tr_refresh_token = refresh_token p, tr_access_token = access_token p, tr_token_type = ''bearer''\<rparr>"

text \<open>
  A response: success, with a token response where the endpoint has one, an \<open>HTTPException\<close>
  with its status and detail, or an exception that no handler catches, which is a status 500.
\<close>

datatype http_response = Success "token_response option" | HttpError int string | ServerError exn

text \<open>\<open>try: ... except BaseError as e: raise domain_error(e, status)\<close>\<close>

definition respond :: "int \<Rightarrow> ('a \<Rightarrow> token_response option) \<Rightarrow> 'a app \<Rightarrow> app_world \<Rightarrow> http_response \<times> app_world" where
  "respond status answer m w =
    (case m w of
       (Inr a, w') \<Rightarrow> (Success (answer a), w')
     | (Inl e, w') \<Rightarrow>
         if isinstance e BaseError then (HttpError status (err_str e), w') else (ServerError e, w'))"

definition register_user :: "env \<Rightarrow> register_user_input \<Rightarrow> app_world \<Rightarrow> http_response \<times> app_world" where
  "register_user V data = respond 400 (\<lambda>_. None) (register_execute V (rui_email data) (rui_password data))"

definition verify_email_endpoint :: "env \<Rightarrow> verify_email_input \<Rightarrow> app_world \<Rightarrow> http_response \<times> app_world" where
  "verify_email_endpoint V data = respond 400 (\<lambda>_. None) (verify_email_execute V (vei_one_time_token data))"

definition login_endpoint ::
  "env \<Rightarrow> string \<Rightarrow> string \<Rightarrow> string option \<Rightarrow> string option \<Rightarrow> string option \<Rightarrow> app_world \<Rightarrow> http_response \<times> app_world" where
  "login_endpoint V email password ip ua loc =
    (let case_data = \<lparr>lui_email = email, lui_password = password, lui_client_ip = ip, lui_user_agent = ua, lui_location = loc\<rparr>
     in respond 401 (\<lambda>p. Some (token_response p))
       (login_execute V (lui_email case_data) (lui_password case_data) (lui_client_ip case_data)
         (lui_user_agent case_data) (lui_location case_data)))"

definition refresh_endpoint ::
  "env \<Rightarrow> string \<Rightarrow> string option \<Rightarrow> string option \<Rightarrow> string option \<Rightarrow> app_world \<Rightarrow> http_response \<times> app_world" where
  "refresh_endpoint V token ip ua loc =
    (let case_data = \<lparr>rti_refresh_token = token, rti_client_ip = ip, rti_user_agent = ua, rti_location = loc\<rparr>
     in respond 400 (\<lambda>p. Some (token_response p))
       (refresh_execute V (rti_refresh_token case_data) (rti_client_ip case_data) (rti_user_agent case_data)
         (rti_location case_data)))"

definition revoke_endpoint ::
  "env \<Rightarrow> string \<Rightarrow> string option \<Rightarrow> string option \<Rightarrow> string option \<Rightarrow> app_world \<Rightarrow> http_response \<times> app_world" where
  "revoke_endpoint V token ip ua loc =
    (let case_data = \<lparr>rri_refresh_token = token, rri_client_ip = ip, rri_user_agent = ua, rri_location = loc\<rparr>
     in respond 400 (\<lambda>_. None)
       (revoke_execute V (rri_refresh_token case_data) (rri_client_ip case_data) (rri_user_agent case_data)
         (rri_location case_data)))"

definition change_password_endpoint ::
  "env \<Rightarrow> string \<Rightarrow> string \<Rightarrow> string \<Rightarrow> app_world \<Rightarrow> http_response \<times> app_world" where
  "change_password_endpoint V access old new =
    (let case_data = \<lparr>cpi_access_token = access, cpi_old_password = old, cpi_new_password = new\<rparr>
     in respond 400 (\<lambda>_. None)
       (change_password_execute V (cpi_access_token case_data) (cpi_old_password case_data) (cpi_new_password case_data)))"

text \<open>\<open>except BaseError: pass\<close>\<close>

definition request_password_recover_endpoint ::
  "env \<Rightarrow> password_recover_request_input \<Rightarrow> app_world \<Rightarrow> http_response \<times> app_world" where
  "request_password_recover_endpoint V data w =
    (case recover_request_execute V (prri_email data) w of
       (Inr _, w') \<Rightarrow> (Success None, w')
     | (Inl e, w') \<Rightarrow> if isinstance e BaseError then (Success None, w') else (ServerError e, w'))"

definition password_recover_endpoint ::
  "env \<Rightarrow> password_recover_input \<Rightarrow> app_world \<Rightarrow> http_response \<times> app_world" where
  "password_recover_endpoint V data = respond 400 (\<lambda>_. None) (recover_execute V (pri_token data) (pri_password data))"

definition swagger_token ::
  "env \<Rightarrow> string \<Rightarrow> string \<Rightarrow> string option \<Rightarrow> string option \<Rightarrow> string option \<Rightarrow> app_world \<Rightarrow> http_response \<times> app_world" where
  "swagger_token V username password ip ua loc =
    (let case_data = \<lparr>lui_email = username, lui_password = password, lui_client_ip = ip, lui_user_agent = ua, lui_location = loc\<rparr>
     in respond 401 (\<lambda>p. Some (token_response p))
       (login_execute V (lui_email case_data) (lui_password case_data) (lui_client_ip case_data)
         (lui_user_agent case_data) (lui_location case_data)))"

text \<open>The routes: which endpoint answers which call of the service.\<close>

fun route :: "env \<Rightarrow> call \<Rightarrow> app_world \<Rightarrow> http_response \<times> app_world" where
  "route V (Register email password) = register_user V \<lparr>rui_email = email, rui_password = password\<rparr>"
| "route V (VerifyEmail token) = verify_email_endpoint V \<lparr>vei_one_time_token = token\<rparr>"
| "route V (Login email password ip ua loc) = login_endpoint V email password ip ua loc"
| "route V (Refresh token ip ua loc) = refresh_endpoint V token ip ua loc"
| "route V (Revoke token ip ua loc) = revoke_endpoint V token ip ua loc"
| "route V (ChangePassword access old new) = change_password_endpoint V access old new"
| "route V (RecoverRequest email) = request_password_recover_endpoint V \<lparr>prri_email = email\<rparr>"
| "route V (Recover token password) = password_recover_endpoint V \<lparr>pri_token = token, pri_password = password\<rparr>"

section \<open>Client data\<close>

text \<open>The headers that the dependencies read; a missing header is \<open>None\<close>.\<close>

record http_request =
  x_forwarded_for :: "string option"
  x_real_ip :: "string option"
  client_host :: "string option"
  user_agent_header :: "string option"
  cf_ipcountry :: "string option"
  x_country_code :: "string option"
  accept_language :: "string option"

text \<open>The truth value of an optional text: neither \<open>None\<close> nor empty.\<close>

definition truthy :: "string option \<Rightarrow> bool" where
  "truthy v \<longleftrightarrow> v \<noteq> None \<and> v \<noteq> Some []"

definition get_client_ip :: "http_request \<Rightarrow> string" where
  "get_client_ip r =
    (if truthy (x_forwarded_for r) then py_strip (hd (py_split (CHR '','') (the (x_forwarded_for r))))
     else if truthy (x_real_ip r) then py_strip (the (x_real_ip r))
     else (case client_host r of Some host \<Rightarrow> host | None \<Rightarrow> ''unknown''))"

definition get_user_agent :: "http_request \<Rightarrow> string" where
  "get_user_agent r = (if truthy (user_agent_header r) then the (user_agent_header r) else ''unknown'')"

definition get_location :: "http_request \<Rightarrow> string option" where
  "get_location r =
    (if truthy (cf_ipcountry r) \<and> cf_ipcountry r \<noteq> Some ''XX'' then cf_ipcountry r
     else if truthy (x_country_code r) then x_country_code r
     else if truthy (accept_language r) then
       (let parts = py_split (CHR ''-'') (hd (py_split (CHR '','') (the (accept_language r)))) in
        if length parts > 1 then Some (py_upper (parts ! 1)) else None)
     else None)"

section \<open>The events page\<close>

datatype field_value = VTime datetime | VUuid uuid | VText string | VNone

definition opt_value :: "string option \<Rightarrow> field_value" where
  "opt_value v = (case v of None \<Rightarrow> VNone | Some s \<Rightarrow> VText s)"

text \<open>\<open>event.__dict__\<close>: the fields of an event in the order of its class.\<close>

fun event_dict :: "event \<Rightarrow> (string \<times> field_value) list" where
  "event_dict (UserCreated ts u m) = [(''timestamp'', VTime ts), (''user_id'', VUuid u), (''email'', VText m)]"
| "event_dict (UserActivated ts u) = [(''timestamp'', VTime ts), (''user_id'', VUuid u)]"
| "event_dict (UserDeactivated ts u) = [(''timestamp'', VTime ts), (''user_id'', VUuid u)]"
| "event_dict (UserEmailVerified ts u m) = [(''timestamp'', VTime ts), (''user_id'', VUuid u), (''email'', VText m)]"
| "event_dict (UserPasswordChanged ts u) = [(''timestamp'', VTime ts), (''user_id'', VUuid u)]"
| "event_dict (UserPasswordRecovered ts u) = [(''timestamp'', VTime ts), (''user_id'', VUuid u)]"
| "event_dict (UserEmailVerificationRequested ts u m t) =
    [(''timestamp'', VTime ts), (''user_id'', VUuid u), (''email'', VText m), (''token'', VText t)]"
| "event_dict (UserPasswordRecoverRequested ts u m t) =
    [(''timestamp'', VTime ts), (''user_id'', VUuid u), (''email'', VText m), (''token'', VText t)]"
| "event_dict (RefreshTokenCreated ts u i ip ua loc) =
    [(''timestamp'', VTime ts), (''user_id'', VUuid u), (''token_id'', VUuid i),
     (''client_ip'', opt_value ip), (''user_agent'', opt_value ua), (''location'', opt_value loc)]"
| "event_dict (RefreshTokenRevoked ts u i) = [(''timestamp'', VTime ts), (''user_id'', VUuid u), (''token_id'', VUuid i)]"
| "event_dict (RefreshTokenReuseDetected ts u i ip ua loc) =
    [(''timestamp'', VTime ts), (''user_id'', VUuid u), (''token_id'', VUuid i),
     (''client_ip'', opt_value ip), (''user_agent'', opt_value ua), (''location'', opt_value loc)]"
| "event_dict (SuspiciousRefreshTokenRevocation ts u i ip ua loc) =
    [(''timestamp'', VTime ts), (''user_id'', VUuid u), (''token_id'', VUuid i),
     (''client_ip'', opt_value ip), (''user_agent'', opt_value ua), (''location'', opt_value loc)]"

definition serialize_value :: "field_value \<Rightarrow> string" where
  "serialize_value v =
    (case v of
       VTime t \<Rightarrow> strftime t
     | VNone \<Rightarrow> ''null''
     | VText s \<Rightarrow> if length s \<le> 150 then s else py_slice 0 150 s @ ''...''
     | VUuid u \<Rightarrow> uuid_str u)"

definition event_to_dict :: "event \<Rightarrow> (string \<times> string) list" where
  "event_to_dict e =
    map (\<lambda>(k, v). (k, serialize_value v)) (filter (\<lambda>(k, v). take 1 k \<noteq> ''_'') (event_dict e))"

text \<open>Every event has a \<open>timestamp\<close>, and a \<open>datetime\<close> is always true.\<close>

definition get_event_timestamp :: "event \<Rightarrow> string" where
  "get_event_timestamp e = strftime (event_timestamp e)"

record event_view =
  ev_type :: string
  ev_timestamp :: string
  ev_fields :: "(string \<times> string) list"

record page_view =
  pv_events :: "event_view list"
  pv_page :: int
  pv_has_next :: bool
  pv_has_prev :: bool
  pv_next_page :: int
  pv_prev_page :: int

definition event_view_of :: "event \<Rightarrow> event_view" where
  "event_view_of e =
    \<lparr>ev_type = type_name e, ev_timestamp = get_event_timestamp e, ev_fields = event_to_dict e\<rparr>"

definition per_page :: int where
  "per_page = 10"

definition queue_get :: "env \<Rightarrow> int \<Rightarrow> int \<Rightarrow> bool \<Rightarrow> event list app" where
  "queue_get V offset limit desc = (\<lambda>w. redisq_get (pyd V) (sys V) (red V) offset limit desc (event_log w) w)"

definition events_page :: "env \<Rightarrow> int \<Rightarrow> page_view app" where
  "events_page V page =
    (let offset = (page - 1) * per_page in
     bindM (queue_get V offset per_page True) (\<lambda>events.
     let events_data = map event_view_of events in
     bindM (queue_get V (offset + per_page) 1 False) (\<lambda>next_page_events.
     retM \<lparr>pv_events = events_data, pv_page = page, pv_has_next = 0 < length next_page_events,
           pv_has_prev = 1 < page, pv_next_page = page + 1, pv_prev_page = page - 1\<rparr>)))"

section \<open>Facts about the endpoints\<close>

lemma queue_get_run:
  assumes "log_inv V w" and "0 \<le> offset" and "0 < limit"
  shows "queue_get V offset limit desc w =
    (Inr (take (nat limit) (drop (nat offset) (if desc then rev (audit V w) else audit V w))), w)"
  unfolding queue_get_def audit_def
  by (rule redisq_window [OF assms(1) [unfolded log_inv_def] assms(2,3)])

text \<open>The newest events that a page shows.\<close>

definition page_events :: "env \<Rightarrow> app_world \<Rightarrow> int \<Rightarrow> event list" where
  "page_events V w page = take 10 (drop (nat ((page - 1) * 10)) (rev (audit V w)))"

lemma events_page_run:
  assumes "log_inv V w" and "1 \<le> page"
  shows "events_page V page w =
    (Inr \<lparr>pv_events = map event_view_of (page_events V w page), pv_page = page,
       pv_has_next = (page_events V w (page + 1) \<noteq> []),
       pv_has_prev = (1 < page), pv_next_page = page + 1, pv_prev_page = page - 1\<rparr>, w)"
proof -
  have o: "0 \<le> (page - 1) * per_page" "0 < per_page" "0 \<le> (page - 1) * per_page + per_page"
    using assms(2) by (simp_all add: per_page_def)
  have b1: "(0::int) < 1" by simp
  note a = queue_get_run [OF assms(1) o(1,2), of True] and b = queue_get_run [OF assms(1) o(3) b1, of False]
  have e: "take (nat per_page) (drop (nat ((page - 1) * per_page)) (rev (audit V w))) = page_events V w page"
    by (simp add: page_events_def per_page_def)
  have m: "nat ((page - 1) * per_page + per_page) = nat ((page + 1 - 1) * 10)"
    by (simp add: per_page_def)
  have n: "(0 < length (take (nat 1) (drop k (audit V w)))) = (take 10 (drop k (rev (audit V w))) \<noteq> [])" for k
    by auto
  have h: "(0 < length (take (nat 1) (drop (nat ((page - 1) * per_page + per_page)) (audit V w))))
      = (page_events V w (page + 1) \<noteq> [])"
    unfolding m n page_events_def by (rule refl)
  show ?thesis
    by (simp only: events_page_def Let_def run_bindM run_retM a b e h if_True if_False prod.case sum.case)
qed

lemma respond_cases:
  "respond st f m w =
    (case m w of
       (Inr a, w') \<Rightarrow> (Success (f a), w')
     | (Inl (AppError c t), w') \<Rightarrow> (HttpError st t, w')
     | (Inl (LibError l), w') \<Rightarrow> (ServerError (LibError l), w'))"
  by (auto simp: respond_def isinstance_BaseError split: prod.split sum.split exn.split)

text \<open>The answer of an endpoint, by the outcome of the call.\<close>

fun error_status :: "call \<Rightarrow> int" where
  "error_status (Login _ _ _ _ _) = 401"
| "error_status _ = 400"

definition answer :: "call \<Rightarrow> exn + token_pair option \<Rightarrow> http_response" where
  "answer c r =
    (case r of
       Inr x \<Rightarrow> Success (map_option token_response x)
     | Inl (AppError k t) \<Rightarrow>
         (case c of RecoverRequest _ \<Rightarrow> Success None | _ \<Rightarrow> HttpError (error_status c) t)
     | Inl (LibError l) \<Rightarrow> ServerError (LibError l))"

lemmas endpoint_defs =
  register_user_def verify_email_endpoint_def login_endpoint_def refresh_endpoint_def revoke_endpoint_def
  change_password_endpoint_def request_password_recover_endpoint_def password_recover_endpoint_def

lemma route_answer: "route V c w = (answer c (fst (handle V c w)), snd (handle V c w))"
  by (cases c)
    (simp_all add: endpoint_defs Let_def respond_cases handle_def answer_def run_bindM run_retM isinstance_BaseError
      split: prod.split sum.split exn.split)

end
