(* ===== verification/HttpRoutes.thy ===== *)
theory HttpRoutes
  imports HttpApi
begin

text \<open>
  The HTTP interface as a whole: the routes of \<^verbatim>\<open>app/adapters/inbound/http/routers\<close> with their
  prefixes, how the request models of \<^verbatim>\<open>schemas.py\<close> and \<^verbatim>\<open>application/dto/user.py\<close> are read, and what an
  incoming request makes of them; every request is shown to be one call of the service, or none.
\<close>

section \<open>Requests\<close>

text \<open>
  A request as FastAPI hands it on: the headers, the value of the JSON body (\<open>None\<close> where there is
  none), the fields of a form, the bearer token of the \<open>Authorization\<close> header, and the query
  parameter \<open>page\<close>. Parsing these out of the bytes of the request is FastAPI's; a body that is not
  JSON at all is refused by it before any of this.
\<close>

datatype query_int = Missing | NotAnInt | AnInt int

record http_message =
  hm_method :: string
  hm_path :: string
  hm_request :: http_request
  hm_body :: "json option"
  hm_form :: "string \<Rightarrow> string option"
  hm_bearer :: "string option"
  hm_page :: query_int

section \<open>Request models\<close>

type_synonym fields = "(string \<times> json) list"

text \<open>The member of a JSON object; of several with one name the last counts.\<close>

definition json_member :: "fields \<Rightarrow> string \<Rightarrow> json option" where
  "json_member f k = map_of (rev f) k"

text \<open>
  A field marked \<open>SkipValidation\<close> takes the value of the body as it comes, or its default where the
  body has none. A field of type \<open>str\<close> is validated by pydantic; \<open>None\<close> stands for the validation error.
\<close>

fun pyval_of :: "json \<Rightarrow> pyval" where
  "pyval_of JNull = PyNone"
| "pyval_of (JStr s) = PyStr s"
| "pyval_of _ = PyOther"

definition skip_field :: "fields \<Rightarrow> string \<Rightarrow> string \<Rightarrow> pyval" where
  "skip_field f k dflt = (case json_member f k of None \<Rightarrow> PyStr dflt | Some j \<Rightarrow> pyval_of j)"

definition skip_required :: "fields \<Rightarrow> string \<Rightarrow> pyval option" where
  "skip_required f k = map_option pyval_of (json_member f k)"

definition str_field :: "pydantic \<Rightarrow> fields \<Rightarrow> string \<Rightarrow> string option \<Rightarrow> string option" where
  "str_field P f k dflt = (case json_member f k of None \<Rightarrow> dflt | Some j \<Rightarrow> load_str P j)"

subsection \<open>\<open>application/dto/user.py\<close>\<close>

definition RegisterUserInputDTO :: "fields \<Rightarrow> register_user_input" where
  "RegisterUserInputDTO f =
    \<lparr>rui_email = skip_field f ''email'' ''example@gmail.com'',
     rui_password = skip_field f ''password'' ''password''\<rparr>"

definition VerifyEmailInputDTO :: "fields \<Rightarrow> verify_email_input" where
  "VerifyEmailInputDTO f = \<lparr>vei_one_time_token = skip_field f ''one_time_token'' ''one_time_token''\<rparr>"

definition PasswordRecoverRequestInputDTO :: "fields \<Rightarrow> password_recover_request_input" where
  "PasswordRecoverRequestInputDTO f = \<lparr>prri_email = skip_field f ''email'' ''example@gmail.com''\<rparr>"

definition PasswordRecoverInputDTO :: "fields \<Rightarrow> password_recover_input option" where
  "PasswordRecoverInputDTO f =
    map_option (\<lambda>t. \<lparr>pri_token = t, pri_password = skip_field f ''password'' ''new_password''\<rparr>)
      (skip_required f ''password_recover_token'')"

subsection \<open>\<open>schemas.py\<close>\<close>

definition RefreshTokenModel :: "pydantic \<Rightarrow> fields \<Rightarrow> string option" where
  "RefreshTokenModel P f = str_field P f ''refresh_token'' None"

record login_user_model =
  lum_email :: string
  lum_password :: string

definition LoginUserModel :: "pydantic \<Rightarrow> fields \<Rightarrow> login_user_model option" where
  "LoginUserModel P f =
    (case (str_field P f ''email'' (Some ''example@gmail.com''), str_field P f ''password'' (Some ''password'')) of
       (Some e, Some p) \<Rightarrow> Some \<lparr>lum_email = e, lum_password = p\<rparr>
     | _ \<Rightarrow> None)"

record change_password_model =
  cpm_old_password :: string
  cpm_new_password :: string

definition ChangePasswordModel :: "pydantic \<Rightarrow> fields \<Rightarrow> change_password_model option" where
  "ChangePasswordModel P f =
    (case (str_field P f ''old_password'' (Some ''old_password''),
           str_field P f ''new_password'' (Some ''new_password'')) of
       (Some old, Some new) \<Rightarrow> Some \<lparr>cpm_old_password = old, cpm_new_password = new\<rparr>
     | _ \<Rightarrow> None)"

section \<open>Routes\<close>

datatype endpoint =
    E_register_user
  | E_verify_email
  | E_login
  | E_refresh_token
  | E_revoke_token
  | E_change_password
  | E_request_password_recover
  | E_password_recover
  | E_swagger_token
  | E_events_page

type_synonym routes = "(string \<times> string \<times> endpoint) list"

definition auth_router :: routes where
  "auth_router =
    [(''POST'', ''/register'', E_register_user),
     (''POST'', ''/verify_email'', E_verify_email),
     (''POST'', ''/token'', E_login),
     (''POST'', ''/refresh'', E_refresh_token),
     (''POST'', ''/revoke'', E_revoke_token),
     (''POST'', ''/password/change'', E_change_password),
     (''POST'', ''/password/recover_request'', E_request_password_recover),
     (''POST'', ''/password/recover'', E_password_recover),
     (''POST'', ''/swagger_token'', E_swagger_token)]"

definition events_router :: routes where
  "events_router = [(''GET'', ''/events'' @ ''/'', E_events_page)]"

definition include_router :: "routes \<Rightarrow> string \<Rightarrow> routes" where
  "include_router r prefix = map (\<lambda>(m, p, e). (m, prefix @ p, e)) r"

definition api_router :: routes where
  "api_router = include_router auth_router ''/auth/api'' @ include_router events_router ''/auth/audit''"

definition find_route :: "string \<Rightarrow> string \<Rightarrow> endpoint option" where
  "find_route method path =
    map_option (\<lambda>(m, p, e). e) (find (\<lambda>(m, p, e). m = method \<and> p = path) api_router)"

text \<open>
  The dependency \<open>get_access_token\<close>: without a bearer token FastAPI's scheme answers 401. A model that
  cannot be validated is answered 422; a request that no route takes, by Starlette.
\<close>

datatype http_answer = Answer http_response | PageAnswer page_view | Rejected int | NotRouted

type_synonym handler = "app_world \<Rightarrow> http_answer \<times> app_world"

definition body_of :: "http_message \<Rightarrow> (fields \<Rightarrow> 'a option) \<Rightarrow> ('a \<Rightarrow> handler) \<Rightarrow> handler" where
  "body_of m model k w =
    (case hm_body m of
       Some (JObj f) \<Rightarrow> (case model f of None \<Rightarrow> (Rejected 422, w) | Some d \<Rightarrow> k d w)
     | _ \<Rightarrow> (Rejected 422, w))"

definition get_access_token :: "http_message \<Rightarrow> (string \<Rightarrow> handler) \<Rightarrow> handler" where
  "get_access_token m k w = (case hm_bearer m of None \<Rightarrow> (Rejected 401, w) | Some token \<Rightarrow> k token w)"

definition answered :: "(app_world \<Rightarrow> http_response \<times> app_world) \<Rightarrow> handler" where
  "answered h w = (case h w of (r, w') \<Rightarrow> (Answer r, w'))"

text \<open>\<open>page: int = Query(default=1, ge=1)\<close>\<close>

definition page_param :: "query_int \<Rightarrow> int option" where
  "page_param q =
    (case q of Missing \<Rightarrow> Some 1 | NotAnInt \<Rightarrow> None | AnInt n \<Rightarrow> if 1 \<le> n then Some n else None)"

definition form_str :: "http_message \<Rightarrow> string \<Rightarrow> string \<Rightarrow> string" where
  "form_str m k dflt = (case hm_form m k of None \<Rightarrow> dflt | Some s \<Rightarrow> s)"

definition client_data :: "http_message \<Rightarrow> string option \<times> string option \<times> string option" where
  "client_data m =
    (Some (get_client_ip (hm_request m)), Some (get_user_agent (hm_request m)), get_location (hm_request m))"

fun call_endpoint :: "env \<Rightarrow> http_message \<Rightarrow> endpoint \<Rightarrow> handler" where
  "call_endpoint V m E_register_user =
    body_of m (Some \<circ> RegisterUserInputDTO) (\<lambda>d. answered (register_user V d))"
| "call_endpoint V m E_verify_email =
    body_of m (Some \<circ> VerifyEmailInputDTO) (\<lambda>d. answered (verify_email_endpoint V d))"
| "call_endpoint V m E_login =
    body_of m (LoginUserModel (pyd V)) (\<lambda>d. case client_data m of (ip, ua, loc) \<Rightarrow>
      answered (login_endpoint V (lum_email d) (lum_password d) ip ua loc))"
| "call_endpoint V m E_refresh_token =
    body_of m (RefreshTokenModel (pyd V)) (\<lambda>t. case client_data m of (ip, ua, loc) \<Rightarrow>
      answered (refresh_endpoint V t ip ua loc))"
| "call_endpoint V m E_revoke_token =
    body_of m (RefreshTokenModel (pyd V)) (\<lambda>t. case client_data m of (ip, ua, loc) \<Rightarrow>
      answered (revoke_endpoint V t ip ua loc))"
| "call_endpoint V m E_change_password =
    get_access_token m (\<lambda>access. body_of m (ChangePasswordModel (pyd V)) (\<lambda>d.
      answered (change_password_endpoint V access (cpm_old_password d) (cpm_new_password d))))"
| "call_endpoint V m E_request_password_recover =
    body_of m (Some \<circ> PasswordRecoverRequestInputDTO) (\<lambda>d. answered (request_password_recover_endpoint V d))"
| "call_endpoint V m E_password_recover =
    body_of m PasswordRecoverInputDTO (\<lambda>d. answered (password_recover_endpoint V d))"
| "call_endpoint V m E_swagger_token =
    (case client_data m of (ip, ua, loc) \<Rightarrow>
      answered (swagger_token V (form_str m ''username'' ''example@gmail.com'') (form_str m ''password'' ''password'')
        ip ua loc))"
| "call_endpoint V m E_events_page =
    (\<lambda>w. case page_param (hm_page m) of
       None \<Rightarrow> (Rejected 422, w)
     | Some page \<Rightarrow>
         (case events_page V page w of
            (Inr v, w') \<Rightarrow> (PageAnswer v, w')
          | (Inl e, w') \<Rightarrow> (Answer (ServerError e), w')))"

definition serve :: "env \<Rightarrow> http_message \<Rightarrow> handler" where
  "serve V m w =
    (case find_route (hm_method m) (hm_path m) of
       None \<Rightarrow> (NotRouted, w)
     | Some e \<Rightarrow> call_endpoint V m e w)"

section \<open>Every request is one call, or none\<close>

text \<open>The table, route by route.\<close>

lemma find_routes:
  "find_route ''POST'' ''/auth/api/register'' = Some E_register_user"
  "find_route ''POST'' ''/auth/api/verify_email'' = Some E_verify_email"
  "find_route ''POST'' ''/auth/api/token'' = Some E_login"
  "find_route ''POST'' ''/auth/api/refresh'' = Some E_refresh_token"
  "find_route ''POST'' ''/auth/api/revoke'' = Some E_revoke_token"
  "find_route ''POST'' ''/auth/api/password/change'' = Some E_change_password"
  "find_route ''POST'' ''/auth/api/password/recover_request'' = Some E_request_password_recover"
  "find_route ''POST'' ''/auth/api/password/recover'' = Some E_password_recover"
  "find_route ''POST'' ''/auth/api/swagger_token'' = Some E_swagger_token"
  "find_route ''GET'' ''/auth/audit/events/'' = Some E_events_page"
  by code_simp+

text \<open>An answer that is no success: the call changed nothing, and an \<open>HTTPException\<close> has the endpoint's status.\<close>

lemma answer_failed:
  assumes "db_inv (db w)" and "\<forall>x. answer c (fst (handle V c w)) \<noteq> Success x"
  shows "unchanged w (snd (handle V c w))"
proof (cases "fst (handle V c w)")
  case (Inl e)
  then show ?thesis using handle_outcome [OF assms(1) handle_pair, of V c] by auto
next
  case (Inr y)
  then show ?thesis using assms(2) by (simp add: answer_def)
qed

lemma answer_error:
  "answer c r = HttpError st t \<Longrightarrow>
    (\<exists>k. r = Inl (AppError k t)) \<and> st = (case c of Login _ _ _ _ _ \<Rightarrow> 401 | _ \<Rightarrow> 400)"
  by (auto simp: answer_def split: sum.splits exn.splits call.splits)

text \<open>The call of the service that a request stands for.\<close>

definition body_call :: "http_message \<Rightarrow> (fields \<Rightarrow> 'a option) \<Rightarrow> ('a \<Rightarrow> call) \<Rightarrow> call option" where
  "body_call m model c =
    (case hm_body m of Some (JObj f) \<Rightarrow> map_option c (model f) | _ \<Rightarrow> None)"

fun endpoint_call :: "pydantic \<Rightarrow> http_message \<Rightarrow> endpoint \<Rightarrow> call option" where
  "endpoint_call P m E_register_user =
    body_call m (Some \<circ> RegisterUserInputDTO) (\<lambda>d. Register (rui_email d) (rui_password d))"
| "endpoint_call P m E_verify_email = body_call m (Some \<circ> VerifyEmailInputDTO) (\<lambda>d. VerifyEmail (vei_one_time_token d))"
| "endpoint_call P m E_login =
    (case client_data m of (ip, ua, loc) \<Rightarrow>
      body_call m (LoginUserModel P) (\<lambda>d. Login (lum_email d) (lum_password d) ip ua loc))"
| "endpoint_call P m E_refresh_token =
    (case client_data m of (ip, ua, loc) \<Rightarrow> body_call m (RefreshTokenModel P) (\<lambda>t. Refresh t ip ua loc))"
| "endpoint_call P m E_revoke_token =
    (case client_data m of (ip, ua, loc) \<Rightarrow> body_call m (RefreshTokenModel P) (\<lambda>t. Revoke t ip ua loc))"
| "endpoint_call P m E_change_password =
    Option.bind (hm_bearer m) (\<lambda>access.
      body_call m (ChangePasswordModel P) (\<lambda>d. ChangePassword access (cpm_old_password d) (cpm_new_password d)))"
| "endpoint_call P m E_request_password_recover =
    body_call m (Some \<circ> PasswordRecoverRequestInputDTO) (\<lambda>d. RecoverRequest (prri_email d))"
| "endpoint_call P m E_password_recover =
    body_call m PasswordRecoverInputDTO (\<lambda>d. Recover (pri_token d) (pri_password d))"
| "endpoint_call P m E_swagger_token =
    (case client_data m of (ip, ua, loc) \<Rightarrow>
      Some (Login (form_str m ''username'' ''example@gmail.com'') (form_str m ''password'' ''password'') ip ua loc))"
| "endpoint_call P m E_events_page = None"

definition message_call :: "pydantic \<Rightarrow> http_message \<Rightarrow> call option" where
  "message_call P m = Option.bind (find_route (hm_method m) (hm_path m)) (endpoint_call P m)"

text \<open>A request that is a call is answered as the call's route answers it.\<close>

lemma body_of_call:
  assumes "\<And>d. k d w = answered (route V (c d)) w"
  shows "body_of m model k w =
    (case body_call m model c of Some a \<Rightarrow> answered (route V a) w | None \<Rightarrow> (Rejected 422, w))"
  by (simp add: body_of_def body_call_def assms split: option.split json.split)

lemma swagger_is_login: "swagger_token = login_endpoint"
  by (intro ext) (simp add: swagger_token_def login_endpoint_def)

definition bare :: "http_answer \<Rightarrow> bool" where
  "bare a \<longleftrightarrow> a = NotRouted \<or> a = Rejected 401 \<or> a = Rejected 422 \<or> (\<exists>v. a = PageAnswer v)"

lemma call_endpoint_run:
  assumes "log_inv V w"
  shows "case endpoint_call (pyd V) m e of
      Some c \<Rightarrow> call_endpoint V m e w = answered (route V c) w
    | None \<Rightarrow> \<exists>a. call_endpoint V m e w = (a, w) \<and> bare a"
proof (cases e)
  case E_events_page
  show ?thesis
  proof (cases "page_param (hm_page m)")
    case (Some p)
    then have "1 \<le> p" by (auto simp: page_param_def split: query_int.splits if_splits)
    from events_page_run [OF assms this] show ?thesis by (simp add: E_events_page Some bare_def)
  qed (simp add: E_events_page bare_def)
next
  case E_change_password
  then show ?thesis
    by (auto simp: get_access_token_def bare_def body_of_call [where V = V
            and c = "\<lambda>d. ChangePassword a (cpm_old_password d) (cpm_new_password d)" for a]
        split: option.split)
qed (auto simp: bare_def swagger_is_login split: option.split prod.split
    simp: body_of_call [where V = V and c = "\<lambda>d. Register (rui_email d) (rui_password d)"]
      body_of_call [where V = V and c = "\<lambda>d. VerifyEmail (vei_one_time_token d)"]
      body_of_call [where V = V and c = "\<lambda>d. RecoverRequest (prri_email d)"]
      body_of_call [where V = V and c = "\<lambda>d. Recover (pri_token d) (pri_password d)"]
      body_of_call [where V = V and c = "\<lambda>d. Login (lum_email d) (lum_password d) i u l" for i u l]
      body_of_call [where V = V and c = "\<lambda>t. Refresh t i u l" for i u l]
      body_of_call [where V = V and c = "\<lambda>t. Revoke t i u l" for i u l])

lemma serve_run:
  assumes "log_inv V w"
  shows "case message_call (pyd V) m of
      Some c \<Rightarrow> serve V m w = (Answer (answer c (fst (handle V c w))), snd (handle V c w))
    | None \<Rightarrow> \<exists>a. serve V m w = (a, w) \<and> bare a"
proof (cases "find_route (hm_method m) (hm_path m)")
  case None
  then show ?thesis by (simp add: message_call_def serve_def bare_def)
next
  case (Some e)
  then show ?thesis using call_endpoint_run [OF assms, of m e]
    by (simp add: message_call_def serve_def answered_def route_answer split: option.splits)
qed

end
