(* ===== verification/DemoEnv.thy ===== *)
theory DemoEnv
  imports HttpRoutes
begin

text \<open>
  A concrete environment in which every hypothesis about third-party code holds: a clock that
  ticks in seconds, a bcrypt that keeps the password, a PyJWT that writes the claims as JSON,
  a pydantic that writes UUIDs as text and times as decimal numbers, and Redis lists. It shows
  that the hypotheses can hold together; the witnesses of the theorems evaluate on it.
\<close>

definition demo_hashpw :: "bytes \<Rightarrow> bytes \<Rightarrow> bytes option" where
  "demo_hashpw p salt = (if 72 < length p then None else Some p)"

definition demo_checkpw :: "bytes \<Rightarrow> bytes \<Rightarrow> bool option" where
  "demo_checkpw p h = Some (p = h)"

text \<open>The number that \<open>py_str_int\<close> writes.\<close>

definition str_int_val :: "string \<Rightarrow> int" where
  "str_int_val s = (if take 1 s = ''-'' then - int (digits_val (tl s)) else int (digits_val s))"

fun claim_text :: "claim \<Rightarrow> string" where
  "claim_text (ClaimStr s) = s"
| "claim_text (ClaimTime t) = py_str_int t"

fun claim_kind :: "claim \<Rightarrow> json" where
  "claim_kind (ClaimStr s) = JBool True"
| "claim_kind (ClaimTime t) = JBool False"

definition demo_encode :: "payload \<Rightarrow> string \<Rightarrow> string \<Rightarrow> string" where
  "demo_encode claims secret alg =
    json_dumps (JArr (JStr secret # JStr alg #
      map (\<lambda>(k, c). JArr [JStr k, claim_kind c, JStr (claim_text c)]) claims))"

fun read_claim :: "json \<Rightarrow> (string \<times> claim) option" where
  "read_claim (JArr [JStr k, JBool b, JStr s]) = Some (k, if b then ClaimStr s else ClaimTime (str_int_val s))"
| "read_claim _ = None"

definition time_of :: "string \<Rightarrow> payload \<Rightarrow> datetime option" where
  "time_of k p = (case map_of p k of Some (ClaimTime t) \<Rightarrow> Some t | _ \<Rightarrow> None)"

text \<open>Times are kept in whole seconds; the expiry is checked first, then the issue time.\<close>

definition demo_decode :: "datetime \<Rightarrow> string \<Rightarrow> string \<Rightarrow> string list \<Rightarrow> jwt_error + payload" where
  "demo_decode now token secret algs =
    (case json_loads token of
       Some (JArr (JStr s # JStr a # cs)) \<Rightarrow>
         (case those (map read_claim cs) of
            None \<Rightarrow> Inl InvalidTokenError
          | Some p \<Rightarrow>
              if s \<noteq> secret \<or> a \<notin> set algs then Inl InvalidTokenError
              else if (case time_of ''exp'' p of None \<Rightarrow> False | Some t \<Rightarrow> whole_second t \<le> now)
              then Inl ExpiredSignatureError
              else if (case time_of ''iat'' p of None \<Rightarrow> False | Some t \<Rightarrow> now < whole_second t)
              then Inl InvalidTokenError
              else Inr p)
     | _ \<Rightarrow> Inl InvalidTokenError)"

definition demo_sys :: sysenv where
  "demo_sys =
    \<lparr>now_at = (\<lambda>t. 1000000 * int t), uuid_at = (\<lambda>t. word_of_nat (100 + t)),
     urandom_at = (\<lambda>t i. word_of_nat (t + i)), gensalt_at = (\<lambda>t. []),
     bcrypt_hashpw = demo_hashpw, bcrypt_checkpw = demo_checkpw,
     jwt_encode = demo_encode, jwt_decode = demo_decode\<rparr>"

definition demo_settings :: settings where
  "demo_settings = default_settings ''auth'' ''auth'' ''secret'' ''db'' 5432"

fun json_text :: "json \<Rightarrow> string option" where
  "json_text (JStr s) = Some s"
| "json_text _ = None"

definition demo_pydantic :: pydantic where
  "demo_pydantic =
    \<lparr>dump_uuid = uuid_str, dump_time = py_str_int, load_uuid = (\<lambda>j. Option.bind (json_text j) uuid_parse),
     load_time = (\<lambda>j. map_option str_int_val (json_text j)), load_str = json_text\<rparr>"

definition demo_redis :: redis where
  "demo_redis =
    \<lparr>rpush = (\<lambda>x l. l @ [x]), llen = (\<lambda>l. int (length l)),
     lrange = (\<lambda>a b l. take (nat (b - a + 1)) (drop (nat a) l))\<rparr>"

definition demo_env :: env where
  "demo_env = \<lparr>sys = demo_sys, cfg = demo_settings, pyd = demo_pydantic, red = demo_redis\<rparr>"

section \<open>The hypotheses hold\<close>

lemma demo_env_sel [simp]:
  "sys demo_env = demo_sys" "cfg demo_env = demo_settings" "pyd demo_env = demo_pydantic" "red demo_env = demo_redis"
  by (simp_all add: demo_env_def)

lemma demo_sys_sel [simp]:
  "now_at demo_sys t = 1000000 * int t" "uuid_at demo_sys t = word_of_nat (100 + t)"
  "urandom_at demo_sys t i = word_of_nat (t + i)"
  "bcrypt_hashpw demo_sys = demo_hashpw" "bcrypt_checkpw demo_sys = demo_checkpw"
  "jwt_encode demo_sys = demo_encode" "jwt_decode demo_sys = demo_decode"
  by (simp_all add: demo_sys_def)

lemma demo_bcrypt: "bcrypt_checks demo_sys" "bcrypt_limit demo_sys"
  by (simp_all add: bcrypt_checks_def bcrypt_limit_def demo_hashpw_def demo_checkpw_def)

lemma digit_not_minus: "digit_char n \<noteq> CHR ''-''"
proof
  assume "digit_char n = CHR ''-''"
  then have "chr_ord (digit_char n) = chr_ord (CHR ''-'')" by simp
  moreover have "48 + n mod 10 < 256" using mod_less_divisor [of 10 n] by linarith
  ultimately show False by (simp add: digit_char_def chr_ord_def [of "CHR ''-''"])
qed

lemma py_str_nat_digits: "py_str_nat n \<noteq> [] \<and> CHR ''-'' \<notin> set (py_str_nat n)"
proof (induction n rule: py_str_nat.induct)
  case (1 n)
  then show ?case using digit_not_minus [of n] by (subst (1 2) py_str_nat.simps) auto
qed

lemma str_int_val_str [simp]: "str_int_val (py_str_int i) = i"
proof (cases "i < 0")
  case False
  have "take 1 (py_str_nat (nat i)) \<noteq> ''-''"
    using py_str_nat_digits [of "nat i"] by (cases "py_str_nat (nat i)") auto
  then show ?thesis using False by (simp add: str_int_val_def py_str_int_def)
qed (simp add: str_int_val_def py_str_int_def)

lemma read_claim_written: "read_claim (JArr [JStr k, claim_kind c, JStr (claim_text c)]) = Some (k, c)"
  by (cases c) simp_all

lemma those_map_Some: "those (map Some xs) = Some xs"
  by (induction xs) simp_all

lemma demo_loads_encode:
  "json_loads (demo_encode p secret alg) = Some (JArr (JStr secret # JStr alg #
      map (\<lambda>(k, c). JArr [JStr k, claim_kind c, JStr (claim_text c)]) p))"
proof -
  have k: "json_plain (claim_kind c)" for c by (cases c) simp_all
  show ?thesis unfolding demo_encode_def by (rule json_loads_dumps) (auto simp: list_all_iff k)
qed

lemma demo_decode_encode:
  "demo_decode now (demo_encode p secret alg) secret [alg] =
    (if (case time_of ''exp'' p of None \<Rightarrow> False | Some t \<Rightarrow> whole_second t \<le> now) then Inl ExpiredSignatureError
     else if (case time_of ''iat'' p of None \<Rightarrow> False | Some t \<Rightarrow> now < whole_second t) then Inl InvalidTokenError
     else Inr p)"
proof -
  have "map read_claim (map (\<lambda>(k, c). JArr [JStr k, claim_kind c, JStr (claim_text c)]) p) = map Some p"
    by (induction p) (auto simp: read_claim_written simp del: read_claim.simps)
  then have "those (map read_claim (map (\<lambda>(k, c). JArr [JStr k, claim_kind c, JStr (claim_text c)]) p)) = Some p"
    by (simp only: those_map_Some)
  then show ?thesis by (simp add: demo_decode_def demo_loads_encode del: map_map)
qed

lemma demo_jwt: "jwt_faithful demo_sys S"
  unfolding jwt_faithful_def Let_def demo_sys_sel demo_decode_encode by (simp add: time_of_def)

lemma demo_roundtrip: "pydantic_roundtrip demo_pydantic"
  by (simp add: pydantic_roundtrip_def demo_pydantic_def uuid_parse_str)

lemma demo_lists: "redis_lists demo_redis"
  by (simp add: redis_lists_def demo_redis_def)

section \<open>A database with users and tokens\<close>

text \<open>One verified user, one who is not, and a token of each kind; the token texts are short.\<close>

definition alice :: user_row where
  "alice = \<lparr>ur_id = 1, ur_email = ''alice@mail.org'', ur_is_email_verified = True,
    ur_password_hash = ''alice-password'', ur_active = True, ur_created_at = 0, ur_version = 2\<rparr>"

definition bob :: user_row where
  "bob = \<lparr>ur_id = 2, ur_email = ''bob@mail.org'', ur_is_email_verified = False,
    ur_password_hash = ''bob-password'', ur_active = True, ur_created_at = 0, ur_version = 1\<rparr>"

definition bob_verify :: ott_row where
  "bob_verify = \<lparr>otr_id = 11, otr_token_hash = hash_token ''verify-bob'', otr_user_id = 2,
    otr_expires_at = 900000000, otr_version = 1, otr_used = False, otr_purpose = ''verify_email''\<rparr>"

definition alice_session :: rt_row where
  "alice_session = \<lparr>rtr_id = 21, rtr_token_hash = hash_token ''alice-session'', rtr_user_id = 1,
    rtr_expires_at = 900000000, rtr_version = 1, rtr_revoked_at = None, rtr_replaced_by_id = None,
    rtr_created_at = 0\<rparr>"

definition demo_db :: database where
  "demo_db = \<lparr>users = [alice, bob], one_time_tokens = [bob_verify], refresh_tokens = [alice_session]\<rparr>"

definition demo_world :: app_world where
  "demo_world = \<lparr>tick = 1, db = demo_db, event_log = [], notifications = []\<rparr>"

lemmas demo_rows = alice_def bob_def bob_verify_def alice_session_def demo_db_def

lemma demo_world_sel [simp]:
  "tick demo_world = 1" "db demo_world = demo_db" "event_log demo_world = []" "notifications demo_world = []"
  by (simp_all add: demo_world_def)

lemma demo_db_inv [simp]: "db_inv demo_db"
  by (simp add: db_inv_def db_wf_def demo_rows user_ids_def user_row_fits_def ott_row_fits_def rt_row_fits_def
      varchar255_def int4_def purpose_of_def)

lemma demo_log_inv [simp]: "log_inv demo_env demo_world"
  by (simp add: log_inv_def redisq_inv_def demo_roundtrip demo_lists)

section \<open>Requests\<close>

text \<open>A POST with a JSON object and no headers.\<close>

definition demo_post :: "string \<Rightarrow> fields \<Rightarrow> http_message" where
  "demo_post path f =
    \<lparr>hm_method = ''POST'', hm_path = path,
     hm_request = \<lparr>x_forwarded_for = None, x_real_ip = None, client_host = None, user_agent_header = None,
       cf_ipcountry = None, x_country_code = None, accept_language = None\<rparr>,
     hm_body = Some (JObj f), hm_form = (\<lambda>k. None), hm_bearer = None, hm_page = Missing\<rparr>"

lemma demo_client:
  "hm_method (demo_post p f) = ''POST''" "hm_path (demo_post p f) = p" "hm_body (demo_post p f) = Some (JObj f)"
  "client_data (demo_post p f) = (Some ''unknown'', Some ''unknown'', None)"
  by (simp_all add: demo_post_def client_data_def get_client_ip_def get_user_agent_def get_location_def truthy_def)

end
