(* ===== verification/DemoRuns.thy ===== *)
theory DemoRuns
  imports DemoEnv
begin

text \<open>Calls on the example database of \<open>DemoEnv\<close>, evaluated.\<close>

lemmas demo_eval =
  handle_def execute_defs with_tx_def tx_defs run_simps run_rt_use run_rt_revoke user_ops_defs
  user_get_by_email_def user_get_by_id_def ott_get_by_string_def rt_get_by_string_def
  scalar_one_or_none_def user_orm2domain_def ott_orm2domain_def rt_orm2domain_def purpose_of_def
  user_domain2orm_def ott_domain2orm_def rt_domain2orm_def
  user_save_def ott_save_def rt_save_def insert_user_def insert_ott_def insert_rt_def
  update_user_def update_ott_def update_rt_def update_where_def rowcount_def
  user_row_fits_def ott_row_fits_def rt_row_fits_def varchar255_def int4_def user_ids_def
  user_pull_domain_events_def rt_pull_domain_events_def demo_rows demo_checkpw_def demo_hashpw_def

lemma demo_verify:
  "fst (handle demo_env (VerifyEmail (PyStr ''verify-bob'')) demo_world) = Inr None"
  by (simp add: demo_eval)

lemma demo_login:
  "\<exists>p. fst (handle demo_env (Login ''alice@mail.org'' ''alice-password'' None None None) demo_world) = Inr (Some p)"
  by (simp add: demo_eval utf8_encode_inj Let_def config_defs demo_settings_def default_settings_def)

lemma demo_refresh:
  "\<exists>p. fst (handle demo_env (Refresh ''alice-session'' None None None) demo_world) = Inr (Some p)"
  by (simp add: demo_eval rotate_def rt_mark_as_replaced_by_def Let_def config_defs demo_settings_def default_settings_def)

lemma demo_revoke:
  "fst (handle demo_env (Revoke ''alice-session'' None None None) demo_world) = Inr None"
  by (simp add: demo_eval Let_def assess_risk_eq)

lemma demo_register:
  "fst (handle demo_env (Register (PyStr ''Carol@Mail.org'') (PyStr ''carol-password'')) demo_world) = Inr None"
proof -
  have e: "validate_email (PyStr ''Carol@Mail.org'') = Inr ''carol@mail.org''"
    by code_simp
  have p: "validate_password (PyStr ''carol-password'') = Inr ''carol-password''"
    by code_simp
  have b: "length (utf8_encode ''carol-password'') \<le> 72"
    by code_simp
  show ?thesis
    using b by (simp add: demo_eval validate_hash_password_run e p hash_password_cases utf8_decode_encode
        request_verification_def Let_def config_defs demo_settings_def default_settings_def)
qed

lemma demo_register_again:
  "fst (handle demo_env (Register (PyStr ''bob@mail.org'') (PyStr ''another-one'')) demo_world) = Inr None"
  by (simp add: demo_eval request_verification_def Let_def config_defs demo_settings_def default_settings_def)

lemma demo_recover_request:
  "fst (handle demo_env (RecoverRequest (PyStr ''alice@mail.org'')) demo_world) = Inr None"
  by (simp add: demo_eval recover_request_service_def Let_def config_defs demo_settings_def default_settings_def)

text \<open>The first registration of all.\<close>

lemma demo_first_registration:
  "\<exists>w1 ts i s. handle demo_env (Register (PyStr ''carol@mail.org'') (PyStr ''carol-password'')) (initial_world 1) = (Inr None, w1)
    \<and> last (notifications w1) = UserEmailVerificationRequested ts i ''carol@mail.org'' s
    \<and> (\<forall>t \<in> ran (ott_lookup (db w1)). now_at demo_sys (tick w1) \<le> o_expires_at t)"
proof -
  have e: "validate_email (PyStr ''carol@mail.org'') = Inr ''carol@mail.org''"
    by code_simp
  have p: "validate_password (PyStr ''carol-password'') = Inr ''carol-password''"
    by code_simp
  have b: "length (utf8_encode ''carol-password'') \<le> 72"
    by code_simp
  show ?thesis
    using b by (simp add: demo_eval validate_hash_password_run e p hash_password_cases utf8_decode_encode
        request_verification_def Let_def config_defs demo_settings_def default_settings_def initial_world_def
        empty_database_def ran_def ott_lookup_def table_map_def)
qed

text \<open>The database after a recovery request, with a token whose text is known.\<close>

definition alice_recover :: ott_row where
  "alice_recover = \<lparr>otr_id = 12, otr_token_hash = hash_token ''recover-alice'', otr_user_id = 1,
    otr_expires_at = 900000000, otr_version = 1, otr_used = False, otr_purpose = ''recover_password''\<rparr>"

definition recover_world :: app_world where
  "recover_world = demo_world\<lparr>db := demo_db\<lparr>one_time_tokens := [alice_recover]\<rparr>\<rparr>"

lemma recover_world_sel [simp]:
  "tick recover_world = 1" "db recover_world = demo_db\<lparr>one_time_tokens := [alice_recover]\<rparr>"
  "event_log recover_world = []" "notifications recover_world = []"
  by (simp_all add: recover_world_def)

lemma recover_world_inv [simp]: "db_inv (demo_db\<lparr>one_time_tokens := [alice_recover]\<rparr>)"
  by (simp add: db_inv_def db_wf_def demo_rows alice_recover_def user_ids_def user_row_fits_def ott_row_fits_def
      rt_row_fits_def varchar255_def int4_def purpose_of_def)

lemma demo_recover:
  "fst (handle demo_env (Recover (PyStr ''recover-alice'') (PyStr ''new-password'')) recover_world) = Inr None"
proof -
  have p: "validate_password (PyStr ''new-password'') = Inr ''new-password''"
    by code_simp
  have b: "length (utf8_encode ''new-password'') \<le> 72"
    by code_simp
  show ?thesis
    using b by (simp add: demo_eval alice_recover_def validate_hash_password_run p hash_password_cases
        utf8_decode_encode Let_def)
qed

text \<open>An access token of the first user, issued at the first moment.\<close>

definition alice_access :: string where
  "alice_access = demo_encode
    [(''sub'', ClaimStr (uuid_str 1)), (''iat'', ClaimTime 0), (''exp'', ClaimTime 900000000),
     (''type'', ClaimStr ''access'')] (jwt_secret demo_settings) (jwt_algorithm demo_settings)"

lemma alice_access_issued:
  "access_token_issue demo_sys demo_settings 1 900000000 \<lparr>tick = 0\<rparr> = (Inr alice_access, \<lparr>tick = 1\<rparr>)"
  by (simp add: run_simps alice_access_def)

lemma alice_access_verifies:
  "access_token_verify demo_sys demo_settings alice_access demo_world = (Inr 1, demo_world\<lparr>tick := 2\<rparr>)"
  using verify_issued [OF demo_jwt alice_access_issued, of demo_world] by (simp add: whole_second_def)

lemma demo_change_password:
  "fst (handle demo_env (ChangePassword alice_access ''alice-password'' ''new-password'') demo_world) = Inr None"
proof -
  have p: "validate_password (PyStr ''new-password'') = Inr ''new-password''"
    by code_simp
  have b: "length (utf8_encode ''new-password'') \<le> 72"
    by code_simp
  show ?thesis
    using b by (simp add: demo_eval alice_access_verifies validate_hash_password_run p hash_password_cases
        utf8_decode_encode Let_def)
qed

lemma demo_service_inv: "service_inv demo_world"
proof -
  have v: "validate_email (PyStr ''alice@mail.org'') = Inr ''alice@mail.org''"
    "validate_email (PyStr ''bob@mail.org'') = Inr ''bob@mail.org''"
    by code_simp+
  have U: "user_lookup demo_db = [1 \<mapsto> user_orm2domain alice, 2 \<mapsto> user_orm2domain bob]"
    by (rule ext) (simp add: user_lookup_def table_map_def demo_rows)
  have O: "ott_lookup demo_db = [11 \<mapsto> \<lparr>o_id = 11, o_user_id = 2, o_token_hash = hash_token ''verify-bob'',
      o_expires_at = 900000000, o_purpose = VERIFY_EMAIL, o_used = False, o_version = Some 1\<rparr>]"
    by (rule ext) (simp add: ott_lookup_def table_map_def ott_orm2domain_def purpose_of_def demo_rows)
  have R: "rt_lookup demo_db = [21 \<mapsto> rt_orm2domain alice_session]"
    by (rule ext) (simp add: rt_lookup_def table_map_def demo_rows)
  have "users_inv (user_lookup demo_db)"
    unfolding U by (auto simp: users_inv_def user_orm2domain_def alice_def bob_def v split: if_splits)
  moreover have "\<forall>k t. ott_lookup demo_db k = Some t \<longrightarrow> ott_ok (user_lookup demo_db) k t"
    unfolding U O by (auto simp: ott_ok_def split: if_splits)
  moreover have "\<forall>k t. rt_lookup demo_db k = Some t \<longrightarrow> rt_ok (user_lookup demo_db) k t"
    unfolding U R by (auto simp: rt_ok_def user_orm2domain_def rt_orm2domain_def alice_def alice_session_def split: if_splits)
  moreover have "replaced (rt_lookup demo_db) = {}"
    unfolding R by (auto simp: replaced_def rt_orm2domain_def alice_session_def split: if_splits)
  then have "chains_inv (rt_lookup demo_db)"
    unfolding chains_inv_def by (auto simp: acyclic_def R rt_orm2domain_def alice_session_def split: if_splits)
  ultimately show ?thesis by (simp add: service_inv_def spec_inv_def)
qed

end
