(* ===== verification/Concurrency.thy ===== *)
theory Concurrency
  imports RepositoryContract
begin

text \<open>
  Interleaved use of a repository by any number of sessions: each loads or creates an entity,
  edits its own copy and saves it, while the others do the same. The steps are stated over the
  operations of a repository; in the locale of the contract they are shown to lose no update,
  and the three repositories of the code inherit that.
\<close>

record ('d, 'e) occ_state =
  shared :: 'd
  copy :: "nat \<Rightarrow> 'e option"
  commits :: "(uuid \<times> int option) list"

text \<open>\<open>commits\<close> records the key and the base version of every save that succeeded, in order.\<close>

inductive occ_step ::
  "('e \<Rightarrow> 'd \<Rightarrow> exn + ('e \<times> 'd)) \<Rightarrow> ('d \<Rightarrow> uuid \<Rightarrow> 'e option) \<Rightarrow> ('e \<Rightarrow> uuid) \<Rightarrow> ('e \<Rightarrow> int option) \<Rightarrow>
    ('d \<Rightarrow> bool) \<Rightarrow> ('d, 'e) occ_state \<Rightarrow> ('d, 'e) occ_state \<Rightarrow> bool"
  for save lookup key ver inv where
  occ_load: "lookup (shared s) i = Some e \<Longrightarrow>
    occ_step save lookup key ver inv s (s\<lparr>copy := (copy s)(n := Some e)\<rparr>)"
| occ_create: "ver e = None \<Longrightarrow>
    occ_step save lookup key ver inv s (s\<lparr>copy := (copy s)(n := Some e)\<rparr>)"
| occ_edit: "copy s n = Some e \<Longrightarrow> key e' = key e \<Longrightarrow> ver e' = ver e \<Longrightarrow>
    occ_step save lookup key ver inv s (s\<lparr>copy := (copy s)(n := Some e')\<rparr>)"
| occ_save: "copy s n = Some e \<Longrightarrow> save e (shared s) = Inr (e', d) \<Longrightarrow>
    occ_step save lookup key ver inv s
      (s\<lparr>shared := d, copy := (copy s)(n := Some e'), commits := commits s @ [(key e, ver e)]\<rparr>)"
| occ_fail: "copy s n = Some e \<Longrightarrow> save e (shared s) = Inl x \<Longrightarrow>
    occ_step save lookup key ver inv s (s\<lparr>copy := (copy s)(n := None)\<rparr>)"
| occ_elsewhere: "inv d \<Longrightarrow> lookup d = lookup (shared s) \<Longrightarrow>
    occ_step save lookup key ver inv s (s\<lparr>shared := d\<rparr>)"

inductive occ_reach ::
  "('e \<Rightarrow> 'd \<Rightarrow> exn + ('e \<times> 'd)) \<Rightarrow> ('d \<Rightarrow> uuid \<Rightarrow> 'e option) \<Rightarrow> ('e \<Rightarrow> uuid) \<Rightarrow> ('e \<Rightarrow> int option) \<Rightarrow>
    ('d \<Rightarrow> bool) \<Rightarrow> 'd \<Rightarrow> ('d, 'e) occ_state \<Rightarrow> bool"
  for save lookup key ver inv d0 where
  occ_start: "inv d0 \<Longrightarrow> occ_reach save lookup key ver inv d0 \<lparr>shared = d0, copy = (\<lambda>n. None), commits = []\<rparr>"
| occ_more: "occ_reach save lookup key ver inv d0 s \<Longrightarrow> occ_step save lookup key ver inv s s' \<Longrightarrow>
    occ_reach save lookup key ver inv d0 s'"

section \<open>Chains of versions\<close>

text \<open>The base versions of the saves of one key, each the version that the save before it has written.\<close>

fun base_chain :: "int option \<Rightarrow> int option list \<Rightarrow> int option \<Rightarrow> bool" where
  "base_chain v [] v' = (v = v')"
| "base_chain v (b # bs) v' = (b = v \<and> base_chain (Some (case v of None \<Rightarrow> 1 | Some n \<Rightarrow> n + 1)) bs v')"

definition bases :: "uuid \<Rightarrow> (uuid \<times> int option) list \<Rightarrow> int option list" where
  "bases i cs = map snd (filter (\<lambda>c. fst c = i) cs)"

definition stored_ver :: "('d \<Rightarrow> uuid \<Rightarrow> 'e option) \<Rightarrow> ('e \<Rightarrow> int option) \<Rightarrow> 'd \<Rightarrow> uuid \<Rightarrow> int option" where
  "stored_ver lookup ver d i = Option.bind (lookup d i) ver"

lemma base_chain_snoc:
  "base_chain v (bs @ [b]) v' \<longleftrightarrow> (\<exists>m. base_chain v bs m \<and> b = m \<and> v' = Some (case m of None \<Rightarrow> 1 | Some n \<Rightarrow> n + 1))"
  by (induction bs arbitrary: v) auto

lemma base_chain_bound: "base_chain (Some n) bs v' \<Longrightarrow> \<forall>b \<in> set bs. \<exists>m \<ge> n. b = Some m"
proof (induction bs arbitrary: n)
  case (Cons b bs)
  then show ?case by fastforce
qed simp

lemma base_chain_distinct: "base_chain v bs v' \<Longrightarrow> distinct bs"
proof (induction bs arbitrary: v)
  case (Cons b bs)
  then have c: "b = v" "base_chain (Some (case v of None \<Rightarrow> 1 | Some n \<Rightarrow> n + 1)) bs v'" by auto
  from base_chain_bound [OF c(2)] have "b \<notin> set bs" using c(1) by (cases v) fastforce+
  with Cons.IH [OF c(2)] show ?case by simp
qed simp

lemma bases_snoc [simp]: "bases i (cs @ [c]) = bases i cs @ (if fst c = i then [snd c] else [])"
  by (simp add: bases_def)

context repository
begin

lemma save_stored_ver:
  assumes "inv d" and "save e d = Inr (e', d')"
  shows "stored_ver lookup ver d (key e) = ver e"
    and "stored_ver lookup ver d' (key e) = Some (case ver e of None \<Rightarrow> 1 | Some n \<Rightarrow> n + 1)"
    and "i \<noteq> key e \<Longrightarrow> stored_ver lookup ver d' i = stored_ver lookup ver d i"
  using save_base [OF assms] save_stored [OF assms] save_ver [OF assms(2)] save_other [OF assms]
  by (auto simp: stored_ver_def split: option.splits)

lemma occ_invariant:
  assumes "occ_reach save lookup key ver inv d0 s"
  shows "inv (shared s) \<and> (\<forall>i. base_chain (stored_ver lookup ver d0 i) (bases i (commits s))
    (stored_ver lookup ver (shared s) i))"
  using assms
proof (induction rule: occ_reach.induct)
  case occ_start
  then show ?case by (simp add: bases_def)
next
  case (occ_more s s')
  from occ_more.hyps(2) occ_more.IH show ?case
  proof (cases rule: occ_step.cases)
    case (occ_save n e e' d)
    note iv = conjunct1 [OF occ_more.IH]
    note sv = save_stored_ver [OF iv occ_save(3)]
    have "base_chain (stored_ver lookup ver d0 i) (bases i (commits s')) (stored_ver lookup ver (shared s') i)" for i
    proof (cases "i = key e")
      case True
      have "base_chain (stored_ver lookup ver d0 (key e)) (bases (key e) (commits s)) (ver e)"
        using occ_more.IH sv(1) by metis
      then show ?thesis using True sv(2) unfolding occ_save(1) by (simp add: base_chain_snoc)
    next
      case False
      then show ?thesis using occ_more.IH sv(3) unfolding occ_save(1) by simp
    qed
    then show ?thesis using save_inv [OF iv occ_save(3)] unfolding occ_save(1) by simp
  qed (auto simp: stored_ver_def)
qed

text \<open>No two saves succeed on the same base version of a key.\<close>

lemma no_lost_update:
  assumes "occ_reach save lookup key ver inv d0 s"
  shows "distinct (commits s)"
proof -
  have b: "distinct (bases i (commits s))" for i
    using occ_invariant [OF assms] base_chain_distinct by blast
  have "distinct cs" if "\<And>i. distinct (bases i cs)" for cs :: "(uuid \<times> int option) list"
    using that
  proof (induction cs)
    case (Cons c cs)
    have "distinct (bases i cs)" for i using Cons.prems [of i] by (auto simp: bases_def split: if_splits)
    moreover have "c \<notin> set cs"
      using Cons.prems [of "fst c"] by (auto simp: bases_def)
    ultimately show ?case using Cons.IH by simp
  qed simp
  with b show ?thesis by blast
qed

text \<open>The stored version counts the saves: it has gone up by one with each.\<close>

lemma version_counts:
  assumes "occ_reach save lookup key ver inv d0 s" and "lookup d0 i = Some e" and "ver e = Some v"
    and "lookup (shared s) i = Some e'"
  shows "ver e' = Some (v + int (length (bases i (commits s))))"
proof -
  have "base_chain (Some v) bs v' \<Longrightarrow> v' = Some (v + int (length bs))" for bs v' v
  proof (induction bs arbitrary: v)
    case (Cons b bs)
    then have "base_chain (Some (v + 1)) bs v'" by simp
    from Cons.IH [OF this] show ?case by simp
  qed simp
  then show ?thesis
    using occ_invariant [OF assms(1)] assms(2-4) by (auto simp: stored_ver_def dest: spec [of _ i])
qed

end

end
