(* ===== verification/CallSteps.thy ===== *)
theory CallSteps
  imports ServiceSystem
begin

text \<open>
  The calls of \<^verbatim>\<open>app/application/cases/user\<close> cut where another request can come in between: at every
  await of a read, before the writes of the transaction, and before the publication. Run without
  interruption the pieces of a call are the call of \<open>UseCases\<close>.
\<close>

section \<open>Pieces of a transaction\<close>

text \<open>
  What a use case has in memory when it has read and computed all: the entities it is about to save (in this
  order, all use cases keep to it), the events it has pulled for publication, and its answer. The saves are
  the last statements of every transaction. A save that succeeds locks its row until the transaction
  ends and checks the version of that row, so the saves and the commit are one step.
\<close>

record pending =
  pe_user :: "user option"
  pe_ott :: "ott option"
  pe_rts :: "rtoken list"
  pe_events :: "event list"
  pe_answer :: "token_pair option"

fun save_opt :: "('e \<Rightarrow> database \<Rightarrow> exn + ('e \<times> database)) \<Rightarrow> 'e option \<Rightarrow> unit app" where
  "save_opt save None = retM ()"
| "save_opt save (Some e) = bindM (writeM (save e)) (\<lambda>_. retM ())"

fun save_rts :: "rtoken list \<Rightarrow> unit app" where
  "save_rts [] = retM ()"
| "save_rts (t # ts) = bindM (writeM (rt_save t)) (\<lambda>_. save_rts ts)"

definition flush :: "pending \<Rightarrow> unit app" where
  "flush p =
    bindM (save_opt user_save (pe_user p)) (\<lambda>_.
    bindM (save_opt ott_save (pe_ott p)) (\<lambda>_. save_rts (pe_rts p)))"

definition register_load :: "env \<Rightarrow> pyval \<Rightarrow> pyval \<Rightarrow> pending app" where
  "register_load V email password =
    bindM (readM (user_get_by_email email)) (\<lambda>found.
    bindM (raise_if (case found of None \<Rightarrow> False | Some u \<Rightarrow> u_is_email_verified u)
      (mk_error UserAlreadyExists None)) (\<lambda>_.
    bindM (case found of None \<Rightarrow> user_create (sys V) email password | Some u \<Rightarrow> retM u) (\<lambda>user.
    bindM (request_verification (sys V) user (email_token_len (cfg V)) (email_token_exp (cfg V))) (\<lambda>(user, ott, token).
    case user_pull_domain_events user of (events, user) \<Rightarrow>
    retM \<lparr>pe_user = Some user, pe_ott = Some ott, pe_rts = [], pe_events = events, pe_answer = None\<rparr>))))"

text \<open>The verification and the recovery read twice; the second part starts with the token found.\<close>

definition verify_email_load :: "env \<Rightarrow> ott \<Rightarrow> pending app" where
  "verify_email_load V ott =
    bindM (readM (user_get_by_id (o_user_id ott))) (\<lambda>found.
    case found of
      None \<Rightarrow> raiseM (mk_error UserNotFound None)
    | Some user \<Rightarrow>
        bindM (ott_use (sys V) ott VERIFY_EMAIL) (\<lambda>ott.
        bindM (verify_email (sys V) user) (\<lambda>user.
        case user_pull_domain_events user of (events, user) \<Rightarrow>
        retM \<lparr>pe_user = Some user, pe_ott = Some ott, pe_rts = [], pe_events = events, pe_answer = None\<rparr>)))"

definition login_load ::
  "env \<Rightarrow> string \<Rightarrow> string \<Rightarrow> string option \<Rightarrow> string option \<Rightarrow> string option \<Rightarrow> pending app" where
  "login_load V email password client_ip user_agent location =
    bindM (readM (user_get_by_email (PyStr email))) (\<lambda>found.
    case found of
      None \<Rightarrow> raiseM (mk_error UserNotFound (Some ''User does not exist''))
    | Some user \<Rightarrow>
        bindM (assert_can_login (sys V) user password) (\<lambda>_.
        bindM (access_token_issue (sys V) (cfg V) (u_id user) (access_token_exp (cfg V))) (\<lambda>access.
        bindM (rt_create (sys V) (u_id user) (refresh_token_len (cfg V)) (refresh_token_exp (cfg V))
          location client_ip user_agent) (\<lambda>(rt, refresh).
        case user_pull_domain_events user of (events1, user) \<Rightarrow>
        case rt_pull_domain_events rt of (events2, rt) \<Rightarrow>
        retM \<lparr>pe_user = Some user, pe_ott = None, pe_rts = [rt], pe_events = events1 @ events2,
          pe_answer = Some \<lparr>access_token = access, refresh_token = refresh\<rparr>\<rparr>))))"

text \<open>A refresh answers from inside its \<open>try\<close>: the events it pulls are not published.\<close>

definition refresh_load :: "env \<Rightarrow> string \<Rightarrow> pending app" where
  "refresh_load V token =
    bindM (readM (rt_get_by_string token)) (\<lambda>found.
    case found of
      None \<Rightarrow> raiseM (mk_error RefreshTokenNotFound None)
    | Some rt \<Rightarrow>
        bindM (rt_use (sys V) rt) (\<lambda>rt.
        bindM (rotate (sys V) rt (refresh_token_len (cfg V)) (refresh_token_exp (cfg V))
          (access_token_exp (cfg V)) (access_token_issue (sys V) (cfg V))) (\<lambda>(rt, new_rt, refresh, access).
        case rt_pull_domain_events rt of (events1, rt) \<Rightarrow>
        case rt_pull_domain_events new_rt of (events2, new_rt) \<Rightarrow>
        retM \<lparr>pe_user = None, pe_ott = None, pe_rts = [rt, new_rt], pe_events = [],
          pe_answer = Some \<lparr>access_token = access, refresh_token = refresh\<rparr>\<rparr>)))"

definition revoke_load ::
  "env \<Rightarrow> string \<Rightarrow> string option \<Rightarrow> string option \<Rightarrow> string option \<Rightarrow> pending app" where
  "revoke_load V token client_ip user_agent location =
    bindM (readM (rt_get_by_string token)) (\<lambda>found.
    case found of
      None \<Rightarrow> raiseM (mk_error RefreshTokenNotFound None)
    | Some rt \<Rightarrow>
        bindM (rt_revoke (sys V) rt) (\<lambda>rt.
        let security_threat = assess_risk (r_client_ip rt) (r_user_agent rt) (r_location rt)
              client_ip user_agent location in
        bindM (if security_threat \<noteq> 0 then
             bindM (mk_event (sys V) (\<lambda>ts.
               SuspiciousRefreshTokenRevocation ts (r_user_id rt) (r_id rt) client_ip user_agent location)) (\<lambda>e.
             retM [e])
           else retM []) (\<lambda>events1.
        case rt_pull_domain_events rt of (events2, rt) \<Rightarrow>
        retM \<lparr>pe_user = None, pe_ott = None, pe_rts = [rt], pe_events = events1 @ events2, pe_answer = None\<rparr>)))"

definition change_password_load :: "env \<Rightarrow> string \<Rightarrow> string \<Rightarrow> string \<Rightarrow> pending app" where
  "change_password_load V access old new =
    bindM (access_token_verify (sys V) (cfg V) access) (\<lambda>user_id.
    bindM (readM (user_get_by_id user_id)) (\<lambda>found.
    case found of
      None \<Rightarrow> raiseM (mk_error UserNotFound None)
    | Some user \<Rightarrow>
        bindM (change_password (sys V) user old new) (\<lambda>user.
        case user_pull_domain_events user of (events, user) \<Rightarrow>
        retM \<lparr>pe_user = Some user, pe_ott = None, pe_rts = [], pe_events = events, pe_answer = None\<rparr>)))"

definition recover_request_load :: "env \<Rightarrow> pyval \<Rightarrow> pending app" where
  "recover_request_load V email =
    bindM (readM (user_get_by_email email)) (\<lambda>found.
    case found of
      None \<Rightarrow> raiseM (mk_error UserNotFound None)
    | Some user \<Rightarrow>
        bindM (recover_request_service (sys V) user (password_recover_token_len (cfg V))
          (password_recover_token_exp (cfg V))) (\<lambda>(user, ott, token).
        case user_pull_domain_events user of (events, user) \<Rightarrow>
        retM \<lparr>pe_user = Some user, pe_ott = Some ott, pe_rts = [], pe_events = events, pe_answer = None\<rparr>))"

definition recover_load :: "env \<Rightarrow> ott \<Rightarrow> pyval \<Rightarrow> pending app" where
  "recover_load V ott password =
    bindM (readM (user_get_by_id (o_user_id ott))) (\<lambda>found.
    case found of
      None \<Rightarrow> raiseM (mk_error UserNotFound None)
    | Some user \<Rightarrow>
        bindM (recover_password (sys V) user password) (\<lambda>user.
        bindM (ott_use (sys V) ott RECOVER_PASSWORD) (\<lambda>ott.
        case user_pull_domain_events user of (events, user) \<Rightarrow>
        retM \<lparr>pe_user = Some user, pe_ott = Some ott, pe_rts = [], pe_events = events, pe_answer = None\<rparr>)))"

lemmas load_defs =
  register_load_def verify_email_load_def login_load_def refresh_load_def revoke_load_def
  change_password_load_def recover_request_load_def recover_load_def

text \<open>All that a call reads and computes before it writes.\<close>

fun call_load :: "env \<Rightarrow> call \<Rightarrow> pending app" where
  "call_load V (Register email password) = register_load V email password"
| "call_load V (VerifyEmail token) =
    bindM (readM (ott_get_by_string token)) (\<lambda>found.
    case found of
      None \<Rightarrow> raiseM (mk_error OneTimeTokenNotFound (Some ''Invalid token''))
    | Some ott \<Rightarrow> verify_email_load V ott)"
| "call_load V (Login email password ip ua loc) = login_load V email password ip ua loc"
| "call_load V (Refresh token ip ua loc) = refresh_load V token"
| "call_load V (Revoke token ip ua loc) = revoke_load V token ip ua loc"
| "call_load V (ChangePassword access old new) = change_password_load V access old new"
| "call_load V (RecoverRequest email) = recover_request_load V email"
| "call_load V (Recover token password) =
    bindM (readM (ott_get_by_string token)) (\<lambda>found.
    case found of
      None \<Rightarrow> raiseM (mk_error OneTimeTokenNotFound (Some ''Password recover token not found''))
    | Some ott \<Rightarrow> recover_load V ott password)"

section \<open>Calls in steps\<close>

text \<open>
  Where a call stands: it has found its one-time token; it is about to write; it has committed and is
  about to publish; it has caught a reuse and is about to read the token again, for the report; it is about to publish that,
  and to raise again; it is done.
\<close>

datatype session =
    Found_verify ott
  | Found_recover ott pyval
  | Loaded pending
  | Committed "event list" "token_pair option"
  | Caught string "string option" "string option" "string option" exn
  | Reused "event list" exn
  | Done "token_pair option"

fun start_call :: "env \<Rightarrow> call \<Rightarrow> session app" where
  "start_call V (Register email password) = bindM (register_load V email password) (\<lambda>p. retM (Loaded p))"
| "start_call V (VerifyEmail token) =
    bindM (readM (ott_get_by_string token)) (\<lambda>found.
    case found of
      None \<Rightarrow> raiseM (mk_error OneTimeTokenNotFound (Some ''Invalid token''))
    | Some ott \<Rightarrow> retM (Found_verify ott))"
| "start_call V (Login email password ip ua loc) = bindM (login_load V email password ip ua loc) (\<lambda>p. retM (Loaded p))"
| "start_call V (Refresh token ip ua loc) =
    tryM (bindM (refresh_load V token) (\<lambda>p. retM (Loaded p)))
      (\<lambda>e. if isinstance e RefreshTokenReuse
        then retM (Caught token ip ua loc e)
        else raiseM e)"
| "start_call V (Revoke token ip ua loc) = bindM (revoke_load V token ip ua loc) (\<lambda>p. retM (Loaded p))"
| "start_call V (ChangePassword access old new) =
    bindM (change_password_load V access old new) (\<lambda>p. retM (Loaded p))"
| "start_call V (RecoverRequest email) = bindM (recover_request_load V email) (\<lambda>p. retM (Loaded p))"
| "start_call V (Recover token password) =
    bindM (readM (ott_get_by_string token)) (\<lambda>found.
    case found of
      None \<Rightarrow> raiseM (mk_error OneTimeTokenNotFound (Some ''Password recover token not found''))
    | Some ott \<Rightarrow> retM (Found_recover ott password))"

fun proceed :: "env \<Rightarrow> session \<Rightarrow> session app" where
  "proceed V (Found_verify ott) = bindM (verify_email_load V ott) (\<lambda>p. retM (Loaded p))"
| "proceed V (Found_recover ott password) = bindM (recover_load V ott password) (\<lambda>p. retM (Loaded p))"
| "proceed V (Loaded p) = bindM (with_tx (flush p)) (\<lambda>_. retM (Committed (pe_events p) (pe_answer p)))"
| "proceed V (Committed [] a) = retM (Done a)"
| "proceed V (Committed (event # events) a) = bindM (publish_events V [event]) (\<lambda>_. retM (Committed events a))"
| "proceed V (Caught token ip ua loc e) = bindM (with_tx (reuse_tx V token ip ua loc)) (\<lambda>events. retM (Reused events e))"
| "proceed V (Reused [] e) = raiseM e"
| "proceed V (Reused (event # events) e) = bindM (publish_events V [event]) (\<lambda>_. retM (Reused events e))"
| "proceed V (Done a) = retM (Done a)"

text \<open>A call that nothing interrupts: three steps, which take it past its commit, and one for each event that is left.\<close>

primrec proceed_times :: "env \<Rightarrow> nat \<Rightarrow> session \<Rightarrow> session app" where
  "proceed_times V 0 s = retM s"
| "proceed_times V (Suc n) s = bindM (proceed V s) (proceed_times V n)"

fun steps_left :: "session \<Rightarrow> nat" where
  "steps_left (Committed events a) = Suc (length events)"
| "steps_left (Reused events e) = Suc (length events)"
| "steps_left _ = 0"

text \<open>A session comes nearer its end with every step: the part of the call it is in, then the events that are left.\<close>

fun parts_left :: "session \<Rightarrow> nat" where
  "parts_left (Found_verify ott) = 3"
| "parts_left (Found_recover ott password) = 3"
| "parts_left (Loaded p) = 2"
| "parts_left (Caught token ip ua loc e) = 2"
| "parts_left (Committed events a) = 1"
| "parts_left (Reused events e) = 1"
| "parts_left (Done a) = 0"

definition nearer :: "(session \<times> session) set" where
  "nearer = measures [parts_left, steps_left]"

lemma wf_nearer: "wf nearer"
  by (simp add: nearer_def)

definition run_out :: "env \<Rightarrow> session \<Rightarrow> session app" where
  "run_out V s = proceed_times V (steps_left s) s"

definition run_alone :: "env \<Rightarrow> call \<Rightarrow> session app" where
  "run_alone V c =
    bindM (start_call V c) (\<lambda>s. bindM (proceed V s) (\<lambda>s. bindM (proceed V s) (run_out V)))"

section \<open>A load writes nothing\<close>

definition reads_only :: "'a app \<Rightarrow> bool" where
  "reads_only m \<longleftrightarrow> (\<forall>w. \<exists>n. snd (m w) = w\<lparr>tick := n\<rparr>)"

named_theorems reads_intros "rules that show that a program writes nothing"

lemma reads_onlyD:
  assumes "reads_only m" and "m w = (r, w')"
  shows "\<exists>n. w' = w\<lparr>tick := n\<rparr>" and "db w' = db w"
proof -
  from assms show "\<exists>n. w' = w\<lparr>tick := n\<rparr>" unfolding reads_only_def by (metis snd_conv)
  then show "db w' = db w" by auto
qed

lemma reads_only_ticks [reads_intros]: "only_ticks m \<Longrightarrow> reads_only m"
  unfolding reads_only_def using only_ticks_snd by blast

lemma reads_only_readM [reads_intros]: "reads_only (readM f)"
  unfolding reads_only_def
proof
  fix w :: app_world
  have "snd (readM f w) = w\<lparr>tick := tick w\<rparr>" by (simp add: run_simps)
  then show "\<exists>n. snd (readM f w) = w\<lparr>tick := n\<rparr>" ..
qed

lemma reads_only_bindM [reads_intros]:
  assumes "reads_only m" and "\<And>a. reads_only (f a)"
  shows "reads_only (bindM m f)"
  unfolding reads_only_def
proof
  fix w :: app_world
  obtain r w1 where r: "m w = (r, w1)" by fastforce
  with reads_onlyD(1) [OF assms(1)] obtain n where w1: "w1 = w\<lparr>tick := n\<rparr>" by blast
  show "\<exists>n. snd (bindM m f w) = w\<lparr>tick := n\<rparr>"
  proof (cases r)
    case (Inl e)
    then show ?thesis using r w1 by (auto simp: run_bindM)
  next
    case (Inr a)
    obtain k where "snd (f a w1) = w1\<lparr>tick := k\<rparr>" using assms(2) unfolding reads_only_def by blast
    then show ?thesis using r w1 Inr by (auto simp: run_bindM)
  qed
qed

lemma reads_only_case_option [reads_intros]:
  "reads_only m \<Longrightarrow> (\<And>a. reads_only (f a)) \<Longrightarrow> reads_only (case r of None \<Rightarrow> m | Some a \<Rightarrow> f a)"
  by (cases r) auto

lemma reads_only_case_prod [reads_intros]:
  "(\<And>a b. reads_only (f a b)) \<Longrightarrow> reads_only (case p of (a, b) \<Rightarrow> f a b)"
  by (cases p) auto

lemma reads_only_loads [reads_intros]:
  "reads_only (register_load V em pw)" "reads_only (verify_email_load V t)"
  "reads_only (login_load V m p ip ua loc)" "reads_only (refresh_load V s)"
  "reads_only (revoke_load V s ip ua loc)" "reads_only (change_password_load V a p q)"
  "reads_only (recover_request_load V em)" "reads_only (recover_load V t pw)" "reads_only (reuse_tx V s ip ua loc)"
  unfolding load_defs reuse_tx_def Let_def by (intro reads_intros ticks_intros)+

text \<open>A transaction that starts with reads is the reads and then a transaction.\<close>

lemma with_tx_reads:
  assumes "reads_only m"
  shows "with_tx (bindM m f) = bindM m (\<lambda>a. with_tx (f a))"
proof
  fix w
  obtain r w1 where r: "m w = (r, w1)" by fastforce
  with reads_onlyD(2) [OF assms r] show "with_tx (bindM m f) w = bindM m (\<lambda>a. with_tx (f a)) w"
    by (cases r) (auto simp: with_tx_def run_bindM split: prod.split sum.split)
qed

lemma with_tx_only_reads:
  assumes "reads_only m"
  shows "with_tx m = m"
proof
  fix w
  obtain r w1 where r: "m w = (r, w1)" by fastforce
  with reads_onlyD(2) [OF assms r] show "with_tx m w = m w"
    by (cases r) (auto simp: with_tx_def)
qed

section \<open>The pieces make up the transaction\<close>

lemma bindM_assoc: "bindM (bindM m f) g = bindM m (\<lambda>a. bindM (f a) g)"
  by (rule ext) (simp add: bindM_def split: prod.split sum.split)

lemma bindM_retM [simp]: "bindM (retM a) f = f a" "bindM m retM = m"
  by (rule ext, simp add: bindM_def retM_def split: prod.split sum.split)+

lemma bindM_raiseM [simp]: "bindM (raiseM e) f = raiseM e"
  by (rule ext) (simp add: bindM_def raiseM_def)

lemma bindM_case [simp]:
  "bindM (case r of None \<Rightarrow> m | Some a \<Rightarrow> f a) g = (case r of None \<Rightarrow> bindM m g | Some a \<Rightarrow> bindM (f a) g)"
  "bindM (case p of (a, b) \<Rightarrow> h a b) g = (case p of (a, b) \<Rightarrow> bindM (h a b) g)"
  by (simp_all split: option.split prod.split)

lemmas piece_simps =
  flush_def bindM_assoc user_pull_domain_events_def rt_pull_domain_events_def Let_def

lemma tx_pieces:
  "register_tx V em pw = bindM (register_load V em pw) (\<lambda>p. bindM (flush p) (\<lambda>_. retM (pe_events p)))"
  "revoke_tx V s ip ua loc = bindM (revoke_load V s ip ua loc) (\<lambda>p. bindM (flush p) (\<lambda>_. retM (pe_events p)))"
  "change_password_tx V a old new =
    bindM (change_password_load V a old new) (\<lambda>p. bindM (flush p) (\<lambda>_. retM (pe_events p)))"
  "recover_request_tx V em = bindM (recover_request_load V em) (\<lambda>p. bindM (flush p) (\<lambda>_. retM (pe_events p)))"
  "login_tx V m q ip ua loc =
    bindM (login_load V m q ip ua loc) (\<lambda>p. bindM (flush p) (\<lambda>_. retM (pe_events p, the (pe_answer p))))"
  unfolding tx_defs load_defs by (simp_all add: piece_simps cong: option.case_cong)

lemma tx_pieces_found:
  "verify_email_tx V s =
    bindM (readM (ott_get_by_string s)) (\<lambda>found.
      case found of
        None \<Rightarrow> raiseM (mk_error OneTimeTokenNotFound (Some ''Invalid token''))
      | Some ott \<Rightarrow> bindM (verify_email_load V ott) (\<lambda>p. bindM (flush p) (\<lambda>_. retM (pe_events p))))"
  "recover_tx V s pw =
    bindM (readM (ott_get_by_string s)) (\<lambda>found.
      case found of
        None \<Rightarrow> raiseM (mk_error OneTimeTokenNotFound (Some ''Password recover token not found''))
      | Some ott \<Rightarrow> bindM (recover_load V ott pw) (\<lambda>p. bindM (flush p) (\<lambda>_. retM (pe_events p))))"
  unfolding tx_defs load_defs by (simp_all add: piece_simps cong: option.case_cong)

lemma refresh_pieces:
  "bindM (refresh_tx V s) (\<lambda>(events, pair). retM pair) =
    bindM (refresh_load V s) (\<lambda>p. bindM (flush p) (\<lambda>_. retM (the (pe_answer p))))"
  unfolding tx_defs load_defs by (simp add: piece_simps cong: option.case_cong)

lemma with_tx_retM: "with_tx (bindM m (\<lambda>x. retM (f x))) = bindM (with_tx m) (\<lambda>x. retM (f x))"
  by (rule ext) (simp add: with_tx_def bindM_def retM_def split: prod.split sum.split)

lemma answers:
  "bindM (login_load V m q ip ua loc) (\<lambda>p. f (Some (the (pe_answer p))) p) =
    bindM (login_load V m q ip ua loc) (\<lambda>p. f (pe_answer p) p)"
  "bindM (refresh_load V s) (\<lambda>p. f (Some (the (pe_answer p))) p) =
    bindM (refresh_load V s) (\<lambda>p. f (pe_answer p) p)"
  "bindM (register_load V em pw) (\<lambda>p. f None p) = bindM (register_load V em pw) (\<lambda>p. f (pe_answer p) p)"
  "bindM (revoke_load V s ip ua loc) (\<lambda>p. f None p) = bindM (revoke_load V s ip ua loc) (\<lambda>p. f (pe_answer p) p)"
  "bindM (change_password_load V a old new) (\<lambda>p. f None p) =
    bindM (change_password_load V a old new) (\<lambda>p. f (pe_answer p) p)"
  "bindM (recover_request_load V em) (\<lambda>p. f None p) = bindM (recover_request_load V em) (\<lambda>p. f (pe_answer p) p)"
  "bindM (verify_email_load V t) (\<lambda>p. f None p) = bindM (verify_email_load V t) (\<lambda>p. f (pe_answer p) p)"
  "bindM (recover_load V t pw) (\<lambda>p. f None p) = bindM (recover_load V t pw) (\<lambda>p. f (pe_answer p) p)"
  unfolding load_defs by (simp_all add: piece_simps cong: option.case_cong)

text \<open>No save raises \<open>RefreshTokenReuse\<close>.\<close>

lemma save_error:
  "user_save u d = Inl e \<Longrightarrow> \<not> isinstance e RefreshTokenReuse"
  "ott_save t d = Inl e \<Longrightarrow> \<not> isinstance e RefreshTokenReuse"
  "rt_save r d = Inl e \<Longrightarrow> \<not> isinstance e RefreshTokenReuse"
  by (auto simp: user_save_def ott_save_def rt_save_def insert_user_def insert_ott_def insert_rt_def
      update_user_def update_ott_def update_rt_def Let_def mk_error_def isinstance_RefreshTokenReuse
      split: option.splits sum.splits if_splits)

lemma save_rts_error: "save_rts ts w = (Inl e, w') \<Longrightarrow> \<not> isinstance e RefreshTokenReuse"
  by (induction ts arbitrary: w) (auto simp: run_simps save_error split: sum.splits prod.splits)

lemma flush_error: "flush p w = (Inl e, w') \<Longrightarrow> \<not> isinstance e RefreshTokenReuse"
  by (cases "pe_user p"; cases "pe_ott p")
    (auto simp: flush_def run_simps save_error save_rts_error split: sum.splits prod.splits)

lemma with_tx_case:
  "with_tx (case r of None \<Rightarrow> raiseM e | Some a \<Rightarrow> f a) = (case r of None \<Rightarrow> raiseM e | Some a \<Rightarrow> with_tx (f a))"
  by (cases r) (simp_all add: with_tx_def raiseM_def)

lemma publish_nothing: "publish_events V [] = retM ()"
  by (rule ext) (simp add: run_simps)

section \<open>A call that runs alone\<close>

lemma publish_events_Cons: "publish_events V (e # es) = bindM (publish_events V [e]) (\<lambda>_. publish_events V es)"
  by (rule ext) (simp add: run_simps)

lemma run_out_Committed [simp]: "run_out V (Committed es a) = bindM (publish_events V es) (\<lambda>_. retM (Done a))"
proof (induction es)
  case Nil
  then show ?case by (simp add: run_out_def publish_nothing)
next
  case (Cons e es)
  have "run_out V (Committed (e # es) a) = bindM (publish_events V [e]) (\<lambda>_. run_out V (Committed es a))"
    by (simp add: run_out_def bindM_assoc)
  also have "\<dots> = bindM (publish_events V (e # es)) (\<lambda>_. retM (Done a))"
    by (subst publish_events_Cons) (simp add: Cons.IH bindM_assoc)
  finally show ?case .
qed

lemma run_out_Reused [simp]: "run_out V (Reused es x) = bindM (publish_events V es) (\<lambda>_. raiseM x)"
proof (induction es)
  case Nil
  then show ?case by (simp add: run_out_def publish_nothing)
next
  case (Cons e es)
  have "run_out V (Reused (e # es) x) = bindM (publish_events V [e]) (\<lambda>_. run_out V (Reused es x))"
    by (simp add: run_out_def bindM_assoc)
  also have "\<dots> = bindM (publish_events V (e # es)) (\<lambda>_. raiseM x)"
    by (subst publish_events_Cons) (simp add: Cons.IH bindM_assoc)
  finally show ?case .
qed

lemma publish_then [simp]:
  "bindM (publish_events V [e]) (\<lambda>_. bindM (publish_events V es) f) = bindM (publish_events V (e # es)) f"
  by (subst publish_events_Cons [of V e es]) (simp add: bindM_assoc)

lemma proceed_run_out [simp]:
  "bindM (proceed V (Committed es a)) (run_out V) = bindM (publish_events V es) (\<lambda>_. retM (Done a))"
  "bindM (proceed V (Reused es x)) (run_out V) = bindM (publish_events V es) (\<lambda>_. raiseM x)"
  by (cases es, simp_all add: publish_nothing run_out_def [of V "Done a"] bindM_assoc)+

lemma run_out_Done [simp]: "run_out V (Done a) = retM (Done a)"
  by (simp add: run_out_def)

lemma run_alone_Refresh: "run_alone V (Refresh s ip ua loc) = bindM (handle V (Refresh s ip ua loc)) (\<lambda>a. retM (Done a))"
proof
  fix w
  have tx: "bindM (with_tx (refresh_tx V s)) (\<lambda>(events, pair). retM pair) =
      bindM (refresh_load V s) (\<lambda>p. bindM (with_tx (flush p)) (\<lambda>_. retM (the (pe_answer p))))"
    using with_tx_retM [of "refresh_tx V s" snd, symmetric] refresh_pieces [of V s]
      with_tx_reads [OF reads_only_loads(4), of V s "\<lambda>p. bindM (flush p) (\<lambda>_. retM (the (pe_answer p)))"]
    by (simp add: case_prod_unfold) (simp add: with_tx_retM)
  obtain r w1 where l: "refresh_load V s w = (r, w1)" by fastforce
  show "run_alone V (Refresh s ip ua loc) w = bindM (handle V (Refresh s ip ua loc)) (\<lambda>a. retM (Done a)) w"
  proof (cases r)
    case (Inl e)
    then show ?thesis using l
      by (simp add: run_alone_def handle_def refresh_execute_def tx run_tryM run_bindM run_retM run_raiseM
          split: prod.split sum.split)
  next
    case (Inr p)
    have a: "pe_answer p = Some (the (pe_answer p)) \<and> pe_events p = []"
      using l Inr by (auto simp: refresh_load_def run_bindM run_readM run_raiseM run_retM rt_pull_domain_events_def
          split: prod.splits sum.splits option.splits)
    have e: "\<not> isinstance x RefreshTokenReuse" if "with_tx (flush p) w1 = (Inl x, w2)" for x w2
      using that flush_error by (auto simp: with_tx_def split: prod.splits sum.splits)
    obtain y w2 where f: "with_tx (flush p) w1 = (y, w2)" by fastforce
    show ?thesis
    proof (cases y)
      case (Inl x)
      then show ?thesis using l Inr f e [of x w2]
        by (simp add: run_alone_def handle_def refresh_execute_def tx run_tryM run_bindM run_retM run_raiseM)
    next
      case (Inr u)
      then show ?thesis using l \<open>r = Inr p\<close> f a
        by (simp add: run_alone_def handle_def refresh_execute_def tx run_tryM run_bindM run_retM publish_nothing)
    qed
  qed
qed

lemma run_alone_call: "run_alone V c = bindM (handle V c) (\<lambda>a. retM (Done a))"
proof (cases c)
  case (Refresh s ip ua loc)
  then show ?thesis by (simp only: run_alone_Refresh)
qed (simp_all add: run_alone_def handle_def execute_defs tx_pieces tx_pieces_found bindM_assoc with_tx_reads reads_only_loads
    reads_only_readM with_tx_retM with_tx_case answers [where f = "\<lambda>a p. bindM (with_tx (flush p))
      (\<lambda>_. bindM (publish_events V (pe_events p)) (\<lambda>_. retM (Done a)))"] cong: option.case_cong)

lemma proceed_nearer:
  assumes "proceed V x w = (Inr y, w')" and "\<nexists>a. x = Done a"
  shows "(y, x) \<in> nearer"
  using assms
  by (cases "(V, x)" rule: proceed.cases)
    (auto simp: nearer_def run_bindM run_retM run_raiseM split: sum.splits prod.splits)

text \<open>A call whose load succeeds is that load, the saves and commit, and the publication.\<close>

lemma handle_loaded:
  assumes l: "call_load V c w = (Inr p, w1)" and f: "with_tx (flush p) w1 = (Inr (), w2)"
  shows "handle V c w = (Inr (pe_answer p), snd (publish_events V (pe_events p) w2))"
proof -
  have "run_alone V c w = (Inr (Done (pe_answer p)), snd (publish_events V (pe_events p) w2))"
    using l f by (cases c)
      (auto simp: run_alone_def run_bindM run_retM run_readM run_tryM run_raiseM run_publish_events split: sum.splits option.splits)
  moreover obtain r w3 where h: "handle V c w = (r, w3)" by fastforce
  ultimately show ?thesis unfolding run_alone_call by (cases r) (auto simp: run_bindM run_retM)
qed

lemma reads_only_call_load: "reads_only (call_load V c)"
  by (cases c) (simp_all, (intro reads_intros ticks_intros)+)

end
