(* ===== verification/Sessions.thy ===== *)
theory Sessions
  imports CallSteps
begin

text \<open>
  A call that is under way while others commit: what it has read may have changed since. What a session is about
  to save comes from entities as they were read, each at a version; a save that succeeds proves that its entity is still as it
  was read. So every commit is a step of the specification \<open>AuthSpec\<close>, and the call would have read and
  computed the same at the moment of its commit.
\<close>

section \<open>Entities that others may change\<close>

text \<open>What a step of the specification does to a stored entity: nothing, or it raises the version.\<close>

definition ver_less :: "int option \<Rightarrow> int option \<Rightarrow> bool" where
  "ver_less a b \<longleftrightarrow> (case a of None \<Rightarrow> b \<noteq> None | Some v \<Rightarrow> (\<exists>v'. b = Some v' \<and> v < v'))"

definition moved :: "('e \<Rightarrow> int option) \<Rightarrow> 'e \<Rightarrow> 'e option \<Rightarrow> bool" where
  "moved ver e r \<longleftrightarrow> (\<exists>e'. r = Some e' \<and> (e' = e \<or> ver_less (ver e) (ver e')))"

lemma ver_less_trans: "ver_less a b \<Longrightarrow> ver_less b c \<Longrightarrow> ver_less a c"
  by (auto simp: ver_less_def split: option.splits)

lemma ver_less_irrefl [simp]: "\<not> ver_less a a"
  by (simp add: ver_less_def split: option.split)

lemma ver_less_bump [simp]: "ver_less a (Some (case a of None \<Rightarrow> 1 | Some v \<Rightarrow> v + 1))"
  by (simp add: ver_less_def split: option.split)

lemma moved_refl [simp]: "moved ver e (Some e)"
  by (simp add: moved_def)

lemma moved_trans: "moved ver e (Some e1) \<Longrightarrow> moved ver e1 r \<Longrightarrow> moved ver e r"
  unfolding moved_def using ver_less_trans by blast

lemma moved_same_version: "moved ver e (Some s) \<Longrightarrow> ver s = ver e \<Longrightarrow> s = e"
  by (auto simp: moved_def)

lemma moved_upd:
  assumes "moved ver e (m i)" and "\<And>a. m k = Some a \<Longrightarrow> ver_less (ver a) (ver b)"
  shows "moved ver e ((m(k \<mapsto> b)) i)"
proof (cases "i = k")
  case True
  from assms(1) obtain a where a: "m i = Some a" "a = e \<or> ver_less (ver e) (ver a)" by (auto simp: moved_def)
  with assms(2) True have "ver_less (ver a) (ver b)" by simp
  with a(2) True show ?thesis by (auto simp: moved_def dest: ver_less_trans)
qed (use assms in simp)

lemma spec_step_moved:
  assumes "spec_step S S'"
  shows "moved u_version u (st_users S i) \<Longrightarrow> moved u_version u (st_users S' i)"
    and "moved o_version t (st_otts S j) \<Longrightarrow> moved o_version t (st_otts S' j)"
    and "moved r_version r (st_rts S k) \<Longrightarrow> moved r_version r (st_rts S' k)"
  using assms by (induction rule: spec_step.induct) (auto intro!: moved_upd simp: stored_defs simp del: fun_upd_apply, auto split: if_splits)

section \<open>What a session is about to do\<close>

text \<open>
  What the entities of a session that is about to write were read as (\<open>None\<close>: created or not
  used), and how what it is about to save comes from them.
\<close>

inductive intends :: "user option \<Rightarrow> ott option \<Rightarrow> rtoken option \<Rightarrow> pending \<Rightarrow> bool" where
  i_register: "u_version u = None \<Longrightarrow> fresh_user (user_stored u) \<Longrightarrow> o_version t = None \<Longrightarrow> fresh_ott (ott_stored t) \<Longrightarrow>
    o_user_id t = u_id u \<Longrightarrow> o_purpose t = VERIFY_EMAIL \<Longrightarrow>
    intends None None None \<lparr>pe_user = Some u, pe_ott = Some t, pe_rts = [], pe_events = es, pe_answer = a\<rparr>"
| i_issue: "may_issue (o_purpose t) u \<Longrightarrow> o_version t = None \<Longrightarrow> fresh_ott (ott_stored t) \<Longrightarrow> o_user_id t = u_id u \<Longrightarrow>
    intends (Some u) None None
      \<lparr>pe_user = Some (u\<lparr>u_events := []\<rparr>), pe_ott = Some t, pe_rts = [], pe_events = es, pe_answer = a\<rparr>"
| i_verify: "o_purpose t = VERIFY_EMAIL \<Longrightarrow> \<not> o_used t \<Longrightarrow> \<not> u_is_email_verified u \<Longrightarrow> o_user_id t = u_id u \<Longrightarrow>
    intends (Some u) (Some t) None
      \<lparr>pe_user = Some (u\<lparr>u_is_email_verified := True, u_events := []\<rparr>), pe_ott = Some (t\<lparr>o_used := True\<rparr>),
       pe_rts = [], pe_events = es, pe_answer = a\<rparr>"
| i_login: "u_active u \<Longrightarrow> u_is_email_verified u \<Longrightarrow> r_version t = None \<Longrightarrow> fresh_rt (rt_stored t) \<Longrightarrow> r_user_id t = u_id u \<Longrightarrow>
    intends (Some u) None None
      \<lparr>pe_user = Some (u\<lparr>u_events := []\<rparr>), pe_ott = None, pe_rts = [t], pe_events = es, pe_answer = a\<rparr>"
| i_rotate: "r_revoked_at t = None \<Longrightarrow> r_replaced_by_id t = None \<Longrightarrow> r_version n = None \<Longrightarrow> fresh_rt (rt_stored n) \<Longrightarrow>
    r_user_id n = r_user_id t \<Longrightarrow>
    intends None None (Some t)
      \<lparr>pe_user = None, pe_ott = None,
       pe_rts = [t\<lparr>r_revoked_at := Some now, r_replaced_by_id := Some (r_id n), r_events := []\<rparr>, n],
       pe_events = es, pe_answer = a\<rparr>"
| i_revoke: "r_revoked_at t = None \<Longrightarrow>
    intends None None (Some t)
      \<lparr>pe_user = None, pe_ott = None, pe_rts = [t\<lparr>r_revoked_at := Some now, r_events := []\<rparr>],
       pe_events = es, pe_answer = a\<rparr>"
| i_change_password:
    "intends (Some u) None None
      \<lparr>pe_user = Some (u\<lparr>u_password_hash := h, u_events := []\<rparr>), pe_ott = None, pe_rts = [],
       pe_events = es, pe_answer = a\<rparr>"
| i_recover: "o_purpose t = RECOVER_PASSWORD \<Longrightarrow> \<not> o_used t \<Longrightarrow> o_user_id t = u_id u \<Longrightarrow>
    intends (Some u) (Some t) None
      \<lparr>pe_user = Some (u\<lparr>u_password_hash := h, u_events := []\<rparr>), pe_ott = Some (t\<lparr>o_used := True\<rparr>),
       pe_rts = [], pe_events = es, pe_answer = a\<rparr>"

definition seen_user :: "store \<Rightarrow> user \<Rightarrow> bool" where
  "seen_user S u \<longleftrightarrow> u_version u \<noteq> None \<and> moved u_version u (st_users S (u_id u))"

definition seen_ott :: "store \<Rightarrow> ott \<Rightarrow> bool" where
  "seen_ott S t \<longleftrightarrow> o_version t \<noteq> None \<and> moved o_version t (st_otts S (o_id t))"

definition seen_rt :: "store \<Rightarrow> rtoken \<Rightarrow> bool" where
  "seen_rt S t \<longleftrightarrow> r_version t \<noteq> None \<and> moved r_version t (st_rts S (r_id t))"

lemmas seen_defs = seen_user_def seen_ott_def seen_rt_def

text \<open>
  A call would read and compute the same again at every later moment, with the same readings of clock and random
  sources, as long as what it has read is stored unchanged; where it has found no user, as long as there is still none of the
  address that it registers; and as long as a token text stands for one stored token.
\<close>

definition tokens_distinct :: "database \<Rightarrow> bool" where
  "tokens_distinct d \<longleftrightarrow>
    (\<forall>i j t t'. ott_lookup d i = Some t \<longrightarrow> ott_lookup d j = Some t' \<longrightarrow> o_token_hash t = o_token_hash t' \<longrightarrow> i = j)
    \<and> (\<forall>i j t t'. rt_lookup d i = Some t \<longrightarrow> rt_lookup d j = Some t' \<longrightarrow> r_token_hash t = r_token_hash t' \<longrightarrow> i = j)"

definition still_stored :: "database \<Rightarrow> user option \<Rightarrow> ott option \<Rightarrow> rtoken option \<Rightarrow> pending \<Rightarrow> bool" where
  "still_stored d bu bo br p \<longleftrightarrow>
    (\<forall>u. bu = Some u \<longrightarrow> user_lookup d (u_id u) = Some u)
    \<and> (\<forall>t. bo = Some t \<longrightarrow> ott_lookup d (o_id t) = Some t)
    \<and> (\<forall>t. br = Some t \<longrightarrow> rt_lookup d (r_id t) = Some t)
    \<and> (\<forall>u. bu = None \<longrightarrow> pe_user p = Some u \<longrightarrow> (\<forall>i x. user_lookup d i = Some x \<longrightarrow> u_email x \<noteq> u_email u))"

definition replays :: "env \<Rightarrow> call \<Rightarrow> nat \<Rightarrow> user option \<Rightarrow> ott option \<Rightarrow> rtoken option \<Rightarrow> pending \<Rightarrow> bool" where
  "replays V c k bu bo br p \<longleftrightarrow>
    (\<forall>v. tick v = k \<longrightarrow> db_inv (db v) \<longrightarrow> users_inv (user_lookup (db v)) \<longrightarrow> tokens_distinct (db v) \<longrightarrow>
      still_stored (db v) bu bo br p \<longrightarrow> fst (call_load V c v) = Inr p)"

text \<open>What holds of a session: what it has read was stored, as it was read.\<close>

definition session_ok :: "env \<Rightarrow> call option \<Rightarrow> store \<Rightarrow> session \<Rightarrow> bool" where
  "session_ok V c S x =
    (case x of
       Found_verify t \<Rightarrow> seen_ott S t \<and> (\<exists>s. c = Some (VerifyEmail (PyStr s)) \<and> o_token_hash t = hash_token s)
     | Found_recover t pw \<Rightarrow> seen_ott S t \<and> (\<exists>s. c = Some (Recover (PyStr s) pw) \<and> o_token_hash t = hash_token s)
     | Loaded p \<Rightarrow> (\<exists>bu bo br k. intends bu bo br p \<and> (\<exists>a. c = Some a \<and> replays V a k bu bo br p)
         \<and> (\<forall>u. bu = Some u \<longrightarrow> seen_user S u)
         \<and> (\<forall>t. bo = Some t \<longrightarrow> seen_ott S t) \<and> (\<forall>t. br = Some t \<longrightarrow> seen_rt S t))
     | _ \<Rightarrow> True)"

lemma seen_step:
  assumes "spec_step S S'"
  shows "seen_user S u \<Longrightarrow> seen_user S' u" "seen_ott S t \<Longrightarrow> seen_ott S' t" "seen_rt S r \<Longrightarrow> seen_rt S' r"
  using spec_step_moved [OF assms] by (auto simp: seen_defs)

lemma loaded_ok:
  "intends bu bo br p \<Longrightarrow> replays V c k bu bo br p \<Longrightarrow> (\<And>u. bu = Some u \<Longrightarrow> seen_user S u) \<Longrightarrow> (\<And>t. bo = Some t \<Longrightarrow> seen_ott S t) \<Longrightarrow>
    (\<And>t. br = Some t \<Longrightarrow> seen_rt S t) \<Longrightarrow> session_ok V (Some c) S (Loaded p)"
  unfolding session_ok_def session.case by blast

lemma loadedE:
  assumes "session_ok V c S (Loaded p)"
  obtains bu bo br k a where "c = Some a" "intends bu bo br p" "replays V a k bu bo br p"
    "\<forall>u. bu = Some u \<longrightarrow> seen_user S u" "\<forall>t. bo = Some t \<longrightarrow> seen_ott S t" "\<forall>t. br = Some t \<longrightarrow> seen_rt S t"
  using assms unfolding session_ok_def session.case by (elim exE conjE)

lemma session_ok_step:
  assumes "spec_step S S'" and ok: "session_ok V c S x"
  shows "session_ok V c S' x"
proof (cases x)
  case (Loaded p)
  with ok obtain bu bo br k a where "c = Some a" "intends bu bo br p" "replays V a k bu bo br p"
    "\<forall>u. bu = Some u \<longrightarrow> seen_user S u" "\<forall>t. bo = Some t \<longrightarrow> seen_ott S t" "\<forall>t. br = Some t \<longrightarrow> seen_rt S t"
    by (auto elim: loadedE)
  then show ?thesis unfolding Loaded \<open>c = Some a\<close> using seen_step [OF assms(1)] by (intro loaded_ok) blast+
qed (use ok seen_step(2) [OF assms(1)] in \<open>auto simp: session_ok_def\<close>)

section \<open>A commit is a step of the specification\<close>

text \<open>A save that succeeds was of the entity as it is stored: nobody has saved it since it was read.\<close>

lemma user_save_seen:
  assumes "db_inv d" and "user_save u d = Inr (u', d')" and "seen_user (abs_store d) b"
    and "u_id u = u_id b" and "u_version u = u_version b"
  shows "user_lookup d (u_id b) = Some b"
proof -
  obtain v where v: "u_version b = Some v" using assms(3) by (auto simp: seen_user_def)
  with user_repo.save_base [OF assms(1,2)] assms(4,5) obtain s where "user_lookup d (u_id b) = Some s" "u_version s = Some v"
    by auto
  then show ?thesis using assms(3) v by (auto simp: seen_user_def dest: moved_same_version)
qed

lemma ott_save_seen:
  assumes "db_inv d" and "ott_save t d = Inr (t', d')" and "seen_ott (abs_store d) b"
    and "o_id t = o_id b" and "o_version t = o_version b"
  shows "ott_lookup d (o_id b) = Some b"
proof -
  obtain v where v: "o_version b = Some v" using assms(3) by (auto simp: seen_ott_def)
  with ott_repo.save_base [OF assms(1,2)] assms(4,5) obtain s where "ott_lookup d (o_id b) = Some s" "o_version s = Some v"
    by auto
  then show ?thesis using assms(3) v by (auto simp: seen_ott_def dest: moved_same_version)
qed

lemma rt_save_seen:
  assumes "db_inv d" and "rt_save t d = Inr (t', d')" and "seen_rt (abs_store d) b"
    and "r_id t = r_id b" and "r_version t = r_version b"
  shows "rt_lookup d (r_id b) = Some b"
proof -
  obtain v where v: "r_version b = Some v" using assms(3) by (auto simp: seen_rt_def)
  with rt_repo.save_base [OF assms(1,2)] assms(4,5) obtain s where "rt_lookup d (r_id b) = Some s" "r_version s = Some v"
    by auto
  then show ?thesis using assms(3) v by (auto simp: seen_rt_def dest: moved_same_version)
qed

text \<open>
  The one-time tokens that a list of commits has spent, and the refresh tokens it has ended; and
  that a commit found those it spends unspent and left them spent.
\<close>

definition cs_spent :: "pending list \<Rightarrow> uuid list" where
  "cs_spent ps = concat (map (\<lambda>p. case pe_ott p of None \<Rightarrow> [] | Some t \<Rightarrow> if o_used t then [o_id t] else []) ps)"

definition cs_ended :: "pending list \<Rightarrow> uuid list" where
  "cs_ended ps = concat (map (\<lambda>p. map r_id (filter (\<lambda>t. r_revoked_at t \<noteq> None) (pe_rts p))) ps)"

definition ott_used_in :: "database \<Rightarrow> uuid \<Rightarrow> bool \<Rightarrow> bool" where
  "ott_used_in d i b \<longleftrightarrow> (\<exists>t. ott_lookup d i = Some t \<and> o_used t = b)"

definition rt_revoked_in :: "database \<Rightarrow> uuid \<Rightarrow> bool \<Rightarrow> bool" where
  "rt_revoked_in d i b \<longleftrightarrow> (\<exists>t. rt_lookup d i = Some t \<and> (r_revoked_at t \<noteq> None) = b)"

definition commit_spends :: "database \<Rightarrow> database \<Rightarrow> pending \<Rightarrow> bool" where
  "commit_spends d d' p \<longleftrightarrow> distinct (cs_spent [p]) \<and> distinct (cs_ended [p])
    \<and> (\<forall>i \<in> set (cs_spent [p]). ott_used_in d i False \<and> ott_used_in d' i True)
    \<and> (\<forall>i \<in> set (cs_ended [p]). rt_revoked_in d i False \<and> rt_revoked_in d' i True)"

lemmas commit_spends_defs = commit_spends_def cs_spent_def cs_ended_def ott_used_in_def rt_revoked_in_def

lemma abs_store_eqD:
  assumes "abs_store d = S"
  shows "ott_lookup d = st_otts S" and "rt_lookup d = st_rts S"
  using assms by auto

text \<open>The entity that a saved one comes from, with its id and version; refresh tokens are saved before new ones, and alone.\<close>

lemma intends_saves:
  assumes "intends bu bo br p"
  shows "bu = Some b \<Longrightarrow> \<exists>u. pe_user p = Some u \<and> u_id u = u_id b \<and> u_version u = u_version b"
    and "bo = Some c \<Longrightarrow> \<exists>t. pe_ott p = Some t \<and> o_id t = o_id c \<and> o_version t = o_version c"
    and "br = Some r \<Longrightarrow> \<exists>t ts. pe_user p = None \<and> pe_ott p = None \<and> pe_rts p = t # ts \<and> r_id t = r_id r \<and> r_version t = r_version r"
    and "bu = None \<Longrightarrow> pe_user p = Some u \<Longrightarrow> u_version u = None"
  using assms by (cases rule: intends.cases; force)+

text \<open>After the saves of a session it is known that what it has read was stored unchanged until then.\<close>

lemma flush_bases:
  assumes d: "db_inv (db w)" and i: "intends bu bo br p" and f: "flush p w = (Inr x, w')"
    and bu: "\<forall>u. bu = Some u \<longrightarrow> seen_user (abs_store (db w)) u"
    and bo: "\<forall>t. bo = Some t \<longrightarrow> seen_ott (abs_store (db w)) t"
    and br: "\<forall>t. br = Some t \<longrightarrow> seen_rt (abs_store (db w)) t"
  shows "still_stored (db w) bu bo br p"
  unfolding still_stored_def
proof (intro conjI allI impI)
  fix b assume b: "bu = Some b"
  with intends_saves(1) [OF i] obtain u where u: "pe_user p = Some u" "u_id u = u_id b" "u_version u = u_version b" by blast
  with f obtain u' d1 where s: "user_save u (db w) = Inr (u', d1)" by (auto simp: flush_def run_simps split: sum.splits prod.splits)
  show "user_lookup (db w) (u_id b) = Some b" by (rule user_save_seen [OF d s _ u(2,3)]) (use bu b in blast)
next
  fix b assume b: "bo = Some b"
  with intends_saves(2) [OF i] obtain t where t: "pe_ott p = Some t" "o_id t = o_id b" "o_version t = o_version b" by blast
  obtain d1 t' d2 where s: "ott_save t d1 = Inr (t', d2)" "db_inv d1" "ott_lookup d1 = ott_lookup (db w)"
  proof (cases "pe_user p")
    case None
    with f t(1) d that show thesis by (auto simp: flush_def run_simps split: sum.splits prod.splits)
  next
    case (Some u)
    with f t(1) obtain u' d1 t' d2 where "user_save u (db w) = Inr (u', d1)" "ott_save t d1 = Inr (t', d2)"
      by (auto simp: flush_def run_simps split: sum.splits prod.splits)
    with user_save_lookup(2,4) [OF d] that show thesis by blast
  qed
  have "ott_lookup d1 (o_id b) = Some b"
    by (rule ott_save_seen [OF s(2,1) _ t(2,3)]) (use bo b s(3) in \<open>simp add: seen_ott_def\<close>)
  then show "ott_lookup (db w) (o_id b) = Some b" using s(3) by simp
next
  fix b assume b: "br = Some b"
  with intends_saves(3) [OF i] obtain t ts where t: "pe_user p = None" "pe_ott p = None" "pe_rts p = t # ts"
    "r_id t = r_id b" "r_version t = r_version b" by blast
  with f obtain t' d1 where s: "rt_save t (db w) = Inr (t', d1)" by (auto simp: flush_def run_simps split: sum.splits prod.splits)
  show "rt_lookup (db w) (r_id b) = Some b" by (rule rt_save_seen [OF d s _ t(4,5)]) (use br b in blast)
next
  fix u k x assume u: "bu = None" "pe_user p = Some u" and x: "user_lookup (db w) k = Some x"
  with f obtain u' d1 where s: "user_save u (db w) = Inr (u', d1)" by (auto simp: flush_def run_simps split: sum.splits prod.splits)
  show "u_email x \<noteq> u_email u" using user_save_new_email [OF s intends_saves(4) [OF i u]] x by (blast intro: ranI)
qed

lemma flush_refines:
  assumes d: "db_inv (db w)" and i: "intends bu bo br p" and f: "flush p w = (Inr x, w')"
    and bu: "\<forall>u. bu = Some u \<longrightarrow> seen_user (abs_store (db w)) u"
    and bo: "\<forall>t. bo = Some t \<longrightarrow> seen_ott (abs_store (db w)) t"
    and br: "\<forall>t. br = Some t \<longrightarrow> seen_rt (abs_store (db w)) t"
  shows "db_inv (db w') \<and> spec_step (abs_store (db w)) (abs_store (db w')) \<and> commit_spends (db w) (db w') p"
proof -
  note st = flush_bases [OF assms, unfolded still_stored_def]
  show ?thesis using i
  proof (cases rule: intends.cases)
    case (i_register u t es a)
    with f obtain u' d1 t' d2 where s: "user_save u (db w) = Inr (u', d1)" "ott_save t d1 = Inr (t', d2)" "db w' = d2"
      by (auto simp: flush_def run_simps split: sum.splits prod.splits)
    have n: "ott_lookup (db w) (o_id t) = None"
      using ott_repo.save_base [OF _ s(2)] user_save_lookup(2,4) [OF d s(1)] i_register by simp
    note sv = save_user_ott [OF d s(1,2)]
    show ?thesis
      using spec_register [of "abs_store (db w)" "user_stored u" "ott_stored t"] sv n s(3) i_register
        user_save_new_email [OF s(1)]
      by (auto simp: commit_spends_defs fresh_defs stored_defs)
  next
    case (i_issue t u es a)
    with f obtain u' d1 t' d2 where s: "user_save (u\<lparr>u_events := []\<rparr>) (db w) = Inr (u', d1)" "ott_save t d1 = Inr (t', d2)" "db w' = d2"
      by (auto simp: flush_def run_simps split: sum.splits prod.splits)
    have n: "ott_lookup (db w) (o_id t) = None"
      using ott_repo.save_base [OF _ s(2)] user_save_lookup(2,4) [OF d s(1)] i_issue by simp
    have u: "user_lookup (db w) (u_id u) = Some u" using st i_issue by simp
    show ?thesis
      using spec_issue [of "abs_store (db w)" u "ott_stored t"] save_user_ott [OF d s(1,2)] n s(3) i_issue u
      by (auto simp: commit_spends_defs fresh_defs stored_defs)
  next
    case (i_verify t u es a)
    with f obtain u' d1 t' d2 where s: "user_save (u\<lparr>u_is_email_verified := True, u_events := []\<rparr>) (db w) = Inr (u', d1)"
      "ott_save (t\<lparr>o_used := True\<rparr>) d1 = Inr (t', d2)" "db w' = d2"
      by (auto simp: flush_def run_simps split: sum.splits prod.splits)
    have u: "user_lookup (db w) (u_id u) = Some u" using st i_verify by simp
    have t: "ott_lookup (db w) (o_id t) = Some t" using st i_verify by simp
    have pr: "o_purpose q = o_purpose (t\<lparr>o_used := True\<rparr>)" if "ott_lookup (db w) (o_id (t\<lparr>o_used := True\<rparr>)) = Some q" for q
      using that t by simp
    note sv = save_user_ott [OF d s(1,2) pr]
    show ?thesis
      using spec_verify [of "abs_store (db w)" t u] sv abs_store_eqD [OF sv(1)] s(3) i_verify u t
      by (auto simp: commit_spends_defs stored_defs)
  next
    case (i_login u t es a)
    with f obtain u' d1 t' d2 where s: "user_save (u\<lparr>u_events := []\<rparr>) (db w) = Inr (u', d1)" "rt_save t d1 = Inr (t', d2)" "db w' = d2"
      by (auto simp: flush_def run_simps split: sum.splits prod.splits)
    have u: "user_lookup (db w) (u_id u) = Some u" using st i_login by simp
    show ?thesis
      using spec_login [of "abs_store (db w)" u "rt_stored t"] save_user_rt [OF d s(1,2)] s(3) i_login u
      by (auto simp: commit_spends_defs fresh_defs stored_defs)
  next
    case (i_rotate t n now es a)
    let ?t = "t\<lparr>r_revoked_at := Some now, r_replaced_by_id := Some (r_id n), r_events := []\<rparr>"
    from i_rotate f obtain t' d1 n' d2 where s: "rt_save ?t (db w) = Inr (t', d1)" "rt_save n d1 = Inr (n', d2)" "db w' = d2"
      by (auto simp: flush_def run_simps split: sum.splits prod.splits)
    have t: "rt_lookup (db w) (r_id t) = Some t" using st i_rotate by simp
    show ?thesis
      using spec_rotate [of "abs_store (db w)" t "rt_stored n" now] save_rt_rt [OF d s(1,2)] s(3) i_rotate t
        abs_store_eqD [OF save_rt_rt(1) [OF d s(1,2)]]
      by (auto simp: commit_spends_defs fresh_defs stored_defs)
  next
    case (i_revoke t now es a)
    with f obtain t' d1 where s: "rt_save (t\<lparr>r_revoked_at := Some now, r_events := []\<rparr>) (db w) = Inr (t', d1)" "db w' = d1"
      by (auto simp: flush_def run_simps split: sum.splits prod.splits)
    have t: "rt_lookup (db w) (r_id t) = Some t" using st i_revoke by simp
    show ?thesis
      using spec_revoke [of "abs_store (db w)" t now] rt_save_lookup [OF d s(1)] s(2) i_revoke t
      by (auto simp: abs_store_def commit_spends_defs stored_defs)
  next
    case (i_change_password u h es a)
    with f obtain u' d1 where s: "user_save (u\<lparr>u_password_hash := h, u_events := []\<rparr>) (db w) = Inr (u', d1)" "db w' = d1"
      by (auto simp: flush_def run_simps split: sum.splits prod.splits)
    have u: "user_lookup (db w) (u_id u) = Some u" using st i_change_password by simp
    show ?thesis
      using spec_change_password [of "abs_store (db w)" u h] user_save_lookup [OF d s(1)] s(2) i_change_password u
      by (auto simp: abs_store_def commit_spends_defs)
  next
    case (i_recover t u h es a)
    with f obtain u' d1 t' d2 where s: "user_save (u\<lparr>u_password_hash := h, u_events := []\<rparr>) (db w) = Inr (u', d1)"
      "ott_save (t\<lparr>o_used := True\<rparr>) d1 = Inr (t', d2)" "db w' = d2"
      by (auto simp: flush_def run_simps split: sum.splits prod.splits)
    have u: "user_lookup (db w) (u_id u) = Some u" using st i_recover by simp
    have t: "ott_lookup (db w) (o_id t) = Some t" using st i_recover by simp
    have pr: "o_purpose q = o_purpose (t\<lparr>o_used := True\<rparr>)" if "ott_lookup (db w) (o_id (t\<lparr>o_used := True\<rparr>)) = Some q" for q
      using that t by simp
    note sv = save_user_ott [OF d s(1,2) pr]
    show ?thesis
      using spec_recover [of "abs_store (db w)" t u h] sv abs_store_eqD [OF sv(1)] s(3) i_recover u t
      by (auto simp: commit_spends_defs stored_defs)
  qed
qed

section \<open>What a call has read is stored\<close>

lemma stored_seen:
  "db_inv d \<Longrightarrow> user_lookup d i = Some u \<Longrightarrow> seen_user (abs_store d) u \<and> u_id u = i"
  "db_inv d \<Longrightarrow> ott_lookup d j = Some t \<Longrightarrow> seen_ott (abs_store d) t \<and> o_id t = j"
  "db_inv d \<Longrightarrow> rt_lookup d k = Some r \<Longrightarrow> seen_rt (abs_store d) r \<and> r_id r = k"
  using user_repo.lookup_key [of d i u] ott_repo.lookup_key [of d j t] rt_repo.lookup_key [of d k r]
  by (auto simp: seen_defs)

lemma replaysI:
  "(\<And>v. tick v = k \<Longrightarrow> db_inv (db v) \<Longrightarrow> users_inv (user_lookup (db v)) \<Longrightarrow> tokens_distinct (db v) \<Longrightarrow>
      still_stored (db v) bu bo br p \<Longrightarrow> fst (call_load V c v) = Inr p) \<Longrightarrow> replays V c k bu bo br p"
  unfolding replays_def by blast

lemma read_again:
  assumes "q (db v) = q (db w)" and "tick v = tick w" and "\<And>x. only_ticks (F x)"
  shows "fst (bindM (readM q) F v) = fst (bindM (readM q) F w)"
  using assms only_ticks_again [OF assms(3,2)] by (simp add: run_bindM run_readM split: sum.split)

lemma ticks_again:
  assumes "only_ticks m" and "tick v = tick w" and "m w = (r, w1)"
  obtains v1 where "m v = (r, v1)" and "tick v1 = tick w1" and "db v1 = db v"
proof -
  from assms(1) obtain f g where "\<And>w. m w = (f (tick w), w\<lparr>tick := g (tick w)\<rparr>)" unfolding only_ticks_def by blast
  with assms(2,3) show thesis by (intro that [of "v\<lparr>tick := g (tick v)\<rparr>"]) auto
qed

lemma load_again:
  assumes "tick v = tick w"
  shows "user_get_by_email em (db v) = user_get_by_email em (db w) \<Longrightarrow> fst (register_load V em pw v) = fst (register_load V em pw w)"
    and "user_get_by_id (o_user_id t) (db v) = user_get_by_id (o_user_id t) (db w) \<Longrightarrow>
      fst (verify_email_load V t v) = fst (verify_email_load V t w)"
    and "user_get_by_email (PyStr m) (db v) = user_get_by_email (PyStr m) (db w) \<Longrightarrow>
      fst (login_load V m q ip ua loc v) = fst (login_load V m q ip ua loc w)"
    and "rt_get_by_string s (db v) = rt_get_by_string s (db w) \<Longrightarrow> fst (refresh_load V s v) = fst (refresh_load V s w)"
    and "rt_get_by_string s (db v) = rt_get_by_string s (db w) \<Longrightarrow>
      fst (revoke_load V s ip ua loc v) = fst (revoke_load V s ip ua loc w)"
    and "user_get_by_email em (db v) = user_get_by_email em (db w) \<Longrightarrow> fst (recover_request_load V em v) = fst (recover_request_load V em w)"
    and "user_get_by_id (o_user_id t) (db v) = user_get_by_id (o_user_id t) (db w) \<Longrightarrow>
      fst (recover_load V t pyw v) = fst (recover_load V t pyw w)"
  unfolding load_defs Let_def by (rule read_again, assumption, rule assms, (intro ticks_intros)+)+

text \<open>A token that is stored as it was read is what its text finds.\<close>

lemma found_again:
  "db_inv d \<Longrightarrow> user_lookup d (u_id u) = Some u \<Longrightarrow> user_get_by_email (PyStr (u_email u)) d = Inr (Some u)"
  "db_inv d \<Longrightarrow> user_lookup d i = Some u \<Longrightarrow> user_get_by_id i d = Inr (Some u)"
  "db_inv d \<Longrightarrow> tokens_distinct d \<Longrightarrow> ott_lookup d j = Some t \<Longrightarrow> o_token_hash t = hash_token s \<Longrightarrow>
    ott_get_by_string (PyStr s) d = Inr (Some t)"
  "db_inv d \<Longrightarrow> tokens_distinct d \<Longrightarrow> rt_lookup d k = Some r \<Longrightarrow> r_token_hash r = hash_token s \<Longrightarrow>
    rt_get_by_string s d = Inr (Some r)"
  using user_get_by_email_lookup [of d "u_id u" u] user_get_by_id_eq [of d i] ott_get_by_string_lookup [of d j t s]
    rt_get_by_string_lookup [of d k r s] unfolding tokens_distinct_def by (simp, simp, metis, metis)

lemma register_load_ok:
  assumes d: "db_inv (db w)" and r: "register_load V em pw w = (Inr p, w')"
  shows "session_ok V (Some (Register em pw)) (abs_store (db w)) (Loaded p)"
proof -
  from r obtain f where f: "user_get_by_email em (db w) = Inr f"
    by (auto simp: register_load_def run_simps split: sum.splits)
  show ?thesis
  proof (cases f)
    case None
    from r f None obtain u w1 u1 t s w2 where c: "user_create (sys V) em pw w = (Inr u, w1)"
      and q: "request_verification (sys V) u (email_token_len (cfg V)) (email_token_exp (cfg V)) w1 = (Inr (u1, t, s), w2)"
      and p: "p = \<lparr>pe_user = Some (u1\<lparr>u_events := []\<rparr>), pe_ott = Some t, pe_rts = [], pe_events = u_events u1, pe_answer = None\<rparr>"
      by (auto simp: register_load_def run_simps user_pull_domain_events_def split: sum.splits prod.splits)
    obtain ts where u: "u_version u = None" "u_active u" "\<not> u_is_email_verified u" "validate_email em = Inr (u_email u)"
      using user_create_Inr [OF c] .
    obtain ts' where t: "o_version t = None" "\<not> o_used t" "o_token_hash t = hash_token s" "o_user_id t = u_id u"
      "o_purpose t = VERIFY_EMAIL"
      "u1 = u\<lparr>u_events := u_events u @ [UserEmailVerificationRequested ts' (u_id u) (u_email u) s]\<rparr>"
      using request_verification_Inr [OF q] by blast
    have "fresh_user (user_stored (u1\<lparr>u_events := []\<rparr>))"
      using u t(6) validate_email_idem [OF u(4)] by (simp add: fresh_user_def user_stored_def)
    then have "intends None None None p"
      unfolding p using u t fresh_ott_stored [OF t(1-3)] by (intro i_register) simp_all
    moreover have "replays V (Register em pw) (tick w) None None None p"
    proof (rule replaysI)
      fix v :: app_world assume v: "tick v = tick w" "db_inv (db v)" "users_inv (user_lookup (db v))" "still_stored (db v) None None None p"
      obtain m where m: "em = PyStr m" using u(4) by (cases em) (auto simp: validate_email_def)
      obtain x where x: "user_get_by_email em (db v) = Inr x" using user_get_by_email_eq [OF v(2)] m by blast
      have "x = None"
      proof (rule ccontr)
        assume "x \<noteq> None"
        then obtain y where y: "x = Some y" by blast
        note l = user_get_by_email_Some [OF v(2) x [unfolded y]]
        with v(3) u(4) have "u_email y = u_email u" by (auto simp: users_inv_def)
        moreover have "u_email y \<noteq> u_email u" using v(4) l t(6) unfolding still_stored_def p by auto
        ultimately show False by simp
      qed
      then have "fst (register_load V em pw v) = fst (register_load V em pw w)"
        using f None x by (intro load_again v(1)) simp
      then show "fst (call_load V (Register em pw) v) = Inr p" using r by simp
    qed
    ultimately show ?thesis by (rule loaded_ok) simp_all
  next
    case (Some u)
    from r f Some obtain u1 t s w2 where v: "\<not> u_is_email_verified u"
      and q: "request_verification (sys V) u (email_token_len (cfg V)) (email_token_exp (cfg V)) w = (Inr (u1, t, s), w2)"
      and p: "p = \<lparr>pe_user = Some (u1\<lparr>u_events := []\<rparr>), pe_ott = Some t, pe_rts = [], pe_events = u_events u1, pe_answer = None\<rparr>"
      by (auto simp: register_load_def run_simps user_pull_domain_events_def split: sum.splits prod.splits if_splits)
    obtain ts where t: "o_version t = None" "\<not> o_used t" "o_token_hash t = hash_token s" "o_user_id t = u_id u"
      "o_purpose t = VERIFY_EMAIL"
      "u1 = u\<lparr>u_events := u_events u @ [UserEmailVerificationRequested ts (u_id u) (u_email u) s]\<rparr>"
      using request_verification_Inr [OF q] by blast
    have u1: "u1\<lparr>u_events := []\<rparr> = u\<lparr>u_events := []\<rparr>" using t(6) by simp
    have "intends (Some u) None None p"
      unfolding p u1 using v t fresh_ott_stored [OF t(1-3)] by (intro i_issue) (simp_all add: may_issue_def)
    moreover have "replays V (Register em pw) (tick w) (Some u) None None p"
    proof (rule replaysI)
      fix v :: app_world assume v: "tick v = tick w" "db_inv (db v)" "tokens_distinct (db v)" "still_stored (db v) (Some u) None None p"
      have "user_get_by_email em (db v) = user_get_by_email em (db w)"
        using found_again(1) [OF v(2)] user_get_by_email_Some [OF d f [unfolded Some]] v(4) f Some by (auto simp: still_stored_def)
      from load_again(1) [OF v(1) this] show "fst (call_load V (Register em pw) v) = Inr p" using r by simp
    qed
    ultimately show ?thesis by (rule loaded_ok) (use user_get_by_email_Some [OF d f [unfolded Some]] stored_seen(1) [OF d] in auto)
  qed
qed

lemma recover_request_load_ok:
  assumes d: "db_inv (db w)" and r: "recover_request_load V em w = (Inr p, w')"
  shows "session_ok V (Some (RecoverRequest em)) (abs_store (db w)) (Loaded p)"
proof -
  from r obtain u u1 t s w2 where f: "user_get_by_email em (db w) = Inr (Some u)"
    and q: "recover_request_service (sys V) u (password_recover_token_len (cfg V)) (password_recover_token_exp (cfg V)) w
      = (Inr (u1, t, s), w2)"
    and p: "p = \<lparr>pe_user = Some (u1\<lparr>u_events := []\<rparr>), pe_ott = Some t, pe_rts = [], pe_events = u_events u1, pe_answer = None\<rparr>"
    by (auto simp: recover_request_load_def run_simps user_pull_domain_events_def split: sum.splits prod.splits option.splits)
  obtain ts where t: "u_is_email_verified u" "o_version t = None" "\<not> o_used t" "o_token_hash t = hash_token s"
    "o_user_id t = u_id u" "o_purpose t = RECOVER_PASSWORD"
    "u1 = u\<lparr>u_events := u_events u @ [UserPasswordRecoverRequested ts (u_id u) (u_email u) s]\<rparr>"
    using recover_request_service_Inr [OF q] by blast
  have u1: "u1\<lparr>u_events := []\<rparr> = u\<lparr>u_events := []\<rparr>" using t(7) by simp
  have "intends (Some u) None None p"
    unfolding p u1 using t fresh_ott_stored [OF t(2-4)] by (intro i_issue) (simp_all add: may_issue_def)
  moreover have "replays V (RecoverRequest em) (tick w) (Some u) None None p"
  proof (rule replaysI)
    fix v :: app_world assume v: "tick v = tick w" "db_inv (db v)" "tokens_distinct (db v)" "still_stored (db v) (Some u) None None p"
    have "user_get_by_email em (db v) = user_get_by_email em (db w)"
      using found_again(1) [OF v(2)] user_get_by_email_Some [OF d f] v(4) f by (auto simp: still_stored_def)
    from load_again(6) [OF v(1) this] show "fst (call_load V (RecoverRequest em) v) = Inr p" using r by simp
  qed
  ultimately show ?thesis by (rule loaded_ok) (use user_get_by_email_Some [OF d f] stored_seen(1) [OF d] in auto)
qed

lemma login_load_ok:
  assumes d: "db_inv (db w)" and r: "login_load V m pwd ip ua loc w = (Inr p, w')"
  shows "session_ok V (Some (Login m pwd ip ua loc)) (abs_store (db w)) (Loaded p)"
proof -
  from r obtain u t s and w1 w2 :: app_world and es a where f: "user_get_by_email (PyStr m) (db w) = Inr (Some u)"
    and c: "can_login (sys V) u pwd"
    and q: "rt_create (sys V) (u_id u) (refresh_token_len (cfg V)) (refresh_token_exp (cfg V)) loc ip ua w1 = (Inr (t, s), w2)"
    and p: "p = \<lparr>pe_user = Some (u\<lparr>u_events := []\<rparr>), pe_ott = None, pe_rts = [t\<lparr>r_events := []\<rparr>], pe_events = es, pe_answer = a\<rparr>"
    unfolding login_load_def
    by (auto simp: run_bindM run_readM run_raiseM run_retM user_pull_domain_events_def
        rt_pull_domain_events_def assert_can_login_Inr split: sum.splits prod.splits option.splits)
  note t = rt_create_Inr [OF q]
  have "intends (Some u) None None p"
    unfolding p using c t fresh_rt_stored [of t s] by (intro i_login) (simp_all add: can_login_def)
  moreover have "replays V (Login m pwd ip ua loc) (tick w) (Some u) None None p"
  proof (rule replaysI)
    fix v :: app_world assume v: "tick v = tick w" "db_inv (db v)" "tokens_distinct (db v)" "still_stored (db v) (Some u) None None p"
    have "user_get_by_email (PyStr m) (db v) = user_get_by_email (PyStr m) (db w)"
      using found_again(1) [OF v(2)] user_get_by_email_Some [OF d f] v(4) f by (auto simp: still_stored_def)
    from load_again(3) [OF v(1) this] show "fst (call_load V (Login m pwd ip ua loc) v) = Inr p" using r by simp
  qed
  ultimately show ?thesis by (rule loaded_ok) (use user_get_by_email_Some [OF d f] stored_seen(1) [OF d] in auto)
qed

lemma refresh_load_ok:
  assumes d: "db_inv (db w)" and r: "refresh_load V tok w = (Inr p, w')"
  shows "session_ok V (Some (Refresh tok rip rua rloc)) (abs_store (db w)) (Loaded p)"
proof -
  from r obtain t t1 w1 t2 n s a w2 es an where f: "rt_get_by_string tok (db w) = Inr (Some t)"
    and u: "rt_use (sys V) t w = (Inr t1, w1)"
    and q: "rotate (sys V) t1 (refresh_token_len (cfg V)) (refresh_token_exp (cfg V)) (access_token_exp (cfg V))
        (access_token_issue (sys V) (cfg V)) w1 = (Inr (t2, n, s, a), w2)"
    and p: "p = \<lparr>pe_user = None, pe_ott = None, pe_rts = [t2\<lparr>r_events := []\<rparr>, n\<lparr>r_events := []\<rparr>], pe_events = es, pe_answer = an\<rparr>"
    unfolding refresh_load_def
    by (auto simp: run_bindM run_readM run_raiseM run_retM
        rt_pull_domain_events_def split: sum.splits prod.splits option.splits)
  from u obtain now es1 where g: "r_replaced_by_id t = None" "r_revoked_at t = None"
    and t1: "t1 = t\<lparr>r_revoked_at := Some now, r_events := es1\<rparr>"
    by (auto simp: run_rt_use run_rt_set_revoked split: if_splits)
  have n: "t2 = t1\<lparr>r_replaced_by_id := Some (r_id n)\<rparr>" "r_user_id n = r_user_id t1"
    "r_token_hash n = hash_token s" "r_revoked_at n = None" "r_replaced_by_id n = None" "r_version n = None"
    by (rule rotate_Inr [OF q], assumption)+
  have "t2\<lparr>r_events := []\<rparr> = t\<lparr>r_revoked_at := Some now, r_replaced_by_id := Some (r_id (n\<lparr>r_events := []\<rparr>)), r_events := []\<rparr>"
    using n(1) t1 by simp
  then have "intends None None (Some t) p"
    unfolding p using g n t1 fresh_rt_stored [of n s] by (simp only:) (intro i_rotate, simp_all)
  moreover have "replays V (Refresh tok rip rua rloc) (tick w) None None (Some t) p"
  proof (rule replaysI)
    fix v :: app_world assume v: "tick v = tick w" "db_inv (db v)" "tokens_distinct (db v)" "still_stored (db v) None None (Some t) p"
    have "rt_get_by_string tok (db v) = rt_get_by_string tok (db w)"
      using found_again(4) [OF v(2,3)] rt_get_by_string_Some [OF d f] v(4) f by (auto simp: still_stored_def)
    from load_again(4) [OF v(1) this] show "fst (call_load V (Refresh tok rip rua rloc) v) = Inr p" using r by simp
  qed
  ultimately show ?thesis by (rule loaded_ok) (use rt_get_by_string_Some [OF d f] stored_seen(3) [OF d] in auto)
qed

lemma revoke_load_ok:
  assumes d: "db_inv (db w)" and r: "revoke_load V tok ip ua loc w = (Inr p, w')"
  shows "session_ok V (Some (Revoke tok ip ua loc)) (abs_store (db w)) (Loaded p)"
proof -
  from r obtain t now es where f: "rt_get_by_string tok (db w) = Inr (Some t)" and g: "r_revoked_at t = None"
    and p: "p = \<lparr>pe_user = None, pe_ott = None, pe_rts = [t\<lparr>r_revoked_at := Some now, r_events := []\<rparr>], pe_events = es, pe_answer = None\<rparr>"
    by (auto simp: revoke_load_def run_simps run_rt_revoke rt_pull_domain_events_def Let_def
        split: sum.splits option.splits if_splits prod.splits)
  have "intends None None (Some t) p" unfolding p using g by (intro i_revoke)
  moreover have "replays V (Revoke tok ip ua loc) (tick w) None None (Some t) p"
  proof (rule replaysI)
    fix v :: app_world assume v: "tick v = tick w" "db_inv (db v)" "tokens_distinct (db v)" "still_stored (db v) None None (Some t) p"
    have "rt_get_by_string tok (db v) = rt_get_by_string tok (db w)"
      using found_again(4) [OF v(2,3)] rt_get_by_string_Some [OF d f] v(4) f by (auto simp: still_stored_def)
    from load_again(5) [OF v(1) this] show "fst (call_load V (Revoke tok ip ua loc) v) = Inr p" using r by simp
  qed
  ultimately show ?thesis by (rule loaded_ok) (use rt_get_by_string_Some [OF d f] stored_seen(3) [OF d] in auto)
qed

lemma change_password_load_ok:
  assumes d: "db_inv (db w)" and r: "change_password_load V a old new w = (Inr p, w')"
  shows "session_ok V (Some (ChangePassword a old new)) (abs_store (db w)) (Loaded p)"
proof -
  from r obtain i w1 u u1 w2 es where v0: "access_token_verify (sys V) (cfg V) a w = (Inr i, w1)"
    and f: "user_get_by_id i (db w1) = Inr (Some u)"
    and c: "change_password (sys V) u old new w1 = (Inr u1, w2)"
    and p: "p = \<lparr>pe_user = Some (u1\<lparr>u_events := []\<rparr>), pe_ott = None, pe_rts = [], pe_events = es, pe_answer = None\<rparr>"
    unfolding change_password_load_def
    by (auto simp: run_bindM run_readM run_raiseM run_retM user_pull_domain_events_def
        split: sum.splits prod.splits option.splits)
  have dw: "db w1 = db w" using only_ticks_db [OF only_ticks_access_token(2) v0] .
  from c obtain h es1 where u1: "u1 = u\<lparr>u_password_hash := h, u_events := es1\<rparr>"
    by (auto simp: user_run_simps split: sum.splits option.splits if_splits bool.splits)
  have "u1\<lparr>u_events := []\<rparr> = u\<lparr>u_password_hash := h, u_events := []\<rparr>" using u1 by simp
  then have "intends (Some u) None None p" unfolding p by (simp only:) (rule i_change_password)
  moreover have "replays V (ChangePassword a old new) (tick w) (Some u) None None p"
  proof (rule replaysI)
    fix v :: app_world assume v: "tick v = tick w" "db_inv (db v)" "tokens_distinct (db v)" "still_stored (db v) (Some u) None None p"
    from ticks_again [OF only_ticks_access_token(2) v(1) v0] obtain v1
      where v1: "access_token_verify (sys V) (cfg V) a v = (Inr i, v1)" "tick v1 = tick w1" "db v1 = db v" .
    have f1: "user_get_by_id i (db v1) = Inr (Some u)"
      using user_get_by_id_Some [OF d f [unfolded dw]] v(2,4) unfolding v1(3) by (simp add: still_stored_def user_get_by_id_eq)
    from ticks_again [OF only_ticks_user_ops(7) v1(2) c] obtain v2 where "change_password (sys V) u old new v1 = (Inr u1, v2)" .
    with v1(1) f1 r v0 f c show "fst (call_load V (ChangePassword a old new) v) = Inr p"
      by (auto simp: change_password_load_def run_bindM run_readM run_retM split: prod.splits)
  qed
  ultimately show ?thesis by (rule loaded_ok) (use user_get_by_id_Some [OF d f [unfolded dw]] stored_seen(1) [OF d] in auto)
qed

lemma verify_email_load_ok:
  assumes d: "db_inv (db w)" and o: "seen_ott (abs_store (db w)) t" and h: "o_token_hash t = hash_token s"
    and r: "verify_email_load V t w = (Inr p, w')"
  shows "session_ok V (Some (VerifyEmail (PyStr s))) (abs_store (db w)) (Loaded p)"
proof -
  from r obtain u es where f: "user_get_by_id (o_user_id t) (db w) = Inr (Some u)"
    and g: "o_purpose t = VERIFY_EMAIL" "\<not> o_used t" "\<not> u_is_email_verified u"
    and p: "p = \<lparr>pe_user = Some (u\<lparr>u_is_email_verified := True, u_events := []\<rparr>), pe_ott = Some (t\<lparr>o_used := True\<rparr>),
      pe_rts = [], pe_events = es, pe_answer = None\<rparr>"
    by (auto simp: verify_email_load_def run_simps verify_email_def user_pull_domain_events_def
        split: sum.splits option.splits if_splits prod.splits)
  note u = user_get_by_id_Some [OF d f]
  have "intends (Some u) (Some t) None p" unfolding p using g u by (intro i_verify) simp_all
  moreover have "replays V (VerifyEmail (PyStr s)) (tick w) (Some u) (Some t) None p"
  proof (rule replaysI)
    fix v :: app_world assume v: "tick v = tick w" "db_inv (db v)" "tokens_distinct (db v)" "still_stored (db v) (Some u) (Some t) None p"
    have "ott_get_by_string (PyStr s) (db v) = Inr (Some t)" and "user_get_by_id (o_user_id t) (db v) = user_get_by_id (o_user_id t) (db w)"
      using found_again(2) [OF v(2)] found_again(3) [OF v(2,3) _ h] v(4) f u by (auto simp: still_stored_def)
    with load_again(2) [OF v(1) this(2)] r show "fst (call_load V (VerifyEmail (PyStr s)) v) = Inr p"
      by (simp add: run_bindM run_readM)
  qed
  ultimately show ?thesis by (rule loaded_ok) (use u o stored_seen(1) [OF d] in auto)
qed

lemma recover_load_ok:
  assumes d: "db_inv (db w)" and o: "seen_ott (abs_store (db w)) t" and h: "o_token_hash t = hash_token s"
    and r: "recover_load V t pw w = (Inr p, w')"
  shows "session_ok V (Some (Recover (PyStr s) pw)) (abs_store (db w)) (Loaded p)"
proof -
  from r obtain u u1 w1 t1 w2 es where f: "user_get_by_id (o_user_id t) (db w) = Inr (Some u)"
    and c: "recover_password (sys V) u pw w = (Inr u1, w1)" and o1: "ott_use (sys V) t RECOVER_PASSWORD w1 = (Inr t1, w2)"
    and p: "p = \<lparr>pe_user = Some (u1\<lparr>u_events := []\<rparr>), pe_ott = Some t1, pe_rts = [], pe_events = es, pe_answer = None\<rparr>"
    unfolding recover_load_def
    by (auto simp: run_bindM run_readM run_raiseM run_retM user_pull_domain_events_def
        split: sum.splits prod.splits option.splits)
  from c obtain h es1 where u1: "u1 = u\<lparr>u_password_hash := h, u_events := es1\<rparr>"
    by (auto simp: user_run_simps split: sum.splits option.splits if_splits bool.splits)
  from o1 have t1: "o_purpose t = RECOVER_PASSWORD" "\<not> o_used t" "t1 = t\<lparr>o_used := True\<rparr>"
    by (auto simp: run_simps split: if_splits)
  note u = user_get_by_id_Some [OF d f]
  have "u1\<lparr>u_events := []\<rparr> = u\<lparr>u_password_hash := h, u_events := []\<rparr>" using u1 by simp
  then have "intends (Some u) (Some t) None p" unfolding p t1(3) using t1 u by (simp only:) (intro i_recover, simp_all)
  moreover have "replays V (Recover (PyStr s) pw) (tick w) (Some u) (Some t) None p"
  proof (rule replaysI)
    fix v :: app_world assume v: "tick v = tick w" "db_inv (db v)" "tokens_distinct (db v)" "still_stored (db v) (Some u) (Some t) None p"
    have "ott_get_by_string (PyStr s) (db v) = Inr (Some t)" and "user_get_by_id (o_user_id t) (db v) = user_get_by_id (o_user_id t) (db w)"
      using found_again(2) [OF v(2)] found_again(3) [OF v(2,3) _ h] v(4) f u by (auto simp: still_stored_def)
    with load_again(7) [OF v(1) this(2)] r show "fst (call_load V (Recover (PyStr s) pw) v) = Inr p"
      by (simp add: run_bindM run_readM)
  qed
  ultimately show ?thesis by (rule loaded_ok) (use u o stored_seen(1) [OF d] in auto)
qed

section \<open>The steps of a session\<close>

lemma reads_only_tryM [reads_intros]:
  assumes "reads_only m" and "\<And>e. reads_only (h e)"
  shows "reads_only (tryM m h)"
  unfolding reads_only_def
proof
  fix w :: app_world
  obtain r w1 where r: "m w = (r, w1)" by fastforce
  with reads_onlyD(1) [OF assms(1)] obtain n where w1: "w1 = w\<lparr>tick := n\<rparr>" by blast
  show "\<exists>n. snd (tryM m h w) = w\<lparr>tick := n\<rparr>"
  proof (cases r)
    case (Inl e)
    obtain k where "snd (h e w1) = w1\<lparr>tick := k\<rparr>" using assms(2) unfolding reads_only_def by blast
    then show ?thesis using r w1 Inl by (auto simp: run_tryM)
  next
    case (Inr a)
    then show ?thesis using r w1 by (auto simp: run_tryM)
  qed
qed

lemma reads_only_if [reads_intros]: "reads_only m \<Longrightarrow> reads_only m' \<Longrightarrow> reads_only (if c then m else m')"
  by simp

lemma reads_only_done: "reads_only (retM a)" "reads_only (raiseM e)"
  by (rule reads_only_ticks, rule ticks_intros)+

lemma reads_only_start: "reads_only (start_call V c)"
  by (cases c) (simp_all, (intro reads_only_bindM reads_only_tryM reads_only_if reads_only_case_option reads_only_readM reads_only_loads reads_only_done)+)

lemma start_call_ok:
  assumes d: "db_inv (db w)" and r: "start_call V c w = (Inr x, w')"
  shows "session_ok V (Some c) (abs_store (db w)) x"
proof (cases c)
  case (VerifyEmail s)
  with r obtain t where f: "ott_get_by_string s (db w) = Inr (Some t)" and x: "x = Found_verify t"
    by (auto simp: run_simps split: sum.splits option.splits)
  then show ?thesis using VerifyEmail ott_get_by_string_Some [OF d f] stored_seen(2) [OF d] by (auto simp: session_ok_def)
next
  case (Recover s pw)
  with r obtain t where f: "ott_get_by_string s (db w) = Inr (Some t)" and x: "x = Found_recover t pw"
    by (auto simp: run_simps split: sum.splits option.splits)
  then show ?thesis using Recover ott_get_by_string_Some [OF d f] stored_seen(2) [OF d] by (auto simp: session_ok_def)
next
  case (Refresh s ip ua loc)
  with r have "(\<exists>p w1. refresh_load V s w = (Inr p, w1) \<and> x = Loaded p) \<or> (\<exists>e. x = Caught s ip ua loc e)"
    by (auto simp: run_bindM run_retM run_tryM run_raiseM split: sum.splits prod.splits if_splits)
  then show ?thesis using refresh_load_ok [OF d] Refresh by (auto simp: session_ok_def [of _ _ _ "Caught s ip ua loc e" for e])
qed (use r in \<open>auto elim!: bindM_InrE simp: run_retM intro: register_load_ok [OF d] login_load_ok [OF d]
      revoke_load_ok [OF d] change_password_load_ok [OF d] recover_request_load_ok [OF d]\<close>)

lemma publish_db: "publish_events V es w = (r, w') \<Longrightarrow> db w' = db w"
  by (auto simp: run_publish_events)

text \<open>A step of a session either leaves the database as it is, or is a commit.\<close>

lemma proceed_ok:
  assumes d: "db_inv (db w)" and ok: "session_ok V c (abs_store (db w)) x" and r: "proceed V x w = (Inr y, w')"
  shows "case x of
      Loaded p \<Rightarrow> db_inv (db w') \<and> spec_step (abs_store (db w)) (abs_store (db w')) \<and> commit_spends (db w) (db w') p
    | _ \<Rightarrow> db w' = db w"
    and "session_ok V c (abs_store (db w')) y"
proof -
  show "case x of
      Loaded p \<Rightarrow> db_inv (db w') \<and> spec_step (abs_store (db w)) (abs_store (db w')) \<and> commit_spends (db w) (db w') p
    | _ \<Rightarrow> db w' = db w"
  proof (cases x)
    case (Loaded p)
    with r have "flush p w = (Inr (), w')"
      by (auto elim!: bindM_InrE simp: run_retM with_tx_Inr)
    then show ?thesis using flush_refines [OF d] ok Loaded by (auto elim!: loadedE)
  next
    case (Found_verify t)
    then show ?thesis using r reads_onlyD(2) [OF reads_only_loads(2)] by (auto elim!: bindM_InrE simp: run_retM)
  next
    case (Found_recover t pw)
    then show ?thesis using r reads_onlyD(2) [OF reads_only_loads(8)] by (auto elim!: bindM_InrE simp: run_retM)
  next
    case (Committed es a)
    then show ?thesis using r by (cases es) (auto simp: run_bindM run_retM run_publish_events)
  next
    case (Caught s ip ua loc e)
    then show ?thesis using r reads_onlyD(2) [OF reads_only_loads(9)]
      by (auto elim!: bindM_InrE simp: run_retM with_tx_only_reads [OF reads_only_loads(9)])
  next
    case (Reused es e)
    then show ?thesis using r by (cases es) (auto simp: run_bindM run_retM run_raiseM run_publish_events)
  next
    case (Done a)
    then show ?thesis using r by (auto simp: run_retM)
  qed
  show "session_ok V c (abs_store (db w')) y"
  proof (cases x)
    case (Found_verify t)
    with r obtain p where p: "verify_email_load V t w = (Inr p, w')" "y = Loaded p"
      by (auto elim!: bindM_InrE simp: run_retM)
    then show ?thesis using verify_email_load_ok [OF d _ _ p(1)] ok Found_verify reads_onlyD(2) [OF reads_only_loads(2) p(1)]
      by (auto simp: session_ok_def [of _ _ _ "Found_verify t"])
  next
    case (Found_recover t pw)
    with r obtain p where p: "recover_load V t pw w = (Inr p, w')" "y = Loaded p"
      by (auto elim!: bindM_InrE simp: run_retM)
    then show ?thesis using recover_load_ok [OF d _ _ p(1)] ok Found_recover reads_onlyD(2) [OF reads_only_loads(8) p(1)]
      by (auto simp: session_ok_def [of _ _ _ "Found_recover t pw"])
  next
    case (Committed es a)
    then show ?thesis using r by (cases es) (auto elim!: bindM_InrE simp: run_retM session_ok_def)
  next
    case (Reused es e)
    then show ?thesis using r by (cases es) (auto elim!: bindM_InrE simp: run_retM run_raiseM session_ok_def)
  qed (use r in \<open>auto elim!: bindM_InrE simp: run_retM run_raiseM session_ok_def\<close>)
qed

lemma proceed_raises:
  assumes "proceed V x w = (Inl e, w')"
  shows "db w' = db w"
proof (cases x)
  case (Loaded p)
  with assms have "with_tx (flush p) w = (Inl e, w')" by (auto elim!: bindM_InlE simp: run_retM)
  then show ?thesis by (auto simp: with_tx_def split: prod.splits sum.splits)
next
  case (Found_verify t)
  then show ?thesis using assms reads_onlyD(2) [OF reads_only_loads(2)] by (auto elim!: bindM_InlE simp: run_retM)
next
  case (Found_recover t pw)
  then show ?thesis using assms reads_onlyD(2) [OF reads_only_loads(8)] by (auto elim!: bindM_InlE simp: run_retM)
next
  case (Committed es a)
  then show ?thesis using assms by (cases es) (auto simp: run_bindM run_retM run_publish_events)
next
  case (Caught s ip ua loc e')
  then show ?thesis using assms reads_onlyD(2) [OF reads_only_loads(9)]
    by (auto elim!: bindM_InlE simp: run_retM with_tx_only_reads [OF reads_only_loads(9)])
next
  case (Reused es e')
  then show ?thesis using assms by (cases es) (auto simp: run_bindM run_retM run_raiseM run_publish_events)
qed (use assms in \<open>simp add: run_retM\<close>)

end
