(* ===== verification/Interleaving.thy ===== *)
theory Interleaving
  imports Sessions
begin

text \<open>
  Any number of calls at once, interleaved step by step (\<open>CallSteps\<close>) on one database, log and
  notification queue; what \<open>Sessions\<close> shows of one session among others holds in every state, so
  what holds of the calls one after the other holds of them all at once.
\<close>

section \<open>The concurrent service\<close>

text \<open>
  \<open>cs_calls\<close> records the call of each session, \<open>cs_saved\<close> what the transactions that committed have saved, in order.
\<close>

record csystem =
  cs_world :: app_world
  cs_calls :: "nat \<Rightarrow> call option"
  cs_sessions :: "nat \<Rightarrow> session option"
  cs_saved :: "pending list"

definition saved_by :: "session \<Rightarrow> pending list" where
  "saved_by s = (case s of Loaded p \<Rightarrow> [p] | _ \<Rightarrow> [])"

text \<open>
  A step: a call arrives and reads, or is refused; a session goes on, or raises; a session is dropped (it is done,
  the client has gone, the worker was stopped).
\<close>

inductive cstep :: "env \<Rightarrow> csystem \<Rightarrow> csystem \<Rightarrow> bool" for V where
  c_start: "cs_sessions s n = None \<Longrightarrow> start_call V c (cs_world s) = (Inr x, w') \<Longrightarrow>
    cstep V s (s\<lparr>cs_world := w', cs_calls := (cs_calls s)(n \<mapsto> c), cs_sessions := (cs_sessions s)(n \<mapsto> x)\<rparr>)"
| c_refuse: "start_call V c (cs_world s) = (Inl e, w') \<Longrightarrow> cstep V s (s\<lparr>cs_world := w'\<rparr>)"
| c_proceed: "cs_sessions s n = Some x \<Longrightarrow> proceed V x (cs_world s) = (Inr y, w') \<Longrightarrow>
    cstep V s (s\<lparr>cs_world := w', cs_sessions := (cs_sessions s)(n \<mapsto> y), cs_saved := cs_saved s @ saved_by x\<rparr>)"
| c_raise: "cs_sessions s n = Some x \<Longrightarrow> proceed V x (cs_world s) = (Inl e, w') \<Longrightarrow>
    cstep V s (s\<lparr>cs_world := w', cs_sessions := (cs_sessions s)(n := None)\<rparr>)"
| c_drop: "cstep V s (s\<lparr>cs_sessions := (cs_sessions s)(n := None)\<rparr>)"

inductive creach :: "env \<Rightarrow> app_world \<Rightarrow> csystem \<Rightarrow> bool" for V w where
  c_init: "creach V w \<lparr>cs_world = w, cs_calls = (\<lambda>n. None), cs_sessions = (\<lambda>n. None), cs_saved = []\<rparr>"
| c_step: "creach V w s \<Longrightarrow> cstep V s s' \<Longrightarrow> creach V w s'"

text \<open>Steps of one session, as they change a reachable state.\<close>

lemma creach_start:
  assumes "creach V w s" and "cs_sessions s n = None" and "start_call V c (cs_world s) = (Inr x, w')"
  obtains s' where "creach V w s'" and "cs_world s' = w'" and "cs_calls s' = (cs_calls s)(n \<mapsto> c)"
    and "cs_sessions s' = (cs_sessions s)(n \<mapsto> x)" and "cs_saved s' = cs_saved s"
  using that [OF c_step [OF assms(1) c_start [OF assms(2,3)]]] by simp

lemma creach_proceed:
  assumes "creach V w s" and "cs_sessions s n = Some x" and "proceed V x (cs_world s) = (Inr y, w')"
  obtains s' where "creach V w s'" and "cs_world s' = w'" and "cs_calls s' = cs_calls s"
    and "cs_sessions s' = (cs_sessions s)(n \<mapsto> y)" and "cs_saved s' = cs_saved s @ saved_by x"
  using that [OF c_step [OF assms(1) c_proceed [OF assms(2,3)]]] by simp

lemma creach_first:
  assumes "start_call V c w = (Inr x, w')"
  obtains s where "creach V w s" and "cs_world s = w'" and "cs_calls s = [n \<mapsto> c]"
    and "cs_sessions s = [n \<mapsto> x]" and "cs_saved s = []"
proof (rule creach_start [OF c_init, where V = V and w = w and n = n and c = c and x = x and w' = w'])
qed (use assms that in \<open>simp_all del: start_call.simps\<close>)

section \<open>What holds in every state of the concurrent service\<close>

definition cinv :: "env \<Rightarrow> app_world \<Rightarrow> csystem \<Rightarrow> bool" where
  "cinv V w0 s \<longleftrightarrow> db_inv (db (cs_world s))
    \<and> spec_step\<^sup>*\<^sup>* (abs_store (db w0)) (abs_store (db (cs_world s)))
    \<and> (\<forall>n x. cs_sessions s n = Some x \<longrightarrow> session_ok V (cs_calls s n) (abs_store (db (cs_world s))) x)
    \<and> distinct (cs_spent (cs_saved s)) \<and> distinct (cs_ended (cs_saved s))
    \<and> (\<forall>i \<in> set (cs_spent (cs_saved s)). ott_used_in (db (cs_world s)) i True)
    \<and> (\<forall>i \<in> set (cs_ended (cs_saved s)). rt_revoked_in (db (cs_world s)) i True)"

lemma cinv_same_db:
  assumes "cinv V w0 s" and "db (cs_world s') = db (cs_world s)" and "cs_saved s' = cs_saved s"
    and "\<And>n x. cs_sessions s' n = Some x \<Longrightarrow> session_ok V (cs_calls s' n) (abs_store (db (cs_world s))) x"
  shows "cinv V w0 s'"
  using assms unfolding cinv_def by simp

lemma cs_append:
  "cs_spent (ps @ [p]) = cs_spent ps @ cs_spent [p]" "cs_ended (ps @ [p]) = cs_ended ps @ cs_ended [p]"
  by (simp_all add: cs_spent_def cs_ended_def)

lemma used_stays:
  assumes "spec_step (abs_store d) (abs_store d')"
  shows "ott_used_in d i True \<Longrightarrow> ott_used_in d' i True" and "rt_revoked_in d j True \<Longrightarrow> rt_revoked_in d' j True"
  using spec_step_le [OF assms]
  by (fastforce simp: ott_used_in_def rt_revoked_in_def store_le_def map_le_by_def ott_le_def rt_le_def)+

lemma flag_unique:
  "ott_used_in d i True \<Longrightarrow> \<not> ott_used_in d i False" "rt_revoked_in d j True \<Longrightarrow> \<not> rt_revoked_in d j False"
  by (auto simp: ott_used_in_def rt_revoked_in_def)

lemma cinv_commit:
  assumes i: "cinv V w0 s" and d: "db_inv (db w')" and st: "spec_step (abs_store (db (cs_world s))) (abs_store (db w'))"
    and c: "commit_spends (db (cs_world s)) (db w') p"
    and y: "\<And>n x. ss n = Some x \<Longrightarrow> session_ok V (cs_calls s n) (abs_store (db w')) x"
  shows "cinv V w0 (s\<lparr>cs_world := w', cs_sessions := ss, cs_saved := cs_saved s @ [p]\<rparr>)"
proof -
  have s: "i \<notin> set (cs_spent [p])" if "i \<in> set (cs_spent (cs_saved s))" for i
    using that i c flag_unique(1) unfolding cinv_def commit_spends_def by blast
  have e: "i \<notin> set (cs_ended [p])" if "i \<in> set (cs_ended (cs_saved s))" for i
    using that i c flag_unique(2) unfolding cinv_def commit_spends_def by blast
  have "spec_step\<^sup>*\<^sup>* (abs_store (db w0)) (abs_store (db w'))"
    using i st unfolding cinv_def by (meson rtranclp.rtrancl_into_rtrancl)
  then show ?thesis
    using i d c y s e used_stays [OF st] unfolding cinv_def commit_spends_def by (auto simp: cs_append)
qed

lemma cstep_inv:
  assumes "cstep V s s'" and i: "cinv V w0 s"
  shows "cinv V w0 s'"
  using assms(1)
proof (cases rule: cstep.cases)
  case (c_start n c x w')
  have d: "db_inv (db (cs_world s))" using i by (simp add: cinv_def)
  have w': "db w' = db (cs_world s)" using reads_onlyD(2) [OF reads_only_start c_start(3)] .
  have ok: "session_ok V (Some c) (abs_store (db (cs_world s))) x" by (rule start_call_ok [OF d c_start(3)])
  show ?thesis unfolding c_start(1)
    by (rule cinv_same_db [OF i]) (use w' ok i in \<open>auto simp: cinv_def split: if_splits\<close>)
next
  case (c_refuse c e w')
  have w': "db w' = db (cs_world s)" using reads_onlyD(2) [OF reads_only_start c_refuse(2)] .
  show ?thesis unfolding c_refuse(1) by (rule cinv_same_db [OF i]) (use w' i in \<open>auto simp: cinv_def\<close>)
next
  case (c_proceed n x y w')
  have d: "db_inv (db (cs_world s))" and ok: "session_ok V (cs_calls s n) (abs_store (db (cs_world s))) x"
    using i c_proceed(2) by (simp_all add: cinv_def)
  note p = proceed_ok [OF d ok c_proceed(3)]
  show ?thesis
  proof (cases "\<exists>p. x = Loaded p")
    case True
    then obtain p where x: "x = Loaded p" ..
    have q: "db_inv (db w')" "spec_step (abs_store (db (cs_world s))) (abs_store (db w'))" "commit_spends (db (cs_world s)) (db w') p"
      using p(1) by (simp_all add: x)
    have "session_ok V (cs_calls s m) (abs_store (db w')) z" if "((cs_sessions s)(n \<mapsto> y)) m = Some z" for m z
      using that p(2) i session_ok_step [OF q(2)] by (auto simp: cinv_def split: if_splits)
    from cinv_commit [OF i q, where ss = "(cs_sessions s)(n \<mapsto> y)", OF this] show ?thesis
      unfolding c_proceed(1) x saved_by_def by simp
  next
    case False
    then have w': "db w' = db (cs_world s)" and n: "saved_by x = []" using p(1) by (auto simp: saved_by_def split: session.splits)
    show ?thesis unfolding c_proceed(1) n
      by (rule cinv_same_db [OF i]) (use w' p(2) i in \<open>auto simp: cinv_def split: if_splits\<close>)
  qed
next
  case (c_raise n x e w')
  have w': "db w' = db (cs_world s)" using proceed_raises [OF c_raise(3)] .
  show ?thesis unfolding c_raise(1) by (rule cinv_same_db [OF i]) (use w' i in \<open>auto simp: cinv_def split: if_splits\<close>)
next
  case (c_drop n)
  show ?thesis unfolding c_drop(1) by (rule cinv_same_db [OF i]) (use i in \<open>auto simp: cinv_def split: if_splits\<close>)
qed

lemma creach_inv:
  assumes "creach V w s" and "db_inv (db w)"
  shows "cinv V w s"
  using assms(1)
proof (induction rule: creach.induct)
  case c_init
  then show ?case using assms(2) by (simp add: cinv_def cs_spent_def cs_ended_def)
next
  case (c_step s s')
  then show ?case by (blast intro: cstep_inv)
qed

text \<open>The specification's invariants and what it never undoes, along any number of steps.\<close>

lemma spec_steps_inv: "spec_step\<^sup>*\<^sup>* S S' \<Longrightarrow> spec_inv S \<Longrightarrow> spec_inv S'"
  by (induction rule: rtranclp_induct) (auto intro: spec_step_inv)

lemma spec_steps_le: "spec_step\<^sup>*\<^sup>* S S' \<Longrightarrow> store_le S S'"
  by (induction rule: rtranclp_induct) (auto intro: store_le_trans spec_step_le)

section \<open>Calls one after the other are a special case\<close>

text \<open>The steps of session \<open>n\<close> do what the program \<open>m\<close> does.\<close>

definition carries_out :: "env \<Rightarrow> nat \<Rightarrow> session app \<Rightarrow> csystem \<Rightarrow> bool" where
  "carries_out V n m s \<longleftrightarrow>
    (\<exists>s'. (cstep V)\<^sup>*\<^sup>* s s' \<and> cs_world s' = snd (m (cs_world s))
      \<and> (\<forall>y. fst (m (cs_world s)) = Inr y \<longrightarrow> cs_sessions s' n = Some y))"

lemma carries_out_retM: "cs_sessions s n = Some x \<Longrightarrow> carries_out V n (retM x) s"
  unfolding carries_out_def by (intro exI [of _ s]) (simp add: run_retM)

lemma carries_out_bindM:
  assumes m: "carries_out V n m s" and f: "\<And>y t. cs_sessions t n = Some y \<Longrightarrow> carries_out V n (f y) t"
  shows "carries_out V n (bindM m f) s"
proof -
  obtain r w1 where r: "m (cs_world s) = (r, w1)" by fastforce
  from m r obtain t where t: "(cstep V)\<^sup>*\<^sup>* s t" "cs_world t = w1" "\<And>y. r = Inr y \<Longrightarrow> cs_sessions t n = Some y"
    by (auto simp: carries_out_def)
  show ?thesis
  proof (cases r)
    case (Inl e)
    then show ?thesis unfolding carries_out_def using t r by (intro exI [of _ t]) (simp add: run_bindM)
  next
    case (Inr y)
    from f [OF t(3) [OF Inr]] obtain u where "(cstep V)\<^sup>*\<^sup>* t u" "cs_world u = snd (f y w1)"
      "\<forall>z. fst (f y w1) = Inr z \<longrightarrow> cs_sessions u n = Some z"
      unfolding carries_out_def t(2) by blast
    with t(1) show ?thesis unfolding carries_out_def using r Inr
      by (intro exI [of _ u]) (simp add: run_bindM)
  qed
qed

lemma carries_out_proceed:
  assumes "cs_sessions s n = Some x"
  shows "carries_out V n (proceed V x) s"
proof (cases "proceed V x (cs_world s)")
  case (Pair r w')
  show ?thesis
  proof (cases r)
    case (Inl e)
    from r_into_rtranclp [of "cstep V", OF c_raise [OF assms Pair [unfolded Inl]]] Pair Inl show ?thesis
      unfolding carries_out_def by (intro exI conjI) auto
  next
    case (Inr y)
    from r_into_rtranclp [of "cstep V", OF c_proceed [OF assms Pair [unfolded Inr]]] Pair Inr show ?thesis
      unfolding carries_out_def by (intro exI conjI) auto
  qed
qed

lemma carries_out_start:
  assumes "cs_sessions s n = None"
  shows "carries_out V n (start_call V c) s"
proof (cases "start_call V c (cs_world s)")
  case (Pair r w')
  show ?thesis
  proof (cases r)
    case (Inl e)
    from r_into_rtranclp [of "cstep V", OF c_refuse [OF Pair [unfolded Inl]]] Pair Inl show ?thesis
      unfolding carries_out_def by (intro exI conjI) auto
  next
    case (Inr y)
    from r_into_rtranclp [of "cstep V", OF c_start [OF assms Pair [unfolded Inr]]] Pair Inr show ?thesis
      unfolding carries_out_def by (intro exI conjI) auto
  qed
qed

lemma carries_out_times: "cs_sessions s n = Some x \<Longrightarrow> carries_out V n (proceed_times V k x) s"
  by (induction k arbitrary: s x) (auto intro: carries_out_retM carries_out_bindM carries_out_proceed)

lemma carries_out_alone: "cs_sessions s n = None \<Longrightarrow> carries_out V n (run_alone V c) s"
  unfolding run_alone_def run_out_def
  by (intro carries_out_bindM carries_out_start carries_out_proceed carries_out_times)

lemma finite_sessions: "creach V w s \<Longrightarrow> finite (dom (cs_sessions s))"
proof (induction rule: creach.induct)
  case (c_step s s')
  from c_step(2,3) show ?case by (cases rule: cstep.cases) (simp_all del: fun_upd_apply)
qed simp

lemma creach_steps: "(cstep V)\<^sup>*\<^sup>* s s' \<Longrightarrow> creach V w s \<Longrightarrow> creach V w s'"
  by (induction rule: rtranclp_induct) (auto intro: c_step)

lemma creach_call:
  assumes "creach V w s" and "handle V c (cs_world s) = (r, w')"
  shows "\<exists>s'. creach V w s' \<and> cs_world s' = w'"
proof -
  obtain n where "cs_sessions s n = None"
    using finite_sessions [OF assms(1)] by (metis UNIV_I domIff infinite_UNIV_nat rev_finite_subset subsetI)
  from carries_out_alone [OF this] obtain s' where s: "(cstep V)\<^sup>*\<^sup>* s s'" "cs_world s' = snd (run_alone V c (cs_world s))"
    unfolding carries_out_def by blast
  have "snd (run_alone V c (cs_world s)) = w'"
    unfolding run_alone_call using assms(2) by (cases r) (simp_all add: run_bindM run_retM)
  with s creach_steps [OF s(1) assms(1)] show ?thesis by auto
qed

end
