(* ===== verification/Announcements.thy ===== *)
theory Announcements
  imports Interleaving "HOL-Library.Multiset"
begin

text \<open>
  What interleaved calls publish. Every event in the audit log and every notification was pulled by a
  transaction that has committed, and each is published at most once: what is still to be published waits in the
  sessions that have committed. A session that is dropped there takes its events with it.
\<close>

definition announces :: "env \<Rightarrow> event list \<Rightarrow> app_world \<Rightarrow> app_world \<Rightarrow> bool" where
  "announces V es w w' \<longleftrightarrow>
    event_log w' = fold (redisq_push (pyd V) (red V)) (filter (\<lambda>e. \<not> is_notification_event e) es) (event_log w)
    \<and> notifications w' = notifications w @ filter is_notification_event es"

definition waiting :: "session \<Rightarrow> event multiset" where
  "waiting x = (case x of Committed es a \<Rightarrow> mset es | _ \<Rightarrow> {#})"

text \<open>The report of a reuse is an event that neither queue accepts.\<close>

definition quiet :: "session \<Rightarrow> bool" where
  "quiet x = (case x of Reused es e \<Rightarrow> list_all (\<lambda>e. \<not> is_domain_event e \<and> \<not> is_notification_event e) es | _ \<Rightarrow> True)"

definition pulled :: "pending list \<Rightarrow> event multiset" where
  "pulled ps = mset (concat (map pe_events ps))"

lemma announces_nothing [simp]: "announces V [] w w"
  by (simp add: announces_def)

lemma announces_append: "announces V es w w1 \<Longrightarrow> announces V fs w1 w2 \<Longrightarrow> announces V (es @ fs) w w2"
  by (simp add: announces_def)

lemma reads_announce: "reads_only m \<Longrightarrow> m w = (r, w') \<Longrightarrow> announces V [] w w'"
  by (auto simp: announces_def dest: reads_onlyD(1))

lemma flush_announces: "flush p w = (r, w') \<Longrightarrow> announces V [] w w'"
proof -
  have rts: "announces V [] w w'" if "save_rts ts w = (r, w')" for ts w r w'
    using that by (induction ts arbitrary: w) (fastforce simp: run_simps announces_def split: sum.splits prod.splits)+
  show "flush p w = (r, w') \<Longrightarrow> announces V [] w w'"
    by (cases "pe_user p"; cases "pe_ott p")
      (fastforce simp: flush_def run_simps announces_def split: sum.splits prod.splits dest: rts)+
qed

lemma commit_announces: "with_tx (flush p) w = (r, w') \<Longrightarrow> announces V [] w w'"
  by (auto simp: with_tx_def split: prod.splits sum.splits dest: flush_announces) (auto simp: announces_def dest!: flush_announces)

text \<open>A step of a session publishes what it no longer waits to publish.\<close>

lemma proceed_announces:
  assumes q: "quiet x" and r: "proceed V x w = (Inr y, w')"
  shows "\<exists>out. announces V out w w' \<and> mset out + waiting y \<subseteq># waiting x + pulled (saved_by x) \<and> quiet y"
proof (cases x)
  case (Found_verify t)
  with r obtain p where "verify_email_load V t w = (Inr p, w')" "y = Loaded p" by (auto elim!: bindM_InrE simp: run_retM)
  with reads_announce [OF reads_only_loads(2)] show ?thesis
    by (intro exI [of _ "[]"]) (simp add: waiting_def quiet_def)
next
  case (Found_recover t pw)
  with r obtain p where "recover_load V t pw w = (Inr p, w')" "y = Loaded p" by (auto elim!: bindM_InrE simp: run_retM)
  with reads_announce [OF reads_only_loads(8)] show ?thesis
    by (intro exI [of _ "[]"]) (simp add: waiting_def quiet_def)
next
  case (Loaded p)
  with r have "with_tx (flush p) w = (Inr (), w')" "y = Committed (pe_events p) (pe_answer p)"
    by (auto elim!: bindM_InrE simp: run_retM)
  with commit_announces Loaded show ?thesis
    by (intro exI [of _ "[]"]) (simp add: waiting_def quiet_def pulled_def saved_by_def)
next
  case (Committed es a)
  show ?thesis
  proof (cases es)
    case Nil
    with Committed r show ?thesis
      by (intro exI [of _ "[]"]) (auto simp: waiting_def quiet_def run_retM)
  next
    case (Cons e fs)
    with Committed r have "announces V [e] w w'" "y = Committed fs a"
      by (auto simp: run_bindM run_retM run_publish_events announces_def)
    with Committed Cons show ?thesis
      by (intro exI [of _ "[e]"]) (simp add: waiting_def quiet_def)
  qed
next
  case (Caught s ip ua loc e)
  then obtain es where t: "reuse_tx V s ip ua loc w = (Inr es, w')" "y = Reused es e"
    using r by (auto elim!: bindM_InrE simp: run_retM with_tx_only_reads [OF reads_only_loads(9)])
  then have "list_all (\<lambda>e. \<not> is_domain_event e \<and> \<not> is_notification_event e) es"
    by (auto simp: reuse_tx_def run_simps split: sum.splits option.splits)
  with t reads_announce [OF reads_only_loads(9)] show ?thesis
    by (intro exI [of _ "[]"]) (simp add: waiting_def quiet_def)
next
  case (Reused es e)
  show ?thesis
  proof (cases es)
    case (Cons f fs)
    with Reused r q have "announces V [] w w'" "y = Reused fs e" "quiet y"
      by (auto simp: run_bindM run_retM run_publish_events announces_def quiet_def redisq_push_def)
    then show ?thesis by (intro exI [of _ "[]"]) (simp add: waiting_def)
  qed (use Reused r in \<open>simp add: run_raiseM\<close>)
next
  case (Done a)
  with r show ?thesis by (intro exI [of _ "[]"]) (auto simp: waiting_def quiet_def run_retM)
qed

lemma raised_announces:
  assumes "quiet x" and "proceed V x w = (Inl e, w')"
  shows "announces V [] w w'"
proof (cases x)
  case (Committed es a)
  then show ?thesis using assms(2) by (cases es) (auto simp: run_bindM run_retM run_publish_events)
next
  case (Caught s ip ua loc e')
  then show ?thesis using assms(2) reads_announce [OF reads_only_loads(9)]
    by (auto elim!: bindM_InlE simp: run_retM with_tx_only_reads [OF reads_only_loads(9)])
next
  case (Reused es e')
  then show ?thesis using assms by (cases es) (auto simp: run_bindM run_retM run_raiseM run_publish_events)
next
  case (Loaded p)
  then show ?thesis using assms(2) commit_announces by (auto elim!: bindM_InlE simp: run_retM)
next
  case (Found_verify t)
  then show ?thesis using assms(2) reads_announce [OF reads_only_loads(2)] by (auto elim!: bindM_InlE simp: run_retM)
next
  case (Found_recover t pw)
  then show ?thesis using assms(2) reads_announce [OF reads_only_loads(8)] by (auto elim!: bindM_InlE simp: run_retM)
qed (use assms(2) in \<open>simp add: run_retM\<close>)

lemma started:
  assumes "start_call V c w = (Inr x, w')"
  shows "waiting x = {#} \<and> quiet x"
  using assms by (cases c) (auto elim!: bindM_InrE simp: run_retM run_tryM run_raiseM waiting_def quiet_def
      split: sum.splits prod.splits option.splits if_splits)

section \<open>All sessions together\<close>

definition awaited :: "(nat \<Rightarrow> session option) \<Rightarrow> nat \<Rightarrow> event multiset" where
  "awaited f n = (case f n of None \<Rightarrow> {#} | Some x \<Rightarrow> waiting x)"

definition all_awaited :: "(nat \<Rightarrow> session option) \<Rightarrow> event multiset" where
  "all_awaited f = (\<Sum>n \<in> dom f. awaited f n)"

lemma all_awaited_upd:
  assumes "finite (dom f)"
  shows "all_awaited (f(n := r)) + awaited f n = all_awaited f + (case r of None \<Rightarrow> {#} | Some x \<Rightarrow> waiting x)"
proof -
  have on: "all_awaited g = (\<Sum>m \<in> insert n (dom f). awaited g m)" if "dom g \<subseteq> insert n (dom f)" for g
    unfolding all_awaited_def using that assms by (intro sum.mono_neutral_left) (auto simp: awaited_def dom_def)
  have rest: "(\<Sum>m \<in> dom f - {n}. awaited (f(n := r)) m) = (\<Sum>m \<in> dom f - {n}. awaited f m)"
    by (rule sum.cong) (auto simp: awaited_def)
  have "all_awaited (f(n := r)) = awaited (f(n := r)) n + (\<Sum>m \<in> dom f - {n}. awaited f m)"
    using assms rest by (subst on) (auto simp: sum.insert_remove split: if_splits)
  moreover have "all_awaited f = awaited f n + (\<Sum>m \<in> dom f - {n}. awaited f m)"
    using assms by (subst on) (auto simp: sum.insert_remove)
  ultimately show ?thesis by (simp add: awaited_def [of "f(n := r)"] ac_simps)
qed

definition pub_inv :: "env \<Rightarrow> app_world \<Rightarrow> csystem \<Rightarrow> bool" where
  "pub_inv V w0 s \<longleftrightarrow> finite (dom (cs_sessions s)) \<and> (\<forall>n x. cs_sessions s n = Some x \<longrightarrow> quiet x)
    \<and> (\<exists>out. announces V out w0 (cs_world s) \<and> mset out + all_awaited (cs_sessions s) \<subseteq># pulled (cs_saved s))"

lemma pub_inv_step:
  assumes i: "pub_inv V w0 s" and a: "announces V out (cs_world s) w'"
    and r: "\<forall>x. r = Some x \<longrightarrow> quiet x"
    and m: "mset out + (case r of None \<Rightarrow> {#} | Some x \<Rightarrow> waiting x) \<subseteq># awaited (cs_sessions s) n + pulled ps"
  shows "pub_inv V w0 (s\<lparr>cs_world := w', cs_sessions := (cs_sessions s)(n := r), cs_saved := cs_saved s @ ps\<rparr>)"
proof -
  let ?f = "cs_sessions s"
  let ?r = "case r of None \<Rightarrow> {#} | Some x \<Rightarrow> waiting x"
  from i obtain o0 where fin: "finite (dom ?f)" and o0: "announces V o0 w0 (cs_world s)"
    and le: "mset o0 + all_awaited ?f \<subseteq># pulled (cs_saved s)" unfolding pub_inv_def by blast
  have "mset (o0 @ out) + all_awaited (?f(n := r)) + awaited ?f n = mset o0 + all_awaited ?f + (mset out + ?r)"
    using all_awaited_upd [OF fin, of n r] by (simp add: ac_simps)
  also have "\<dots> \<subseteq># pulled (cs_saved s) + (awaited ?f n + pulled ps)" by (rule subset_mset.add_mono [OF le m])
  finally have "mset (o0 @ out) + all_awaited (?f(n := r)) \<subseteq># pulled (cs_saved s @ ps)"
    by (simp add: pulled_def ac_simps)
  moreover have "finite (dom (?f(n := r)))" using fin by (cases r) simp_all
  moreover have "\<forall>k x. (?f(n := r)) k = Some x \<longrightarrow> quiet x" using i r by (simp add: pub_inv_def)
  ultimately show ?thesis using announces_append [OF o0 a] unfolding pub_inv_def by auto
qed

lemma cstep_pub_inv:
  assumes "cstep V s s'" and i: "pub_inv V w0 s"
  shows "pub_inv V w0 s'"
  using assms(1)
proof (cases rule: cstep.cases)
  case (c_start n c x w')
  note pub_inv_step [OF i reads_announce [OF reads_only_start c_start(3)], where r = "Some x" and n = n and ps = "[]"]
  then show ?thesis using started [OF c_start(3)] c_start(1,2) by (simp add: awaited_def pub_inv_def)
next
  case (c_refuse c e w')
  obtain n where n: "cs_sessions s n = None"
    using i by (metis UNIV_I domIff infinite_UNIV_nat pub_inv_def rev_finite_subset subsetI)
  note pub_inv_step [OF i reads_announce [OF reads_only_start c_refuse(2)], where r = None and n = n and ps = "[]"]
  moreover have "(cs_sessions s)(n := None) = cs_sessions s" using n by auto
  ultimately show ?thesis using c_refuse(1) by simp
next
  case (c_proceed n x y w')
  have "quiet x" using i c_proceed(2) by (simp add: pub_inv_def)
  from proceed_announces [OF this c_proceed(3)] obtain out where "announces V out (cs_world s) w'"
    "mset out + waiting y \<subseteq># waiting x + pulled (saved_by x)" "quiet y" by blast
  with pub_inv_step [OF i, of out w' "Some y" n "saved_by x"] show ?thesis
    using c_proceed(1,2) by (simp add: awaited_def)
next
  case (c_raise n x e w')
  have "quiet x" using i c_raise(2) by (simp add: pub_inv_def)
  from pub_inv_step [OF i raised_announces [OF this c_raise(3)], where r = None and n = n and ps = "[]"]
  show ?thesis using c_raise(1) by simp
next
  case (c_drop n)
  from pub_inv_step [OF i announces_nothing, where r = None and n = n and ps = "[]"]
  show ?thesis using c_drop(1) by simp
qed

lemma creach_pub_inv: "creach V w s \<Longrightarrow> pub_inv V w s"
proof (induction rule: creach.induct)
  case c_init
  show ?case by (auto simp: pub_inv_def all_awaited_def intro!: exI [of _ "[]"])
next
  case (c_step s s')
  then show ?case by (blast intro: cstep_pub_inv)
qed

end
