(* ===== verification/Conflicts.thy ===== *)
theory Conflicts
  imports Interleaving
begin

text \<open>
  Conflicts have a cause. A commit that is refused with \<open>ConcurrencyError\<close> was about to save an entity that another
  call has saved since this one has read it; so of calls that meet, one always gets through.
\<close>

section \<open>Why a save reports a conflict\<close>

lemma isinstance_LibError [simp]: "\<not> isinstance (LibError l) c"
  by simp

lemma user_save_conflict:
  assumes d: "db_inv d" and s: "user_save u d = Inl e" and e: "isinstance e ConcurrencyError"
  shows "\<exists>v. u_version u = Some v \<and> (\<forall>b. user_lookup d (u_id u) = Some b \<longrightarrow> u_version b \<noteq> Some v)"
proof -
  from s e obtain v where v: "u_version u = Some v"
    and n: "rowcount (\<lambda>r. ur_id r = u_id u \<and> ur_version r = v) (users d) \<noteq> 1"
    by (auto simp: user_save_def insert_user_def update_user_def Let_def split: option.splits sum.splits if_splits)
  then show ?thesis
    by (auto simp: rowcount_key [OF db_inv_keys(1) [OF d]] user_lookup_def user_orm2domain_def split: option.splits if_splits)
qed

lemma ott_save_conflict:
  assumes d: "db_inv d" and s: "ott_save t d = Inl e" and e: "isinstance e ConcurrencyError"
  shows "\<exists>v. o_version t = Some v \<and> (\<forall>b. ott_lookup d (o_id t) = Some b \<longrightarrow> o_version b \<noteq> Some v)"
proof -
  from s e obtain v where v: "o_version t = Some v"
    and n: "rowcount (\<lambda>r. otr_id r = o_id t \<and> otr_version r = v) (one_time_tokens d) \<noteq> 1"
    by (auto simp: ott_save_def insert_ott_def update_ott_def Let_def split: option.splits sum.splits if_splits)
  then show ?thesis
    by (auto simp: rowcount_key [OF db_inv_keys(3) [OF d]] ott_lookup_def ott_orm2domain_def split: option.splits sum.splits if_splits)
qed

lemma rt_save_conflict:
  assumes d: "db_inv d" and s: "rt_save t d = Inl e" and e: "isinstance e ConcurrencyError"
  shows "\<exists>v. r_version t = Some v \<and> (\<forall>b. rt_lookup d (r_id t) = Some b \<longrightarrow> r_version b \<noteq> Some v)"
proof -
  from s e obtain v where v: "r_version t = Some v"
    and n: "rowcount (\<lambda>r. rtr_id r = r_id t \<and> rtr_version r = v) (refresh_tokens d) \<noteq> 1"
    by (auto simp: rt_save_def insert_rt_def update_rt_def Let_def split: option.splits sum.splits if_splits)
  then show ?thesis
    by (auto simp: rowcount_key [OF db_inv_keys(4) [OF d]] rt_lookup_def rt_orm2domain_def split: option.splits if_splits)
qed

section \<open>Which save of a transaction failed\<close>

lemma save_rts_fails:
  assumes "save_rts ts w = (Inl e, w')" and "db_inv (db w)"
  shows "\<exists>us t vs d. ts = us @ t # vs \<and> rt_save t d = Inl e \<and> db_inv d
    \<and> (\<forall>k. k \<notin> r_id ` set us \<longrightarrow> rt_lookup d k = rt_lookup (db w) k)"
  using assms
proof (induction ts arbitrary: w)
  case (Cons t ts)
  show ?case
  proof (cases "rt_save t (db w)")
    case (Inl x)
    with Cons.prems have "rt_save t (db w) = Inl e" by (simp add: run_simps)
    with Cons.prems(2) show ?thesis by (intro exI [of _ "[]"]) auto
  next
    case (Inr a)
    then obtain t' d1 where s: "rt_save t (db w) = Inr (t', d1)" by (cases a) auto
    note l = rt_save_lookup [OF Cons.prems(2) s]
    have "save_rts ts (w\<lparr>db := d1\<rparr>) = (Inl e, w')" using Cons.prems(1) s by (simp add: run_simps)
    from Cons.IH [OF this] l(4) obtain us q vs d where r: "ts = us @ q # vs" "rt_save q d = Inl e" "db_inv d"
      "\<forall>k. k \<notin> r_id ` set us \<longrightarrow> rt_lookup d k = rt_lookup d1 k" by auto
    show ?thesis
      by (intro exI [of _ "t # us"] exI [of _ q] exI [of _ vs] exI [of _ d]) (use r l(1) in auto)
  qed
qed (simp add: run_simps)

lemma flush_fails:
  assumes d: "db_inv (db w)" and f: "flush p w = (Inl e, w')"
  shows "(\<exists>u. pe_user p = Some u \<and> user_save u (db w) = Inl e)
    \<or> (\<exists>t d. pe_ott p = Some t \<and> ott_save t d = Inl e \<and> db_inv d \<and> ott_lookup d = ott_lookup (db w))
    \<or> (\<exists>us t vs d. pe_rts p = us @ t # vs \<and> rt_save t d = Inl e \<and> db_inv d
        \<and> (\<forall>k. k \<notin> r_id ` set us \<longrightarrow> rt_lookup d k = rt_lookup (db w) k))"
proof -
  have u: "(\<exists>u. pe_user p = Some u \<and> user_save u (db w) = Inl e)
      \<or> (\<exists>w1. save_opt user_save (pe_user p) w = (Inr (), w1) \<and> db_inv (db w1) \<and> ott_lookup (db w1) = ott_lookup (db w)
          \<and> rt_lookup (db w1) = rt_lookup (db w)
          \<and> bindM (save_opt ott_save (pe_ott p)) (\<lambda>_. save_rts (pe_rts p)) w1 = (Inl e, w'))"
    using d f by (cases "pe_user p")
      (auto simp: flush_def run_simps user_save_lookup [OF d] split: sum.splits prod.splits)
  have t: "(\<exists>t. pe_ott p = Some t \<and> ott_save t (db w1) = Inl e)
      \<or> (\<exists>w2. db_inv (db w2) \<and> rt_lookup (db w2) = rt_lookup (db w1) \<and> save_rts (pe_rts p) w2 = (Inl e, w'))"
    if "db_inv (db w1)" "bindM (save_opt ott_save (pe_ott p)) (\<lambda>_. save_rts (pe_rts p)) w1 = (Inl e, w')" for w1
  proof (cases "pe_ott p")
    case None
    with that show ?thesis by (auto simp: run_simps)
  next
    case (Some t)
    show ?thesis
    proof (cases "ott_save t (db w1)")
      case (Inl x)
      with that Some show ?thesis by (simp add: run_simps)
    next
      case (Inr a)
      then obtain t' d2 where s: "ott_save t (db w1) = Inr (t', d2)" by (cases a) auto
      with that Some have "save_rts (pe_rts p) (w1\<lparr>db := d2\<rparr>) = (Inl e, w')" by (simp add: run_simps)
      with save_frame_lookup(2) [OF s] ott_repo.save_inv [OF that(1) s] show ?thesis
        by (intro disjI2 exI [of _ "w1\<lparr>db := d2\<rparr>"]) simp
    qed
  qed
  show ?thesis using u t save_rts_fails by metis
qed

section \<open>The cause\<close>

text \<open>What is saved over a stored version has that version, and the id, of what was read; and only the first refresh token is.\<close>

lemma intends_base:
  assumes "intends bu bo br p"
  shows "pe_user p = Some u \<Longrightarrow> u_version u \<noteq> None \<Longrightarrow> \<exists>b. bu = Some b \<and> u_id b = u_id u \<and> u_version b = u_version u"
    and "pe_ott p = Some t \<Longrightarrow> o_version t \<noteq> None \<Longrightarrow> \<exists>b. bo = Some b \<and> o_id b = o_id t \<and> o_version b = o_version t"
    and "pe_rts p = us @ r # vs \<Longrightarrow> r_version r \<noteq> None \<Longrightarrow>
      us = [] \<and> (\<exists>b. br = Some b \<and> r_id b = r_id r \<and> r_version b = r_version r)"
  using assms by (cases rule: intends.cases; force simp: Cons_eq_append_conv)+

text \<open>Some entity about to be saved is stored with a newer version than it was read with.\<close>

definition overtaken :: "database \<Rightarrow> pending \<Rightarrow> bool" where
  "overtaken d p \<longleftrightarrow>
    (\<exists>u b. pe_user p = Some u \<and> user_lookup d (u_id u) = Some b \<and> ver_less (u_version u) (u_version b))
    \<or> (\<exists>t b. pe_ott p = Some t \<and> ott_lookup d (o_id t) = Some b \<and> ver_less (o_version t) (o_version b))
    \<or> (\<exists>t \<in> set (pe_rts p). \<exists>b. rt_lookup d (r_id t) = Some b \<and> ver_less (r_version t) (r_version b))"

lemma moved_newer: "moved ver e r \<Longrightarrow> (\<And>b. r = Some b \<Longrightarrow> ver b \<noteq> ver e) \<Longrightarrow> \<exists>b. r = Some b \<and> ver_less (ver e) (ver b)"
  by (auto simp: moved_def)

lemma flush_conflict:
  assumes d: "db_inv (db w)" and ok: "session_ok V c (abs_store (db w)) (Loaded p)"
    and f: "flush p w = (Inl e, w')" and e: "isinstance e ConcurrencyError"
  shows "overtaken (db w) p"
proof -
  from ok obtain bu bo br where i: "intends bu bo br p" and bu: "\<forall>u. bu = Some u \<longrightarrow> seen_user (abs_store (db w)) u"
    and bo: "\<forall>t. bo = Some t \<longrightarrow> seen_ott (abs_store (db w)) t" and br: "\<forall>t. br = Some t \<longrightarrow> seen_rt (abs_store (db w)) t"
    by (rule loadedE)
  consider (user) u where "pe_user p = Some u" "user_save u (db w) = Inl e"
    | (ott) t d1 where "pe_ott p = Some t" "ott_save t d1 = Inl e" "db_inv d1" "ott_lookup d1 = ott_lookup (db w)"
    | (rt) us t vs d1 where "pe_rts p = us @ t # vs" "rt_save t d1 = Inl e" "db_inv d1"
        "\<forall>k. k \<notin> r_id ` set us \<longrightarrow> rt_lookup d1 k = rt_lookup (db w) k"
    using flush_fails [OF d f] by blast
  then show ?thesis
  proof cases
    case user
    from user_save_conflict [OF d user(2) e] obtain v where v: "u_version u = Some v"
      "\<forall>b. user_lookup (db w) (u_id u) = Some b \<longrightarrow> u_version b \<noteq> Some v" by blast
    with intends_base(1) [OF i user(1)] obtain b where b: "bu = Some b" "u_id b = u_id u" "u_version b = u_version u" by auto
    with bu have "moved u_version b (user_lookup (db w) (u_id u))" by (simp add: seen_user_def)
    from moved_newer [OF this] v b(3) user(1) show ?thesis unfolding overtaken_def by auto
  next
    case ott
    from ott_save_conflict [OF ott(3,2) e] obtain v where v: "o_version t = Some v"
      "\<forall>b. ott_lookup (db w) (o_id t) = Some b \<longrightarrow> o_version b \<noteq> Some v" unfolding ott(4) by blast
    with intends_base(2) [OF i ott(1)] obtain b where b: "bo = Some b" "o_id b = o_id t" "o_version b = o_version t" by auto
    with bo have "moved o_version b (ott_lookup (db w) (o_id t))" by (simp add: seen_ott_def)
    from moved_newer [OF this] v b(3) ott(1) show ?thesis unfolding overtaken_def by auto
  next
    case rt
    from rt_save_conflict [OF rt(3,2) e] obtain v where v: "r_version t = Some v"
      "\<forall>b. rt_lookup d1 (r_id t) = Some b \<longrightarrow> r_version b \<noteq> Some v" by blast
    with intends_base(3) [OF i rt(1)] obtain b where b: "us = []" "br = Some b" "r_id b = r_id t" "r_version b = r_version t" by auto
    with br have "moved r_version b (rt_lookup (db w) (r_id t))" by (simp add: seen_rt_def)
    moreover have "rt_lookup d1 (r_id t) = rt_lookup (db w) (r_id t)" using rt(4) b(1) by simp
    ultimately show ?thesis using moved_newer [of r_version b] v b(4) rt(1) unfolding overtaken_def by auto
  qed
qed

lemma proceed_conflict:
  assumes "db_inv (db w)" and "session_ok V c (abs_store (db w)) (Loaded p)"
    and "proceed V (Loaded p) w = (Inl e, w')" and "isinstance e ConcurrencyError"
  shows "overtaken (db w) p"
proof -
  from assms(3) have "with_tx (flush p) w = (Inl e, w')" by (auto elim!: bindM_InlE simp: run_retM)
  then obtain w1 where "flush p w = (Inl e, w1)" by (auto simp: with_tx_def split: prod.splits sum.splits)
  with assms(1,2,4) show ?thesis by (blast intro: flush_conflict)
qed

end
