(* ===== verification/Serializability.thy ===== *)
theory Serializability
  imports Interleaving
begin

text \<open>
  Commits are atomic. A call that commits among others has done to the database, and will answer and publish, what the whole
  call does when it runs alone at the moment of its commit, with the readings of the clock and of the random sources
  that it has had.
\<close>

text \<open>The saves read and write the database only.\<close>

definition only_db :: "'a app \<Rightarrow> bool" where
  "only_db m \<longleftrightarrow> (\<exists>f g. \<forall>w. m w = (f (db w), w\<lparr>db := g (db w)\<rparr>))"

named_theorems only_db_intros "rules that show that a program works on the database alone"

lemma only_dbI: "(\<And>w. m w = (f (db w), w\<lparr>db := g (db w)\<rparr>)) \<Longrightarrow> only_db m"
  unfolding only_db_def by blast

lemma only_db_retM [only_db_intros]: "only_db (retM a)"
  by (rule only_dbI [of _ _ id]) (simp add: retM_def)

lemma only_db_writeM [only_db_intros]: "only_db (writeM h)"
  by (rule only_dbI [of _ "\<lambda>d. map_sum id fst (h d)" "\<lambda>d. case h d of Inl e \<Rightarrow> d | Inr (a, d') \<Rightarrow> d'"])
    (simp add: run_writeM split: sum.split prod.split)

lemma only_db_bindM [only_db_intros]:
  assumes m: "only_db m" and f: "\<And>a. only_db (f a)"
  shows "only_db (bindM m f)"
proof -
  from m obtain r g where m: "\<And>w. m w = (r (db w), w\<lparr>db := g (db w)\<rparr>)" unfolding only_db_def by blast
  from f obtain q h where f: "\<And>a w. f a w = (q a (db w), w\<lparr>db := h a (db w)\<rparr>)" unfolding only_db_def by metis
  show ?thesis
    by (rule only_dbI [of _ "\<lambda>d. case r d of Inl e \<Rightarrow> Inl e | Inr a \<Rightarrow> q a (g d)"
          "\<lambda>d. case r d of Inl e \<Rightarrow> g d | Inr a \<Rightarrow> h a (g d)"])
      (simp add: run_bindM m f split: sum.split)
qed

lemma only_db_saves [only_db_intros]: "only_db (save_opt h e)" "only_db (save_rts ts)" "only_db (flush p)"
proof -
  show *: "only_db (save_opt h e)" for h :: "'e \<Rightarrow> database \<Rightarrow> exn + ('e \<times> database)" and e
    by (cases e) (simp_all, (intro only_db_intros)+)
  show **: "only_db (save_rts ts)" for ts
    by (induction ts) (simp_all, (intro only_db_intros, assumption?)+)
  show "only_db (flush p)" unfolding flush_def by (intro only_db_bindM * **)
qed

lemma flush_again:
  assumes "flush p v = (r, v')" and "db w = db v"
  shows "\<exists>w'. flush p w = (r, w') \<and> db w' = db v'"
  using only_db_saves(3) [of p] assms unfolding only_db_def by auto

lemma commit_is_call:
  assumes d: "db_inv (db w)" and us: "users_inv (user_lookup (db w))" and t: "tokens_distinct (db w)"
    and ok: "session_ok V (Some c) (abs_store (db w)) (Loaded p)"
    and r: "proceed V (Loaded p) w = (Inr y, w')" and u: "db u = db w"
  shows "y = Committed (pe_events p) (pe_answer p)
    \<and> (\<exists>k w1. handle V c (u\<lparr>tick := k\<rparr>) = (Inr (pe_answer p), w1) \<and> db w1 = db w')"
proof -
  from r have f: "flush p w = (Inr (), w')" and y: "y = Committed (pe_events p) (pe_answer p)"
    by (auto elim!: bindM_InrE simp: run_retM with_tx_Inr)
  from ok obtain bu bo br k where i: "intends bu bo br p" and re: "replays V c k bu bo br p"
    and s: "\<forall>u. bu = Some u \<longrightarrow> seen_user (abs_store (db w)) u" "\<forall>t. bo = Some t \<longrightarrow> seen_ott (abs_store (db w)) t"
      "\<forall>t. br = Some t \<longrightarrow> seen_rt (abs_store (db w)) t"
    by (auto elim: loadedE)
  let ?v = "u\<lparr>tick := k\<rparr>"
  have "fst (call_load V c ?v) = Inr p"
    using re d us t u flush_bases [OF d i f s] unfolding replays_def by simp
  then obtain v1 where l: "call_load V c ?v = (Inr p, v1)" by (metis prod.collapse)
  have "db v1 = db w" using reads_onlyD(2) [OF reads_only_call_load l] u by simp
  from flush_again [OF f this] obtain v2 where v2: "flush p v1 = (Inr (), v2)" "db v2 = db w'" by blast
  have "with_tx (flush p) v1 = (Inr (), v2)" using v2(1) by (simp add: with_tx_Inr)
  from handle_loaded [OF l this] have "handle V c ?v = (Inr (pe_answer p), snd (publish_events V (pe_events p) v2))" .
  moreover have "db (snd (publish_events V (pe_events p) v2)) = db w'" using v2(2) by (simp add: run_publish_events)
  ultimately show ?thesis using y by blast
qed

section \<open>Serial executions\<close>

text \<open>
  The history of an interleaving: the calls in the order of their commits, each with what it saved and answered. At
  every commit no two stored tokens share a hash.
\<close>

inductive cstrace :: "env \<Rightarrow> app_world \<Rightarrow> (call \<times> pending) list \<Rightarrow> csystem \<Rightarrow> bool" for V w where
  tr_init: "cstrace V w [] \<lparr>cs_world = w, cs_calls = (\<lambda>n. None), cs_sessions = (\<lambda>n. None), cs_saved = []\<rparr>"
| tr_other: "cstrace V w h s \<Longrightarrow> cstep V s s' \<Longrightarrow> cs_saved s' = cs_saved s \<Longrightarrow> cstrace V w h s'"
| tr_commit: "cstrace V w h s \<Longrightarrow> cs_sessions s n = Some (Loaded p) \<Longrightarrow> cs_calls s n = Some c \<Longrightarrow>
    proceed V (Loaded p) (cs_world s) = (Inr y, w') \<Longrightarrow> tokens_distinct (db (cs_world s)) \<Longrightarrow>
    cstrace V w (h @ [(c, p)])
      (s\<lparr>cs_world := w', cs_sessions := (cs_sessions s)(n \<mapsto> y), cs_saved := cs_saved s @ saved_by (Loaded p)\<rparr>)"

text \<open>Tables of one row each have no tokens that share a hash.\<close>

lemma one_row: "length t \<le> 1 \<Longrightarrow> table_map k t i = Some a \<Longrightarrow> table_map k t j = Some b \<Longrightarrow> i = j"
  by (cases t) (auto simp: table_map_def split: if_splits)

lemma tokens_distinct_short:
  "length (one_time_tokens d) \<le> 1 \<Longrightarrow> length (refresh_tokens d) \<le> 1 \<Longrightarrow> tokens_distinct d"
  unfolding tokens_distinct_def ott_lookup_def rt_lookup_def
  by (intro conjI allI impI) (auto split: option.splits intro: one_row [unfolded One_nat_def])

text \<open>The calls of a history one after the other, each with the readings that start at a count of its own, and each answered as in the history.\<close>

fun serial :: "env \<Rightarrow> (call \<times> pending) list \<Rightarrow> nat list \<Rightarrow> app_world \<Rightarrow> app_world option" where
  "serial V [] [] w = Some w"
| "serial V ((c, p) # h) (k # ks) w =
    (case handle V c (w\<lparr>tick := k\<rparr>) of
       (Inr a, w') \<Rightarrow> if a = pe_answer p then serial V h ks w' else None
     | (Inl e, w') \<Rightarrow> None)"
| "serial V _ _ w = None"

lemma serial_append:
  "serial V h ks w = Some v \<Longrightarrow> serial V (h @ h') (ks @ ks') w = serial V h' ks' v"
  by (induction V h ks w rule: serial.induct) (auto split: prod.splits sum.splits if_splits)

lemma cstep_saves_nothing:
  assumes "cstep V s s'" and i: "cinv V w0 s" and n: "cs_saved s' = cs_saved s"
  shows "db (cs_world s') = db (cs_world s)"
  using assms(1)
proof (cases rule: cstep.cases)
  case (c_proceed m x y w')
  have "db_inv (db (cs_world s))" and "session_ok V (cs_calls s m) (abs_store (db (cs_world s))) x"
    using i c_proceed(2) by (simp_all add: cinv_def)
  from proceed_ok(1) [OF this c_proceed(3)] n show ?thesis
    unfolding c_proceed(1) by (auto simp: saved_by_def split: session.splits simp del: proceed.simps)
qed (auto simp del: proceed.simps start_call.simps dest: reads_onlyD(2) [OF reads_only_start] proceed_raises)

lemma cstrace_creach: "cstrace V w h s \<Longrightarrow> creach V w s \<and> map snd h = cs_saved s"
proof (induction rule: cstrace.induct)
  case (tr_commit h s n p c y w')
  then show ?case using c_step [OF _ c_proceed [OF tr_commit(2,4)]] by (simp add: saved_by_def del: proceed.simps)
qed (auto intro: c_init c_step)

text \<open>The steps of one session, as they change a history.\<close>

lemma cstrace_start:
  assumes "cstrace V w h s" and "cs_sessions s n = None" and "start_call V c (cs_world s) = (Inr x, w')"
  obtains s' where "cstrace V w h s'" and "cs_world s' = w'" and "cs_calls s' = (cs_calls s)(n \<mapsto> c)"
    and "cs_sessions s' = (cs_sessions s)(n \<mapsto> x)"
  using that [OF tr_other [OF assms(1) c_start [OF assms(2,3)]]] by simp

lemma cstrace_read:
  assumes "cstrace V w h s" and "cs_sessions s n = Some x" and "proceed V x (cs_world s) = (Inr y, w')" and "saved_by x = []"
  obtains s' where "cstrace V w h s'" and "cs_world s' = w'" and "cs_calls s' = cs_calls s"
    and "cs_sessions s' = (cs_sessions s)(n \<mapsto> y)"
  using that [OF tr_other [OF assms(1) c_proceed [OF assms(2,3)]]] assms(4) by simp

lemma cstrace_commit:
  assumes "cstrace V w h s" and "cs_sessions s n = Some (Loaded p)" and "cs_calls s n = Some c"
    and "proceed V (Loaded p) (cs_world s) = (Inr y, w')" and "tokens_distinct (db (cs_world s))"
  obtains s' where "cstrace V w (h @ [(c, p)]) s'" and "cs_world s' = w'" and "cs_calls s' = cs_calls s"
    and "cs_sessions s' = (cs_sessions s)(n \<mapsto> y)"
  using that [OF tr_commit [OF assms]] by simp

text \<open>Every interleaving along which no two stored tokens share a hash has a history.\<close>

lemma creach_cstrace:
  assumes "creach V w s" and "db_inv (db w)" and "\<And>s'. creach V w s' \<Longrightarrow> tokens_distinct (db (cs_world s'))"
  shows "\<exists>h. cstrace V w h s"
  using assms(1)
proof (induction rule: creach.induct)
  case c_init
  show ?case by (blast intro: tr_init)
next
  case (c_step s s')
  then obtain h where h: "cstrace V w h s" by blast
  have o: "\<exists>h. cstrace V w h s'" if "cs_saved s' = cs_saved s" using tr_other [OF h c_step(2) that] by blast
  from c_step(2) show ?case
  proof (cases rule: cstep.cases)
    case (c_proceed n x y w')
    show ?thesis
    proof (cases "\<exists>p. x = Loaded p")
      case True
      then obtain p where p: "x = Loaded p" by blast
      obtain c where c: "cs_calls s n = Some c"
        using creach_inv [OF c_step(1) assms(2)] c_proceed(2) p unfolding cinv_def by (blast elim: loadedE)
      show ?thesis unfolding c_proceed(1) p
        using tr_commit [OF h _ c _ assms(3) [OF c_step(1)]] c_proceed(2,3) [unfolded p] by blast
    
    next
      case False
      then have "saved_by x = []" by (simp add: saved_by_def split: session.split)
      then show ?thesis by (intro o) (simp add: c_proceed(1))
    qed
  qed (rule o, simp)+
qed

lemma commits_in_order:
  assumes "service_inv w" and "cstrace V w h s"
  shows "\<exists>ks v. serial V h ks w = Some v \<and> db v = db (cs_world s)"
  using assms(2)
proof (induction rule: cstrace.induct)
  case tr_init
  show ?case by (rule exI [of _ "[]"]) simp
next
  case (tr_other h s s')
  have "db (cs_world s') = db (cs_world s)"
    using cstep_saves_nothing [OF tr_other(2) _ tr_other(3)] creach_inv [of V w s] cstrace_creach [OF tr_other(1)] assms(1)
    by (simp add: service_inv_def)
  then show ?case using tr_other(4) by simp
next
  case (tr_commit h s n p c y w')
  then obtain ks v where v: "serial V h ks w = Some v" "db v = db (cs_world s)" by blast
  have d: "db_inv (db w)" and a: "spec_inv (abs_store (db w))" using assms(1) by (simp_all add: service_inv_def)
  have r: "creach V w s" using cstrace_creach [OF tr_commit(1)] by blast
  note i = creach_inv [OF r d, unfolded cinv_def]
  have "spec_inv (abs_store (db (cs_world s)))" using spec_steps_inv [OF _ a] i by blast
  then have "users_inv (user_lookup (db (cs_world s)))" by (simp add: spec_inv_def abs_store_def)
  moreover have "session_ok V (Some c) (abs_store (db (cs_world s))) (Loaded p)" using i tr_commit(2,3) by metis
  ultimately obtain k w1 where "handle V c (v\<lparr>tick := k\<rparr>) = (Inr (pe_answer p), w1)" "db w1 = db w'"
    using commit_is_call [OF _ _ tr_commit(5) _ tr_commit(4) v(2)] i by blast
  then have "serial V (h @ [(c, p)]) (ks @ [k]) w = Some w1" by (simp add: serial_append [OF v(1)])
  then show ?case using \<open>db w1 = db w'\<close> by (intro exI) (rule conjI, assumption, simp)
qed

end
