(* ===== verification/Wiring.thy ===== *)
theory Wiring
  imports Exceptions
begin

text \<open>
  How the parts are put together: the providers of \<^verbatim>\<open>app/adapters/nexus.py\<close>, and
  \<open>build_use_case\<close> of \<^verbatim>\<open>routers/dependencies/cases.py\<close>, which binds each parameter of a use
  case to the provider of its port. FastAPI, which calls the providers once per request, is
  left out.
\<close>

datatype port =
    TransactionPort
  | UserRepositoryPort
  | OneTimeTokenRepositoryPort
  | RefreshTokenRepositoryPort
  | ConfigPort
  | EventQueuePort
  | EventPublisherPort
  | NotificationPort
  | AccessTokenIssuerPort
  | AccessTokenVerifierPort

datatype provider =
    get_config
  | get_access_token_issuer
  | get_access_token_verifier
  | get_redis_client
  | get_event_queue
  | get_notification_queue
  | get_event_publisher
  | get_session
  | get_transaction
  | get_user_repo
  | get_ott_repo
  | get_refresh_token_repo

text \<open>The port a provider returns, if it returns one, and the providers it depends on.\<close>

fun provides :: "provider \<Rightarrow> port option" where
  "provides get_config = Some ConfigPort"
| "provides get_access_token_issuer = Some AccessTokenIssuerPort"
| "provides get_access_token_verifier = Some AccessTokenVerifierPort"
| "provides get_redis_client = None"
| "provides get_event_queue = Some EventQueuePort"
| "provides get_notification_queue = Some NotificationPort"
| "provides get_event_publisher = Some EventPublisherPort"
| "provides get_session = None"
| "provides get_transaction = Some TransactionPort"
| "provides get_user_repo = Some UserRepositoryPort"
| "provides get_ott_repo = Some OneTimeTokenRepositoryPort"
| "provides get_refresh_token_repo = Some RefreshTokenRepositoryPort"

fun depends :: "provider \<Rightarrow> provider list" where
  "depends get_event_publisher = [get_event_queue, get_notification_queue]"
| "depends get_transaction = [get_session]"
| "depends get_user_repo = [get_session]"
| "depends get_ott_repo = [get_session]"
| "depends get_refresh_token_repo = [get_session]"
| "depends _ = []"

definition DEPENDENCY_PROVIDERS :: "(port \<times> provider) list" where
  "DEPENDENCY_PROVIDERS =
    [(TransactionPort, get_transaction), (UserRepositoryPort, get_user_repo),
     (OneTimeTokenRepositoryPort, get_ott_repo), (RefreshTokenRepositoryPort, get_refresh_token_repo),
     (ConfigPort, get_config), (EventQueuePort, get_event_queue),
     (EventPublisherPort, get_event_publisher), (AccessTokenIssuerPort, get_access_token_issuer),
     (AccessTokenVerifierPort, get_access_token_verifier)]"

text \<open>
  The parameters of \<open>__init__\<close> with their annotations, \<open>None\<close> where there is none; the result
  is the parameters of the factory with the providers they depend on.
\<close>

fun build_use_case :: "(string \<times> port option) list \<Rightarrow> exn + (string \<times> provider) list" where
  "build_use_case [] = Inr []"
| "build_use_case ((name, annotation) # params) =
    (if name = ''self'' then build_use_case params
     else case annotation of
       None \<Rightarrow> Inl (LibError ValueError)
     | Some p \<Rightarrow>
         (case map_of DEPENDENCY_PROVIDERS p of
            None \<Rightarrow> Inl (LibError ValueError)
          | Some provider \<Rightarrow> map_sum id (\<lambda>fs. (name, provider) # fs) (build_use_case params)))"

text \<open>The constructors of the use cases.\<close>

datatype use_case =
    RegisterUserCase
  | VerifyEmailCase
  | LoginUserCase
  | RefreshTokenCase
  | RevokeTokenCase
  | ChangePasswordCase
  | PasswordRecoverRequestCase
  | PasswordRecoverCase

definition register_params :: "(string \<times> port option) list" where
  "register_params =
    [(''self'', None), (''tx'', Some TransactionPort), (''user_repo'', Some UserRepositoryPort),
     (''ott_repo'', Some OneTimeTokenRepositoryPort), (''config'', Some ConfigPort),
     (''event_publisher'', Some EventPublisherPort)]"

definition verify_email_params :: "(string \<times> port option) list" where
  "verify_email_params =
    [(''self'', None), (''tx'', Some TransactionPort), (''user_repo'', Some UserRepositoryPort),
     (''ott_repo'', Some OneTimeTokenRepositoryPort), (''event_publisher'', Some EventPublisherPort)]"

definition login_params :: "(string \<times> port option) list" where
  "login_params =
    [(''self'', None), (''tx'', Some TransactionPort), (''user_repo'', Some UserRepositoryPort),
     (''refresh_token_repo'', Some RefreshTokenRepositoryPort), (''config'', Some ConfigPort),
     (''event_publisher'', Some EventPublisherPort), (''access_token_issuer'', Some AccessTokenIssuerPort)]"

definition refresh_params :: "(string \<times> port option) list" where
  "refresh_params =
    [(''self'', None), (''tx'', Some TransactionPort),
     (''refresh_token_repo'', Some RefreshTokenRepositoryPort), (''config'', Some ConfigPort),
     (''event_publisher'', Some EventPublisherPort), (''access_token_issuer'', Some AccessTokenIssuerPort)]"

definition revoke_params :: "(string \<times> port option) list" where
  "revoke_params =
    [(''self'', None), (''tx'', Some TransactionPort),
     (''refresh_token_repo'', Some RefreshTokenRepositoryPort), (''config'', Some ConfigPort),
     (''event_publisher'', Some EventPublisherPort)]"

definition change_password_params :: "(string \<times> port option) list" where
  "change_password_params =
    [(''self'', None), (''tx'', Some TransactionPort), (''user_repo'', Some UserRepositoryPort),
     (''access_token_verifier'', Some AccessTokenVerifierPort), (''event_publisher'', Some EventPublisherPort)]"

definition recover_request_params :: "(string \<times> port option) list" where
  "recover_request_params =
    [(''self'', None), (''tx'', Some TransactionPort), (''user_repo'', Some UserRepositoryPort),
     (''ott_repo'', Some OneTimeTokenRepositoryPort), (''config'', Some ConfigPort),
     (''event_publisher'', Some EventPublisherPort)]"

definition recover_params :: "(string \<times> port option) list" where
  "recover_params =
    [(''self'', None), (''tx'', Some TransactionPort), (''user_repo'', Some UserRepositoryPort),
     (''ott_repo'', Some OneTimeTokenRepositoryPort), (''event_publisher'', Some EventPublisherPort)]"

fun init_params :: "use_case \<Rightarrow> (string \<times> port option) list" where
  "init_params RegisterUserCase = register_params"
| "init_params VerifyEmailCase = verify_email_params"
| "init_params LoginUserCase = login_params"
| "init_params RefreshTokenCase = refresh_params"
| "init_params RevokeTokenCase = revoke_params"
| "init_params ChangePasswordCase = change_password_params"
| "init_params PasswordRecoverRequestCase = recover_request_params"
| "init_params PasswordRecoverCase = recover_params"

lemmas init_params_defs =
  register_params_def verify_email_params_def login_params_def refresh_params_def
  revoke_params_def change_password_params_def recover_request_params_def recover_params_def

text \<open>The factories that \<^verbatim>\<open>routers/auth.py\<close> builds when it is imported; one that raised would stop the service from starting.\<close>

definition factories :: "(string \<times> (exn + (string \<times> provider) list)) list" where
  "factories =
    [(''get_register_use_case'', build_use_case (init_params RegisterUserCase)),
     (''get_verify_email_use_case'', build_use_case (init_params VerifyEmailCase)),
     (''get_login_use_case'', build_use_case (init_params LoginUserCase)),
     (''get_refresh_token_use_case'', build_use_case (init_params RefreshTokenCase)),
     (''get_revoke_token_use_case'', build_use_case (init_params RevokeTokenCase)),
     (''get_change_password_use_case'', build_use_case (init_params ChangePasswordCase)),
     (''get_password_recover_request_use_case'', build_use_case (init_params PasswordRecoverRequestCase)),
     (''get_password_recover_use_case'', build_use_case (init_params PasswordRecoverCase))]"

lemma provider_of_port: "map_of DEPENDENCY_PROVIDERS p = Some f \<Longrightarrow> provides f = Some p"
  by (auto simp: DEPENDENCY_PROVIDERS_def split: if_splits)

lemma build_use_case_Inr:
  "build_use_case ps = Inr fs \<longleftrightarrow>
    (\<forall>(n, a) \<in> set ps. n \<noteq> ''self'' \<longrightarrow> (\<exists>p f. a = Some p \<and> map_of DEPENDENCY_PROVIDERS p = Some f))
    \<and> fs = map (\<lambda>(n, a). (n, the (map_of DEPENDENCY_PROVIDERS (the a)))) (filter (\<lambda>(n, a). n \<noteq> ''self'') ps)"
  by (induction ps arbitrary: fs rule: build_use_case.induct) (auto split: option.splits)

text \<open>Everything that reads or writes the database takes the session from the one provider of it.\<close>

definition database_ports :: "port list" where
  "database_ports = [TransactionPort, UserRepositoryPort, OneTimeTokenRepositoryPort, RefreshTokenRepositoryPort]"

end
