(* ===== verification/Ports.thy ===== *)
theory Ports
  imports Wiring
begin

text \<open>
  The ports of \<^verbatim>\<open>app/core/ports\<close>, classes whose methods have no bodies, and the classes of
  \<^verbatim>\<open>app/adapters/outbound\<close> that inherit them. A method that a class leaves out would be the port's own, which does
  nothing and returns \<open>None\<close>; one with other parameters would raise when it is called.
\<close>

section \<open>Methods and calls of them\<close>

text \<open>
  A method: its name, whether it is a coroutine, and its parameters after \<open>self\<close>, each with whether it has a default.
\<close>

record method_sig =
  ms_name :: string
  ms_async :: bool
  ms_params :: "(string \<times> bool) list"

abbreviation meth :: "string \<Rightarrow> (string \<times> bool) list \<Rightarrow> method_sig" where
  "meth name params \<equiv> \<lparr>ms_name = name, ms_async = False, ms_params = params\<rparr>"

abbreviation coro :: "string \<Rightarrow> (string \<times> bool) list \<Rightarrow> method_sig" where
  "coro name params \<equiv> \<lparr>ms_name = name, ms_async = True, ms_params = params\<rparr>"

text \<open>Python's binding of a call with \<open>n\<close> positional arguments and the keywords \<open>ks\<close>; otherwise \<open>TypeError\<close>.\<close>

fun binds :: "(string \<times> bool) list \<Rightarrow> nat \<Rightarrow> string list \<Rightarrow> bool" where
  "binds [] n ks = (n = 0 \<and> ks = [])"
| "binds (p # ps) (Suc n) ks = (fst p \<notin> set ks \<and> binds ps n ks)"
| "binds ((x, optional) # ps) 0 ks =
    (if x \<in> set ks then distinct ks \<and> binds ps 0 (remove1 x ks) else optional \<and> binds ps 0 ks)"

section \<open>The ports\<close>

definition RepositoryPort :: "method_sig list" where
  "RepositoryPort = [coro ''save'' [(''entity'', False)], coro ''delete'' [(''entity'', False)]]"

text \<open>The methods of each port, those of the class it extends first.\<close>

definition transaction_port :: "method_sig list" where
  "transaction_port =
    [coro ''__aenter__'' [], coro ''__aexit__'' [(''exc_type'', False), (''exc'', False), (''tb'', False)]]"

definition user_repository_port :: "method_sig list" where
  "user_repository_port =
    RepositoryPort @ [coro ''get_by_email'' [(''email'', False)], coro ''get_by_id'' [(''user_id'', False)]]"

definition ott_repository_port :: "method_sig list" where
  "ott_repository_port =
    RepositoryPort @ [coro ''get_by_string'' [(''token_string'', False)]]"

definition rt_repository_port :: "method_sig list" where
  "rt_repository_port =
    RepositoryPort @ [coro ''get_by_string'' [(''token_string'', False)], coro ''get_all_by_user'' [(''user_id'', False)]]"

definition config_port :: "method_sig list" where
  "config_port =
    [meth ''email_token_len'' [], meth ''email_token_exp'' [], meth ''access_token_exp'' [],
     meth ''refresh_token_len'' [], meth ''refresh_token_exp'' [], meth ''password_recover_token_len'' [],
     meth ''password_recover_token_exp'' []]"

definition event_queue_port :: "method_sig list" where
  "event_queue_port =
    [coro ''push'' [(''event'', False)], coro ''get'' [(''offset'', False), (''limit'', False), (''desc'', True)]]"

definition event_publisher_port :: "method_sig list" where
  "event_publisher_port =
    [coro ''publish'' [(''events'', False)]]"

definition notification_port :: "method_sig list" where
  "notification_port =
    [meth ''push'' [(''event'', False)], meth ''get_all'' [], meth ''clear'' []]"

definition access_token_issuer_port :: "method_sig list" where
  "access_token_issuer_port =
    [meth ''issue'' [(''user_id'', False), (''expiry'', False)]]"

definition access_token_verifier_port :: "method_sig list" where
  "access_token_verifier_port =
    [meth ''verify'' [(''token'', False)]]"

fun port_methods :: "port \<Rightarrow> method_sig list" where
  "port_methods TransactionPort = transaction_port"
| "port_methods UserRepositoryPort = user_repository_port"
| "port_methods OneTimeTokenRepositoryPort = ott_repository_port"
| "port_methods RefreshTokenRepositoryPort = rt_repository_port"
| "port_methods ConfigPort = config_port"
| "port_methods EventQueuePort = event_queue_port"
| "port_methods EventPublisherPort = event_publisher_port"
| "port_methods NotificationPort = notification_port"
| "port_methods AccessTokenIssuerPort = access_token_issuer_port"
| "port_methods AccessTokenVerifierPort = access_token_verifier_port"

lemmas port_defs =
  RepositoryPort_def transaction_port_def user_repository_port_def ott_repository_port_def rt_repository_port_def config_port_def event_queue_port_def event_publisher_port_def notification_port_def access_token_issuer_port_def access_token_verifier_port_def

section \<open>The classes behind them\<close>

datatype adapter =
    SQLAlchemyTransaction
  | UserRepository
  | OneTimeTokenRepository
  | RefreshTokenRepository
  | ConfigClass
  | RedisEventQueue
  | InMemoryEventQueue
  | EventPublisher
  | InMemoryNotificationQueue
  | AccessTokenIssuer
  | AccessTokenVerifier

text \<open>The class whose instance a provider returns; the client of Redis and the database session come from libraries.\<close>

fun provided_class :: "provider \<Rightarrow> adapter option" where
  "provided_class get_config = Some ConfigClass"
| "provided_class get_access_token_issuer = Some AccessTokenIssuer"
| "provided_class get_access_token_verifier = Some AccessTokenVerifier"
| "provided_class get_redis_client = None"
| "provided_class get_event_queue = Some RedisEventQueue"
| "provided_class get_notification_queue = Some InMemoryNotificationQueue"
| "provided_class get_event_publisher = Some EventPublisher"
| "provided_class get_session = None"
| "provided_class get_transaction = Some SQLAlchemyTransaction"
| "provided_class get_user_repo = Some UserRepository"
| "provided_class get_ott_repo = Some OneTimeTokenRepository"
| "provided_class get_refresh_token_repo = Some RefreshTokenRepository"

text \<open>The port a class inherits from, and the methods that it defines itself.\<close>

fun base_port :: "adapter \<Rightarrow> port" where
  "base_port SQLAlchemyTransaction = TransactionPort"
| "base_port UserRepository = UserRepositoryPort"
| "base_port OneTimeTokenRepository = OneTimeTokenRepositoryPort"
| "base_port RefreshTokenRepository = RefreshTokenRepositoryPort"
| "base_port ConfigClass = ConfigPort"
| "base_port RedisEventQueue = EventQueuePort"
| "base_port InMemoryEventQueue = EventQueuePort"
| "base_port EventPublisher = EventPublisherPort"
| "base_port InMemoryNotificationQueue = NotificationPort"
| "base_port AccessTokenIssuer = AccessTokenIssuerPort"
| "base_port AccessTokenVerifier = AccessTokenVerifierPort"

fun own_methods :: "adapter \<Rightarrow> method_sig list" where
  "own_methods SQLAlchemyTransaction =
    [coro ''__aenter__'' [], coro ''__aexit__'' [(''exc_type'', False), (''exc'', False), (''tb'', False)]]"
| "own_methods UserRepository =
    [coro ''get_by_email'' [(''email'', False)], coro ''get_by_id'' [(''user_id'', False)],
     coro ''save'' [(''user'', False)], coro ''delete'' [(''user'', False)]]"
| "own_methods OneTimeTokenRepository =
    [coro ''get_by_string'' [(''token_string'', False)], coro ''save'' [(''token'', False)], coro ''delete'' [(''token'', False)]]"
| "own_methods RefreshTokenRepository =
    [coro ''get_by_string'' [(''token_string'', False)], coro ''get_all_by_user'' [(''user_id'', False)],
     coro ''save'' [(''token'', False)], coro ''delete'' [(''token'', False)]]"
| "own_methods ConfigClass =
    [meth ''email_token_exp'' [], meth ''email_token_len'' [], meth ''access_token_exp'' [],
     meth ''refresh_token_len'' [], meth ''refresh_token_exp'' [], meth ''password_recover_token_len'' [],
     meth ''password_recover_token_exp'' []]"
| "own_methods RedisEventQueue =
    [coro ''push'' [(''event'', False)], coro ''get'' [(''offset'', False), (''limit'', False), (''desc'', True)]]"
| "own_methods InMemoryEventQueue =
    [coro ''push'' [(''event'', False)], coro ''get'' [(''offset'', False), (''limit'', False), (''desc'', True)]]"
| "own_methods EventPublisher = [coro ''publish'' [(''events'', False)]]"
| "own_methods InMemoryNotificationQueue = [meth ''push'' [(''event'', False)], meth ''get_all'' [], meth ''clear'' []]"
| "own_methods AccessTokenIssuer = [meth ''issue'' [(''user_id'', False), (''expiry'', False)]]"
| "own_methods AccessTokenVerifier = [meth ''verify'' [(''token'', False)]]"

text \<open>What a name of a method stands for on an instance: the class's own, before the port's without a body.\<close>

definition find_method :: "string \<Rightarrow> method_sig list \<Rightarrow> method_sig option" where
  "find_method name ms = List.find (\<lambda>s. ms_name s = name) ms"

definition resolve :: "adapter \<Rightarrow> string \<Rightarrow> (bool \<times> method_sig) option" where
  "resolve c name =
    (case find_method name (own_methods c) of
       Some s \<Rightarrow> Some (True, s)
     | None \<Rightarrow> map_option (\<lambda>s. (False, s)) (find_method name (port_methods (base_port c))))"

text \<open>A call by a client that goes by the port reaches a body, of the same kind, that takes its arguments.\<close>

definition call_served :: "adapter \<Rightarrow> method_sig \<Rightarrow> nat \<Rightarrow> string list \<Rightarrow> bool" where
  "call_served c s n ks =
    (case resolve c (ms_name s) of
       Some (own, s') \<Rightarrow> own \<and> ms_async s' = ms_async s \<and> binds (ms_params s') n ks
     | None \<Rightarrow> False)"

lemma binds_one: "binds [(x, False)] n ks \<longleftrightarrow> (n = 1 \<and> ks = []) \<or> (n = 0 \<and> ks = [x])"
  by (cases n; cases ks) (auto split: if_splits)

text \<open>The parameters are the port's own, or one whose name alone differs.\<close>

definition same_call :: "method_sig \<Rightarrow> method_sig \<Rightarrow> bool" where
  "same_call s s' \<longleftrightarrow> ms_async s' = ms_async s
    \<and> (ms_params s' = ms_params s \<or> (\<exists>y. ms_params s = [(''entity'', False)] \<and> ms_params s' = [(y, False)]))"

lemma same_call_binds:
  "same_call s s' \<Longrightarrow> binds (ms_params s) n ks \<Longrightarrow> ''entity'' \<notin> set ks \<Longrightarrow> binds (ms_params s') n ks"
  by (auto simp: same_call_def binds_one)

definition overrides :: "adapter \<Rightarrow> method_sig \<Rightarrow> bool" where
  "overrides c s = (case resolve c (ms_name s) of Some (own, s') \<Rightarrow> own \<and> same_call s s' | None \<Rightarrow> False)"

lemma all_overridden: "list_all (overrides c) (port_methods (base_port c))"
  by (cases c) (simp_all add: overrides_def resolve_def find_method_def port_defs same_call_def)

lemma calls_served:
  assumes "s \<in> set (port_methods (base_port c))" and "binds (ms_params s) n ks" and "''entity'' \<notin> set ks"
  shows "call_served c s n ks"
proof -
  have "overrides c s" using all_overridden [of c] assms(1) by (simp add: list_all_iff)
  then show ?thesis using same_call_binds [OF _ assms(2,3)]
    by (auto simp: overrides_def call_served_def same_call_def split: option.splits)
qed

lemma provider_class: "provides f = Some p \<Longrightarrow> \<exists>c. provided_class f = Some c \<and> base_port c = p"
  by (cases f) auto

end
