(* ===== verification/Infrastructure.thy ===== *)
theory Infrastructure
  imports Ports Config
begin

text \<open>
  The objects of a running service: those made when the modules are imported
  (\<^verbatim>\<open>app/infrastructure\<close>, \<^verbatim>\<open>app/adapters/nexus.py\<close>), and those that the providers make for a request. An object is
  a number, its position in the list of all objects made so far; the list holds what its
  constructor was given. (What a notification queue collects is in the state of \<open>App\<close>.) Which providers are called, and when, is up to FastAPI, so a sequence of calls
  is an argument, and \<open>fastapi_calls\<close> says what FastAPI documents of it. A provider is one step.
\<close>

section \<open>Objects\<close>

type_synonym ref = nat

datatype attribute = Ref ref | Text string | Flag bool

datatype object =
    Instance adapter "(string \<times> attribute) list"
  | AsyncEngine string "(string \<times> attribute) list"
  | AsyncSessionMaker ref "(string \<times> attribute) list"
  | AsyncSession ref
  | RedisConnection string "(string \<times> attribute) list"

text \<open>The module variables of \<^verbatim>\<open>nexus.py\<close> and \<^verbatim>\<open>postgres.py\<close>, and the clients that have been closed.\<close>

record process =
  objects :: "object list"
  engine_obj :: ref
  async_session_factory :: ref
  redis_client_obj :: ref
  event_queue_obj :: ref
  notification_queue_obj :: ref
  access_token_issuer_obj :: "ref option"
  access_token_verifier_obj :: "ref option"
  closed_clients :: "ref list"

definition new_object :: "object \<Rightarrow> process \<Rightarrow> ref \<times> process" where
  "new_object b s = (length (objects s), s\<lparr>objects := objects s @ [b]\<rparr>)"

definition the_object :: "process \<Rightarrow> ref \<Rightarrow> object option" where
  "the_object s r = (if r < length (objects s) then Some (objects s ! r) else None)"

section \<open>Import\<close>

definition make_redis_client :: "settings \<Rightarrow> object" where
  "make_redis_client S =
    RedisConnection (redis_url S) [(''encoding'', Text ''utf-8''), (''decode_responses'', Flag True)]"

definition make_engine :: "settings \<Rightarrow> object" where
  "make_engine S =
    AsyncEngine (database_url S) [(''echo'', Flag (postgres_echo S)), (''pool_pre_ping'', Flag True)]"

definition make_session_factory :: "ref \<Rightarrow> object" where
  "make_session_factory e = AsyncSessionMaker e [(''expire_on_commit'', Flag False)]"

definition DEFAULT_KEY :: string where
  "DEFAULT_KEY = ''auth:events''"

definition redis_event_queue :: "ref \<Rightarrow> string \<Rightarrow> object" where
  "redis_event_queue client key = Instance RedisEventQueue [(''_client'', Ref client), (''_key'', Text key)]"

text \<open>The objects in the order in which the modules make them.\<close>

definition import_nexus :: "settings \<Rightarrow> process" where
  "import_nexus S =
    \<lparr>objects = [make_redis_client S, redis_event_queue 0 DEFAULT_KEY, Instance InMemoryNotificationQueue [],
       make_engine S, make_session_factory 3],
     engine_obj = 3, async_session_factory = 4, redis_client_obj = 0, event_queue_obj = 1,
     notification_queue_obj = 2, access_token_issuer_obj = None, access_token_verifier_obj = None,
     closed_clients = []\<rparr>"

section \<open>Providers\<close>

text \<open>
  A provider called with the objects that it depends on. The issuer and the verifier of access tokens are made at the
  first call and kept.
\<close>

fun call_provider :: "settings \<Rightarrow> provider \<Rightarrow> ref list \<Rightarrow> process \<Rightarrow> ref \<times> process" where
  "call_provider S get_config args s = new_object (Instance ConfigClass []) s"
| "call_provider S get_access_token_issuer args s =
    (case access_token_issuer_obj s of
       Some r \<Rightarrow> (r, s)
     | None \<Rightarrow>
         (case new_object (Instance AccessTokenIssuer
            [(''_secret'', Text (jwt_secret S)), (''_algorithm'', Text (jwt_algorithm S))]) s of
            (r, s) \<Rightarrow> (r, s\<lparr>access_token_issuer_obj := Some r\<rparr>)))"
| "call_provider S get_access_token_verifier args s =
    (case access_token_verifier_obj s of
       Some r \<Rightarrow> (r, s)
     | None \<Rightarrow>
         (case new_object (Instance AccessTokenVerifier
            [(''_secret'', Text (jwt_secret S)), (''_algorithm'', Text (jwt_algorithm S))]) s of
            (r, s) \<Rightarrow> (r, s\<lparr>access_token_verifier_obj := Some r\<rparr>)))"
| "call_provider S get_redis_client args s = (redis_client_obj s, s)"
| "call_provider S get_event_queue args s = (event_queue_obj s, s)"
| "call_provider S get_notification_queue args s = (notification_queue_obj s, s)"
| "call_provider S get_event_publisher args s =
    new_object (Instance EventPublisher [(''_queue'', Ref (args ! 0)), (''_notifications'', Ref (args ! 1))]) s"
| "call_provider S get_session args s = new_object (AsyncSession (async_session_factory s)) s"
| "call_provider S get_transaction args s = new_object (Instance SQLAlchemyTransaction [(''session'', Ref (args ! 0))]) s"
| "call_provider S get_user_repo args s = new_object (Instance UserRepository [(''session'', Ref (args ! 0))]) s"
| "call_provider S get_ott_repo args s = new_object (Instance OneTimeTokenRepository [(''session'', Ref (args ! 0))]) s"
| "call_provider S get_refresh_token_repo args s =
    new_object (Instance RefreshTokenRepository [(''session'', Ref (args ! 0))]) s"

text \<open>\<open>build_use_case\<close>'s factory: the keyword arguments of the use case's constructor.\<close>

definition factory :: "use_case \<Rightarrow> (provider \<Rightarrow> ref option) \<Rightarrow> exn + (string \<times> ref option) list" where
  "factory u values = map_sum id (map (\<lambda>(name, p). (name, values p))) (build_use_case (init_params u))"

section \<open>Requests\<close>

text \<open>
  Calls of providers for requests, which are numbered; \<open>got n\<close> is what request \<open>n\<close> has been given so far. Calls
  for different requests may alternate.
\<close>

fun call_all ::
  "settings \<Rightarrow> (nat \<times> provider) list \<Rightarrow> process \<Rightarrow> (nat \<Rightarrow> provider \<Rightarrow> ref option)
    \<Rightarrow> process \<times> (nat \<Rightarrow> provider \<Rightarrow> ref option)" where
  "call_all S [] s got = (s, got)"
| "call_all S ((n, p) # calls) s got =
    (case call_provider S p (map (\<lambda>d. the (got n d)) (depends p)) s of
       (r, s') \<Rightarrow> call_all S calls s' (got(n := (got n)(p \<mapsto> r))))"

text \<open>
  Documented behaviour of FastAPI: within a request a provider is called once at most, after those that it depends on, and
  its result is used wherever the request depends on it. \<open>seen\<close> are the calls made before.
\<close>

fun fastapi_calls :: "(nat \<times> provider) list \<Rightarrow> (nat \<times> provider) list \<Rightarrow> bool" where
  "fastapi_calls seen [] = True"
| "fastapi_calls seen ((n, p) # calls) =
    ((n, p) \<notin> set seen \<and> (\<forall>d \<in> set (depends p). (n, d) \<in> set seen) \<and> fastapi_calls ((n, p) # seen) calls)"

text \<open>The end of the application's \<open>lifespan\<close>: \<open>get_redis_client().aclose()\<close>.\<close>

definition lifespan_end :: "settings \<Rightarrow> process \<Rightarrow> process" where
  "lifespan_end S s =
    (case call_provider S get_redis_client [] s of (r, s) \<Rightarrow> s\<lparr>closed_clients := r # closed_clients s\<rparr>)"

section \<open>What holds of the objects\<close>

text \<open>The objects of the process.\<close>

definition process_ok :: "settings \<Rightarrow> process \<Rightarrow> bool" where
  "process_ok S s \<longleftrightarrow>
    the_object s (engine_obj s) = Some (make_engine S)
    \<and> the_object s (async_session_factory s) = Some (make_session_factory (engine_obj s))
    \<and> the_object s (redis_client_obj s) = Some (make_redis_client S)
    \<and> the_object s (event_queue_obj s) = Some (redis_event_queue (redis_client_obj s) DEFAULT_KEY)
    \<and> the_object s (notification_queue_obj s) = Some (Instance InMemoryNotificationQueue [])
    \<and> (\<forall>r. access_token_issuer_obj s = Some r \<longrightarrow> the_object s r = Some (Instance AccessTokenIssuer
         [(''_secret'', Text (jwt_secret S)), (''_algorithm'', Text (jwt_algorithm S))]))
    \<and> (\<forall>r. access_token_verifier_obj s = Some r \<longrightarrow> the_object s r = Some (Instance AccessTokenVerifier
         [(''_secret'', Text (jwt_secret S)), (''_algorithm'', Text (jwt_algorithm S))]))"

text \<open>What a provider has given a request, which has been given \<open>v\<close>.\<close>

definition on_session :: "process \<Rightarrow> (provider \<Rightarrow> ref option) \<Rightarrow> adapter \<Rightarrow> ref \<Rightarrow> bool" where
  "on_session s v c r \<longleftrightarrow> (\<exists>x. v get_session = Some x \<and> the_object s r = Some (Instance c [(''session'', Ref x)]))"

fun made :: "settings \<Rightarrow> process \<Rightarrow> (provider \<Rightarrow> ref option) \<Rightarrow> provider \<Rightarrow> ref \<Rightarrow> bool" where
  "made S s v get_config r = (the_object s r = Some (Instance ConfigClass []))"
| "made S s v get_access_token_issuer r = (access_token_issuer_obj s = Some r)"
| "made S s v get_access_token_verifier r = (access_token_verifier_obj s = Some r)"
| "made S s v get_redis_client r = (r = redis_client_obj s)"
| "made S s v get_event_queue r = (r = event_queue_obj s)"
| "made S s v get_notification_queue r = (r = notification_queue_obj s)"
| "made S s v get_event_publisher r = (the_object s r = Some (Instance EventPublisher
    [(''_queue'', Ref (event_queue_obj s)), (''_notifications'', Ref (notification_queue_obj s))]))"
| "made S s v get_session r = (the_object s r = Some (AsyncSession (async_session_factory s)))"
| "made S s v get_transaction r = on_session s v SQLAlchemyTransaction r"
| "made S s v get_user_repo r = on_session s v UserRepository r"
| "made S s v get_ott_repo r = on_session s v OneTimeTokenRepository r"
| "made S s v get_refresh_token_repo r = on_session s v RefreshTokenRepository r"

text \<open>No object is lost or changed, the module variables stay as they are, and the two that are filled later are filled once.\<close>

definition grows :: "process \<Rightarrow> process \<Rightarrow> bool" where
  "grows s s' \<longleftrightarrow> (\<forall>r b. the_object s r = Some b \<longrightarrow> the_object s' r = Some b)
    \<and> engine_obj s' = engine_obj s \<and> async_session_factory s' = async_session_factory s
    \<and> redis_client_obj s' = redis_client_obj s \<and> event_queue_obj s' = event_queue_obj s
    \<and> notification_queue_obj s' = notification_queue_obj s
    \<and> (\<forall>r. access_token_issuer_obj s = Some r \<longrightarrow> access_token_issuer_obj s' = Some r)
    \<and> (\<forall>r. access_token_verifier_obj s = Some r \<longrightarrow> access_token_verifier_obj s' = Some r)"

lemma new_object:
  "new_object b s = (r, s') \<Longrightarrow> the_object s r = None \<and> the_object s' r = Some b \<and> grows s s'
    \<and> access_token_issuer_obj s' = access_token_issuer_obj s \<and> access_token_verifier_obj s' = access_token_verifier_obj s"
  by (auto simp: new_object_def the_object_def grows_def nth_append split: if_splits)

lemma grows_refl: "grows s s"
  by (simp add: grows_def)

lemma grows_process_ok:
  "grows s s' \<Longrightarrow> process_ok S s \<Longrightarrow> access_token_issuer_obj s' = access_token_issuer_obj s \<Longrightarrow>
    access_token_verifier_obj s' = access_token_verifier_obj s \<Longrightarrow> process_ok S s'"
  unfolding grows_def process_ok_def by auto

lemma grows_made: "grows s s' \<Longrightarrow> made S s v p r \<Longrightarrow> made S s' v p r"
  by (cases p) (auto simp: grows_def on_session_def)

lemma made_later: "made S s v p r \<Longrightarrow> v q = None \<Longrightarrow> made S s (v(q \<mapsto> r')) p r"
  by (cases p) (auto simp: on_session_def)

lemma import_ok: "process_ok S (import_nexus S)"
  by (simp add: process_ok_def import_nexus_def the_object_def)

lemma new_object_ok:
  "new_object b s = (r, s') \<Longrightarrow> process_ok S s \<Longrightarrow>
    process_ok S s' \<and> grows s s' \<and> the_object s' r = Some b \<and> the_object s r = None"
  using grows_process_ok new_object by blast

lemma the_object_cells [simp]:
  "the_object (s\<lparr>access_token_issuer_obj := x\<rparr>) r = the_object s r"
  "the_object (s\<lparr>access_token_verifier_obj := x\<rparr>) r = the_object s r"
  "the_object (s\<lparr>closed_clients := xs\<rparr>) r = the_object s r"
  by (simp_all add: the_object_def)

lemma keep_issuer_ok:
  "process_ok S s \<Longrightarrow> access_token_issuer_obj s = None \<Longrightarrow> the_object s r = Some (Instance AccessTokenIssuer
      [(''_secret'', Text (jwt_secret S)), (''_algorithm'', Text (jwt_algorithm S))]) \<Longrightarrow>
    process_ok S (s\<lparr>access_token_issuer_obj := Some r\<rparr>) \<and> grows s (s\<lparr>access_token_issuer_obj := Some r\<rparr>)"
  by (simp add: process_ok_def grows_def)

lemma keep_verifier_ok:
  "process_ok S s \<Longrightarrow> access_token_verifier_obj s = None \<Longrightarrow> the_object s r = Some (Instance AccessTokenVerifier
      [(''_secret'', Text (jwt_secret S)), (''_algorithm'', Text (jwt_algorithm S))]) \<Longrightarrow>
    process_ok S (s\<lparr>access_token_verifier_obj := Some r\<rparr>) \<and> grows s (s\<lparr>access_token_verifier_obj := Some r\<rparr>)"
  by (simp add: process_ok_def grows_def)

lemma grows_trans: "grows s s' \<Longrightarrow> grows s' s'' \<Longrightarrow> grows s s''"
  by (simp add: grows_def)

lemma call_provider_ok:
  assumes c: "call_provider S p (map (\<lambda>d. the (v d)) (depends p)) s = (r, s')" and i: "process_ok S s"
    and d: "\<And>q. q \<in> set (depends p) \<Longrightarrow> \<exists>x. v q = Some x \<and> made S s v q x" and n: "v p = None"
  shows "process_ok S s' \<and> grows s s' \<and> made S s' (v(p \<mapsto> r)) p r \<and> (p = get_session \<longrightarrow> the_object s r = None)"
proof (cases p)
  case get_access_token_issuer
  show ?thesis
  proof (cases "access_token_issuer_obj s")
    case None
    with c get_access_token_issuer obtain t where t: "new_object (Instance AccessTokenIssuer
        [(''_secret'', Text (jwt_secret S)), (''_algorithm'', Text (jwt_algorithm S))]) s = (r, t)"
      and s': "s' = t\<lparr>access_token_issuer_obj := Some r\<rparr>" by (auto split: prod.splits)
    note nt = new_object_ok [OF t i] new_object [OF t]
    show ?thesis using keep_issuer_ok [of S t r] nt None grows_trans get_access_token_issuer unfolding s' by auto
  qed (use c i in \<open>simp add: get_access_token_issuer grows_refl\<close>)
next
  case get_access_token_verifier
  show ?thesis
  proof (cases "access_token_verifier_obj s")
    case None
    with c get_access_token_verifier obtain t where t: "new_object (Instance AccessTokenVerifier
        [(''_secret'', Text (jwt_secret S)), (''_algorithm'', Text (jwt_algorithm S))]) s = (r, t)"
      and s': "s' = t\<lparr>access_token_verifier_obj := Some r\<rparr>" by (auto split: prod.splits)
    note nt = new_object_ok [OF t i] new_object [OF t]
    show ?thesis using keep_verifier_ok [of S t r] nt None grows_trans get_access_token_verifier unfolding s' by auto
  qed (use c i in \<open>simp add: get_access_token_verifier grows_refl\<close>)
next
  case get_event_publisher
  have "v get_event_queue = Some (event_queue_obj s)" and "v get_notification_queue = Some (notification_queue_obj s)"
    using d [of get_event_queue] d [of get_notification_queue] get_event_publisher by auto
  then show ?thesis using new_object_ok [OF _ i, of _ r s'] c get_event_publisher by (auto simp: grows_def)
next
  case get_session
  then show ?thesis using new_object_ok [OF _ i, of _ r s'] c by (auto simp: grows_def)
next
  case get_config
  then show ?thesis using new_object_ok [OF _ i, of _ r s'] c by auto
next
  case get_transaction
  then obtain x where "v get_session = Some x" using d by auto
  then show ?thesis using new_object_ok [OF _ i, of _ r s'] c get_transaction by (auto simp: on_session_def)
next
  case get_user_repo
  then obtain x where "v get_session = Some x" using d by auto
  then show ?thesis using new_object_ok [OF _ i, of _ r s'] c get_user_repo by (auto simp: on_session_def)
next
  case get_ott_repo
  then obtain x where "v get_session = Some x" using d by auto
  then show ?thesis using new_object_ok [OF _ i, of _ r s'] c get_ott_repo by (auto simp: on_session_def)
next
  case get_refresh_token_repo
  then obtain x where "v get_session = Some x" using d by auto
  then show ?thesis using new_object_ok [OF _ i, of _ r s'] c get_refresh_token_repo by (auto simp: on_session_def)
qed (use c i in \<open>auto simp: grows_refl\<close>)

text \<open>What the requests have been given, at any moment.\<close>

definition given_ok :: "settings \<Rightarrow> (nat \<times> provider) list \<Rightarrow> process \<Rightarrow> (nat \<Rightarrow> provider \<Rightarrow> ref option) \<Rightarrow> bool" where
  "given_ok S seen s got \<longleftrightarrow> process_ok S s
    \<and> (\<forall>n p. got n p \<noteq> None \<longleftrightarrow> (n, p) \<in> set seen)
    \<and> (\<forall>n p r. got n p = Some r \<longrightarrow> made S s (got n) p r)
    \<and> (\<forall>n m r. got n get_session = Some r \<longrightarrow> got m get_session = Some r \<longrightarrow> n = m)"

lemma call_step_ok:
  assumes g: "given_ok S seen s got" and f: "fastapi_calls seen ((n, p) # calls)"
    and c: "call_provider S p (map (\<lambda>d. the (got n d)) (depends p)) s = (r, s')"
  shows "given_ok S ((n, p) # seen) s' (got(n := (got n)(p \<mapsto> r)))"
proof -
  have i: "process_ok S s" and m: "\<And>k q x. got k q = Some x \<Longrightarrow> made S s (got k) q x"
    and u: "\<And>k j x. got k get_session = Some x \<Longrightarrow> got j get_session = Some x \<Longrightarrow> k = j"
    and w: "\<And>k q. got k q \<noteq> None \<longleftrightarrow> (k, q) \<in> set seen"
    using g unfolding given_ok_def by auto
  have o: "got n p = None" using w [of n p] f by auto
  have d: "\<exists>x. got n q = Some x \<and> made S s (got n) q x" if "q \<in> set (depends p)" for q
    using that f w [of n q] m by fastforce
  note k = call_provider_ok [OF c i d o]
  have "made S s' (got k) q x" if "got k q = Some x" for k q x using m [OF that] k grows_made by blast
  moreover have "made S s' ((got n)(p \<mapsto> r)) q x" if "got n q = Some x" for q x
    using m [OF that] k grows_made made_later o by blast
  moreover have "False" if "p = get_session" "got j get_session = Some r" for j
    using m [OF that(2)] k that(1) by auto
  ultimately show ?thesis
    using k u w unfolding given_ok_def by (auto split: if_splits)
qed

lemma call_all_ok:
  "given_ok S seen s got \<Longrightarrow> fastapi_calls seen calls \<Longrightarrow> call_all S calls s got = (s', got') \<Longrightarrow>
    given_ok S (rev calls @ seen) s' got'"
proof (induction calls arbitrary: seen s got)
  case (Cons np calls)
  obtain n p where np: "np = (n, p)" by fastforce
  obtain r t where c: "call_provider S p (map (\<lambda>d. the (got n d)) (depends p)) s = (r, t)" by fastforce
  have "given_ok S ((n, p) # seen) t (got(n := (got n)(p \<mapsto> r)))"
    by (rule call_step_ok [OF Cons.prems(1) Cons.prems(2) [unfolded np] c])
  moreover have "fastapi_calls ((n, p) # seen) calls" using Cons.prems(2) by (simp add: np)
  moreover have "call_all S calls t (got(n := (got n)(p \<mapsto> r))) = (s', got')" using Cons.prems(3) c by (simp add: np)
  ultimately have "given_ok S (rev calls @ (n, p) # seen) s' got'" by (rule Cons.IH)
  then show ?case by (simp add: np)
qed simp

lemma served_ok:
  "fastapi_calls [] calls \<Longrightarrow> call_all S calls (import_nexus S) (\<lambda>n p. None) = (s, got) \<Longrightarrow> given_ok S (rev calls) s got"
  using call_all_ok [of S "[]" "import_nexus S" "\<lambda>n p. None" calls s got] import_ok by (simp add: given_ok_def)

lemma lifespan_closes:
  assumes "process_ok S s"
  shows "\<exists>r. closed_clients (lifespan_end S s) = r # closed_clients s
    \<and> the_object (lifespan_end S s) r = Some (make_redis_client S)"
  using assms by (simp add: lifespan_end_def process_ok_def)

section \<open>What a use case is made of\<close>

text \<open>What an object of a class holds, for a request with the session \<open>x\<close>.\<close>

fun holds :: "settings \<Rightarrow> process \<Rightarrow> ref \<Rightarrow> adapter \<Rightarrow> (string \<times> attribute) list" where
  "holds S s x EventPublisher =
    [(''_queue'', Ref (event_queue_obj s)), (''_notifications'', Ref (notification_queue_obj s))]"
| "holds S s x RedisEventQueue = [(''_client'', Ref (redis_client_obj s)), (''_key'', Text DEFAULT_KEY)]"
| "holds S s x AccessTokenIssuer = [(''_secret'', Text (jwt_secret S)), (''_algorithm'', Text (jwt_algorithm S))]"
| "holds S s x AccessTokenVerifier = [(''_secret'', Text (jwt_secret S)), (''_algorithm'', Text (jwt_algorithm S))]"
| "holds S s x ConfigClass = []"
| "holds S s x InMemoryNotificationQueue = []"
| "holds S s x InMemoryEventQueue = []"
| "holds S s x _ = [(''session'', Ref x)]"

lemma made_holds:
  assumes "process_ok S s" and "made S s v f r" and "v get_session = Some x" and "provided_class f = Some c"
  shows "the_object s r = Some (Instance c (holds S s x c))"
  using assms by (cases f) (auto simp: process_ok_def on_session_def redis_event_queue_def)

lemma provider_has_class:
  "map_of DEPENDENCY_PROVIDERS p = Some f \<Longrightarrow> \<exists>c. provided_class f = Some c \<and> base_port c = p"
  by (auto simp: DEPENDENCY_PROVIDERS_def split: if_splits)

lemma factory_values:
  assumes "factory u v = Inr kwargs" and "(name, r) \<in> set kwargs"
  shows "\<exists>p f. (name, Some p) \<in> set (init_params u) \<and> map_of DEPENDENCY_PROVIDERS p = Some f \<and> r = v f"
proof -
  obtain fs where b: "build_use_case (init_params u) = Inr fs" and k: "kwargs = map (\<lambda>(name, p). (name, v p)) fs"
    using assms(1) by (auto simp: factory_def map_sum_def split: sum.splits)
  then obtain f where f: "(name, f) \<in> set fs" "r = v f" using assms(2) by auto
  with b [unfolded build_use_case_Inr] obtain a where a: "(name, a) \<in> set (init_params u)" "name \<noteq> ''self''"
    "f = the (map_of DEPENDENCY_PROVIDERS (the a))" by auto
  then obtain p g where "a = Some p" "map_of DEPENDENCY_PROVIDERS p = Some g"
    using b [unfolded build_use_case_Inr] by fastforce
  with a f show ?thesis by auto
qed

lemma factory_tx: "factory u v = Inr kwargs \<Longrightarrow> (''tx'', v get_transaction) \<in> set kwargs"
  by (cases u) (auto simp: factory_def init_params_defs DEPENDENCY_PROVIDERS_def)

text \<open>C40: One session for each request. However the provider calls of any number of requests alternate, the arguments of a
  use case's constructor are instances of classes that inherit the ports of its parameters; its
  transaction and all its repositories hold one database session, which no other request has been given, of the
  one engine with the URL of the settings; its publisher holds the queue whose client and key are those that the events page reads from, and
  issuer and verifier of access tokens share secret and algorithm.\<close>

theorem one_session_for_each_request:
  assumes "fastapi_calls [] calls" and "call_all S calls (import_nexus S) (\<lambda>n p. None) = (s, got)"
    and "factory u (got n) = Inr kwargs" and "None \<notin> snd ` set kwargs"
  shows "\<exists>x. the_object s x = Some (AsyncSession (async_session_factory s))
    \<and> the_object s (async_session_factory s) = Some (make_session_factory (engine_obj s))
    \<and> the_object s (engine_obj s) = Some (make_engine S)
    \<and> got n get_session = Some x \<and> (\<forall>m. got m get_session = Some x \<longrightarrow> m = n)
    \<and> (\<forall>(name, r) \<in> set kwargs. \<exists>p c a. (name, Some p) \<in> set (init_params u) \<and> base_port c = p
        \<and> r = Some a \<and> the_object s a = Some (Instance c (holds S s x c)))
    \<and> the_object s (event_queue_obj s) = Some (redis_event_queue (redis_client_obj s) DEFAULT_KEY)
    \<and> the_object s (redis_client_obj s) = Some (make_redis_client S)
    \<and> (\<forall>m q. got m get_event_queue = Some q \<longrightarrow> q = event_queue_obj s)"
proof -
  have g: "given_ok S (rev calls) s got" by (rule served_ok [OF assms(1,2)])
  then have i: "process_ok S s" and m: "\<And>k p r. got k p = Some r \<Longrightarrow> made S s (got k) p r" by (simp_all add: given_ok_def)
  have "got n get_transaction \<noteq> None" using factory_tx [OF assms(3)] assms(4) by force
  then obtain x where x: "got n get_session = Some x" using m by (fastforce simp: on_session_def)
  have k: "\<exists>p c a. (name, Some p) \<in> set (init_params u) \<and> base_port c = p
      \<and> r = Some a \<and> the_object s a = Some (Instance c (holds S s x c))" if k: "(name, r) \<in> set kwargs" for name r
  proof -
    from factory_values [OF assms(3) k] obtain p f where p: "(name, Some p) \<in> set (init_params u)"
      "map_of DEPENDENCY_PROVIDERS p = Some f" "r = got n f" by blast
    moreover obtain a where "r = Some a" using k assms(4) by (cases r) force+
    ultimately show ?thesis using provider_has_class [OF p(2)] made_holds [OF i m x] by metis
  qed
  have u: "\<forall>m. got m get_session = Some x \<longrightarrow> m = n" using g x unfolding given_ok_def by blast
  have q: "\<forall>m q. got m get_event_queue = Some q \<longrightarrow> q = event_queue_obj s" using m by fastforce
  have a: "the_object s x = Some (AsyncSession (async_session_factory s))" using m [OF x] by simp
  have b: "\<forall>(name, r) \<in> set kwargs. \<exists>p c a. (name, Some p) \<in> set (init_params u) \<and> base_port c = p
      \<and> r = Some a \<and> the_object s a = Some (Instance c (holds S s x c))" by (rule ballI, clarify, rule k)
  show ?thesis
    by (rule exI [of _ x], intro conjI) (rule a x b u q | use i in \<open>simp add: process_ok_def\<close>)+
qed

theorem one_session_for_each_request_witness:
  "\<exists>s (got :: nat \<Rightarrow> provider \<Rightarrow> ref option) kwargs. factory LoginUserCase (got 0) = Inr kwargs \<and> length kwargs = 6
    \<and> (\<exists>x. got 0 get_session = Some x \<and> got 1 get_session \<noteq> Some x \<and> got 1 get_session \<noteq> None
      \<and> the_object s x = Some (AsyncSession (async_session_factory s)))"
proof -
  let ?S = "default_settings ''auth'' ''auth'' ''secret'' ''localhost'' 5432"
  let ?calls = "[(0, get_session), (1, get_session), (0, get_transaction), (0, get_user_repo), (1, get_transaction),
    (0, get_refresh_token_repo), (0, get_config), (0, get_event_queue), (0, get_notification_queue),
    (1, get_refresh_token_repo), (0, get_event_publisher), (0, get_access_token_issuer)]"
  obtain s got where c: "call_all ?S ?calls (import_nexus ?S) (\<lambda>n p. None) = (s, got)" by fastforce
  have f: "fastapi_calls [] ?calls" by simp
  have n: "\<forall>(n, p) \<in> set ?calls. got n p \<noteq> None" using served_ok [OF f c] unfolding given_ok_def by auto
  obtain kwargs where k: "factory LoginUserCase (got 0) = Inr kwargs" and l: "length kwargs = 6" "None \<notin> snd ` set kwargs"
    using n by (fastforce simp: factory_def init_params_defs DEPENDENCY_PROVIDERS_def)
  from one_session_for_each_request [OF f c k l(2)] obtain x where
    "got 0 get_session = Some x" "\<forall>m. got m get_session = Some x \<longrightarrow> m = 0"
    "the_object s x = Some (AsyncSession (async_session_factory s))" by blast
  moreover from this(2) have "got 1 get_session \<noteq> Some x" by auto
  moreover have "got 1 get_session \<noteq> None" using n by simp
  ultimately show ?thesis using k l(1)
    by (intro exI [of _ s] exI [of _ got] exI [of _ kwargs] exI [of _ x] conjI)
qed

end
