(* ===== verification/Migrations.thy ===== *)
theory Migrations
  imports Prelude
begin

text \<open>
  \<^verbatim>\<open>migrations/versions\<close> and \<^verbatim>\<open>migrations/env.py\<close>: the schema as Alembic's operations build
  it, revision by revision, and the schema that the ORM models declare. A table has columns, a primary
  key, foreign keys, indexes and a number of rows; what the rows hold is in the theory \<open>Database\<close>.
\<close>

section \<open>Schemas\<close>

datatype sql_type = UUID_t | String_t nat | Boolean_t | DateTime_t | Integer_t | INET_t | JSONB_t

text \<open>A column: name, type, \<open>nullable\<close>.\<close>

datatype column = Column string sql_type bool

text \<open>Columns, the table and the columns they refer to, and whether \<open>ondelete='CASCADE'\<close> is set.\<close>

datatype foreign_key = ForeignKey string "string list" string "string list" bool

text \<open>Name, columns, \<open>unique\<close>.\<close>

datatype index = Index string "string list" bool

record table =
  t_columns :: "column list"
  t_primary_key :: "string list"
  t_foreign_keys :: "foreign_key list"
  t_indexes :: "index list"
  t_rows :: nat

type_synonym schema = "(string \<times> table) list"

fun column_name :: "column \<Rightarrow> string" where
  "column_name (Column n _ _) = n"

fun column_nullable :: "column \<Rightarrow> bool" where
  "column_nullable (Column _ _ b) = b"

fun fk_name :: "foreign_key \<Rightarrow> string" where
  "fk_name (ForeignKey n _ _ _ _) = n"

fun fk_table :: "foreign_key \<Rightarrow> string" where
  "fk_table (ForeignKey _ _ r _ _) = r"

fun fk_columns :: "foreign_key \<Rightarrow> string list" where
  "fk_columns (ForeignKey _ cs _ _ _) = cs"

fun fk_referred :: "foreign_key \<Rightarrow> string list" where
  "fk_referred (ForeignKey _ _ _ rcs _) = rcs"

fun index_name :: "index \<Rightarrow> string" where
  "index_name (Index n _ _) = n"

fun index_columns :: "index \<Rightarrow> string list" where
  "index_columns (Index _ cs _) = cs"



section \<open>Operations\<close>

text \<open>
  The operations of Alembic that the revisions use, with PostgreSQL's refusals. A foreign key
  without a name gets the default one, table and column followed by \<open>_fkey\<close>.
\<close>

datatype ddl_error =
    DuplicateTable
  | UndefinedTable
  | DuplicateColumn
  | UndefinedColumn
  | DuplicateObject
  | UndefinedObject
  | DependentObjectsStillExist
  | NotNullViolation

datatype ddl =
    create_table string "column list" "(string list \<times> string \<times> string list) list" "string list"
  | drop_table string
  | create_index string string "string list" bool
  | drop_index string string
  | add_column string column
  | drop_column string string
  | drop_constraint string string
  | create_foreign_key string string string "string list" "string list" bool

definition default_fk :: "string \<Rightarrow> string list \<times> string \<times> string list \<Rightarrow> foreign_key" where
  "default_fk table k =
    (case k of (cs, r, rcs) \<Rightarrow> ForeignKey (table @ concat (map (\<lambda>c. ''_'' @ c) cs) @ ''_fkey'') cs r rcs False)"

text \<open>Tables and indexes share one name space.\<close>

definition index_names :: "schema \<Rightarrow> string list" where
  "index_names s = concat (map (\<lambda>(n, t). map index_name (t_indexes t)) s)"

fun update_table :: "string \<Rightarrow> (table \<Rightarrow> table) \<Rightarrow> schema \<Rightarrow> schema" where
  "update_table n f [] = []"
| "update_table n f ((m, t) # s) = (if m = n then (m, f t) # s else (m, t) # update_table n f s)"

definition alter :: "string \<Rightarrow> (table \<Rightarrow> ddl_error option) \<Rightarrow> (table \<Rightarrow> table) \<Rightarrow> schema \<Rightarrow> ddl_error + schema" where
  "alter n refuse f s =
    (case map_of s n of
       None \<Rightarrow> Inl UndefinedTable
     | Some t \<Rightarrow> (case refuse t of Some e \<Rightarrow> Inl e | None \<Rightarrow> Inr (update_table n f s)))"

fun apply_ddl :: "ddl \<Rightarrow> schema \<Rightarrow> ddl_error + schema" where
  "apply_ddl (create_table n cs fks pk) s =
    (if map_of s n \<noteq> None \<or> n \<in> set (index_names s) then Inl DuplicateTable
     else if list_ex (\<lambda>(_, r, _). r \<noteq> n \<and> map_of s r = None) fks then Inl UndefinedTable
     else Inr (s @ [(n, \<lparr>t_columns = cs, t_primary_key = pk, t_foreign_keys = map (default_fk n) fks,
                         t_indexes = [], t_rows = 0\<rparr>)]))"
| "apply_ddl (drop_table n) s =
    (if map_of s n = None then Inl UndefinedTable
     else if list_ex (\<lambda>(m, t). m \<noteq> n \<and> list_ex (\<lambda>k. fk_table k = n) (t_foreign_keys t)) s
     then Inl DependentObjectsStillExist
     else Inr (filter (\<lambda>(m, t). m \<noteq> n) s))"
| "apply_ddl (create_index i n cs u) s =
    (if map_of s i \<noteq> None \<or> i \<in> set (index_names s) then Inl DuplicateObject
     else alter n (\<lambda>t. if list_all (\<lambda>c. c \<in> set (map column_name (t_columns t))) cs then None
                       else Some UndefinedColumn)
            (\<lambda>t. t\<lparr>t_indexes := t_indexes t @ [Index i cs u]\<rparr>) s)"
| "apply_ddl (drop_index i n) s =
    (if i \<notin> set (index_names s) then Inl UndefinedObject
     else Inr (map (\<lambda>(m, t). (m, t\<lparr>t_indexes := filter (\<lambda>x. index_name x \<noteq> i) (t_indexes t)\<rparr>)) s))"
| "apply_ddl (add_column n c) s =
    alter n (\<lambda>t. if column_name c \<in> set (map column_name (t_columns t)) then Some DuplicateColumn
                 else if \<not> column_nullable c \<and> 0 < t_rows t then Some NotNullViolation else None)
      (\<lambda>t. t\<lparr>t_columns := t_columns t @ [c]\<rparr>) s"
| "apply_ddl (drop_column n c) s =
    (if list_ex (\<lambda>(m, t). list_ex (\<lambda>k. fk_table k = n \<and> c \<in> set (fk_referred k)) (t_foreign_keys t)) s
     then Inl DependentObjectsStillExist
     else alter n (\<lambda>t. if c \<in> set (map column_name (t_columns t)) then None else Some UndefinedColumn)
            (\<lambda>t. t\<lparr>t_columns := filter (\<lambda>x. column_name x \<noteq> c) (t_columns t),
                   t_foreign_keys := filter (\<lambda>k. c \<notin> set (fk_columns k)) (t_foreign_keys t),
                   t_indexes := filter (\<lambda>x. c \<notin> set (index_columns x)) (t_indexes t)\<rparr>) s)"
| "apply_ddl (drop_constraint k n) s =
    alter n (\<lambda>t. if k \<in> set (map fk_name (t_foreign_keys t)) then None else Some UndefinedObject)
      (\<lambda>t. t\<lparr>t_foreign_keys := filter (\<lambda>x. fk_name x \<noteq> k) (t_foreign_keys t)\<rparr>) s"
| "apply_ddl (create_foreign_key k n r cs rcs cascade) s =
    (if map_of s r = None then Inl UndefinedTable
     else alter n (\<lambda>t. if k \<in> set (map fk_name (t_foreign_keys t)) then Some DuplicateObject else None)
            (\<lambda>t. t\<lparr>t_foreign_keys := t_foreign_keys t @ [ForeignKey k cs r rcs cascade]\<rparr>) s)"

fun run_ddl :: "ddl list \<Rightarrow> schema \<Rightarrow> ddl_error + schema" where
  "run_ddl [] s = Inr s"
| "run_ddl (c # cs) s = (case apply_ddl c s of Inl e \<Rightarrow> Inl e | Inr s' \<Rightarrow> run_ddl cs s')"

section \<open>The revisions\<close>

definition upgrade_initial_tables :: "ddl list" where
  "upgrade_initial_tables =
    [create_table ''users''
       [Column ''id'' UUID_t False,
        Column ''email'' (String_t 255) False,
        Column ''is_email_verified'' Boolean_t False,
        Column ''password_hash'' (String_t 255) False,
        Column ''username'' (String_t 50) False,
        Column ''active'' Boolean_t False,
        Column ''created_at'' DateTime_t False]
       [] [''id''],
     create_index ''ix_users_email'' ''users'' [''email''] True,
     create_index ''ix_users_id'' ''users'' [''id''] False,
     create_table ''email_tokens''
       [Column ''used'' Boolean_t False,
        Column ''id'' UUID_t False,
        Column ''token_hash'' (String_t 255) False,
        Column ''user_id'' UUID_t False,
        Column ''expires_at'' DateTime_t False]
       [([''user_id''], ''users'', [''id''])] [''id''],
     create_index ''ix_email_tokens_token_hash'' ''email_tokens'' [''token_hash''] False,
     create_index ''ix_email_tokens_user_id'' ''email_tokens'' [''user_id''] False,
     create_table ''password_reset_tokens''
       [Column ''used'' Boolean_t False,
        Column ''id'' UUID_t False,
        Column ''token_hash'' (String_t 255) False,
        Column ''user_id'' UUID_t False,
        Column ''expires_at'' DateTime_t False]
       [([''user_id''], ''users'', [''id''])] [''id''],
     create_index ''ix_password_reset_tokens_token_hash'' ''password_reset_tokens'' [''token_hash''] False,
     create_index ''ix_password_reset_tokens_user_id'' ''password_reset_tokens'' [''user_id''] False,
     create_table ''refresh_tokens''
       [Column ''revoked_at'' DateTime_t True,
        Column ''replaced_by_id'' UUID_t True,
        Column ''created_at'' DateTime_t False,
        Column ''id'' UUID_t False,
        Column ''token_hash'' (String_t 255) False,
        Column ''user_id'' UUID_t False,
        Column ''expires_at'' DateTime_t False]
       [([''user_id''], ''users'', [''id''])] [''id''],
     create_index ''ix_refresh_tokens_token_hash'' ''refresh_tokens'' [''token_hash''] False,
     create_index ''ix_refresh_tokens_user_id'' ''refresh_tokens'' [''user_id''] False,
     create_table ''security_events''
       [Column ''id'' UUID_t False,
        Column ''user_id'' UUID_t False,
        Column ''event_type'' (String_t 255) False,
        Column ''ip_address'' INET_t True,
        Column ''user_agent'' (String_t 512) True,
        Column ''created_at'' DateTime_t False]
       [([''user_id''], ''users'', [''id''])] [''id''],
     create_index ''ix_security_events_id'' ''security_events'' [''id''] False,
     create_index ''ix_security_events_user_id'' ''security_events'' [''user_id''] False,
     create_table ''sent_emails''
       [Column ''id'' UUID_t False,
        Column ''user_id'' UUID_t False,
        Column ''email_type'' (String_t 255) False,
        Column ''email'' (String_t 255) False,
        Column ''payload'' JSONB_t False,
        Column ''sent_at'' DateTime_t True]
       [([''user_id''], ''users'', [''id''])] [''id''],
     create_index ''ix_sent_emails_id'' ''sent_emails'' [''id''] False,
     create_index ''ix_sent_emails_user_id'' ''sent_emails'' [''user_id''] False]"

definition downgrade_initial_tables :: "ddl list" where
  "downgrade_initial_tables =
    [drop_index ''ix_sent_emails_user_id'' ''sent_emails'',
     drop_index ''ix_sent_emails_id'' ''sent_emails'',
     drop_table ''sent_emails'',
     drop_index ''ix_security_events_user_id'' ''security_events'',
     drop_index ''ix_security_events_id'' ''security_events'',
     drop_table ''security_events'',
     drop_index ''ix_refresh_tokens_user_id'' ''refresh_tokens'',
     drop_index ''ix_refresh_tokens_token_hash'' ''refresh_tokens'',
     drop_table ''refresh_tokens'',
     drop_index ''ix_password_reset_tokens_user_id'' ''password_reset_tokens'',
     drop_index ''ix_password_reset_tokens_token_hash'' ''password_reset_tokens'',
     drop_table ''password_reset_tokens'',
     drop_index ''ix_email_tokens_user_id'' ''email_tokens'',
     drop_index ''ix_email_tokens_token_hash'' ''email_tokens'',
     drop_table ''email_tokens'',
     drop_index ''ix_users_id'' ''users'',
     drop_index ''ix_users_email'' ''users'',
     drop_table ''users'']"

definition upgrade_rename_reset_tokens :: "ddl list" where
  "upgrade_rename_reset_tokens =
    [create_table ''password_recover_tokens''
       [Column ''used'' Boolean_t False,
        Column ''id'' UUID_t False,
        Column ''token_hash'' (String_t 255) False,
        Column ''user_id'' UUID_t False,
        Column ''expires_at'' DateTime_t False]
       [([''user_id''], ''users'', [''id''])] [''id''],
     create_index ''ix_password_recover_tokens_token_hash'' ''password_recover_tokens'' [''token_hash''] False,
     create_index ''ix_password_recover_tokens_user_id'' ''password_recover_tokens'' [''user_id''] False,
     drop_index ''ix_password_reset_tokens_token_hash'' ''password_reset_tokens'',
     drop_index ''ix_password_reset_tokens_user_id'' ''password_reset_tokens'',
     drop_table ''password_reset_tokens'']"

definition downgrade_rename_reset_tokens :: "ddl list" where
  "downgrade_rename_reset_tokens =
    [create_table ''password_reset_tokens''
       [Column ''used'' Boolean_t False,
        Column ''id'' UUID_t False,
        Column ''token_hash'' (String_t 255) False,
        Column ''user_id'' UUID_t False,
        Column ''expires_at'' DateTime_t False]
       [([''user_id''], ''users'', [''id''])] [''id''],
     create_index ''ix_password_reset_tokens_user_id'' ''password_reset_tokens'' [''user_id''] False,
     create_index ''ix_password_reset_tokens_token_hash'' ''password_reset_tokens'' [''token_hash''] False,
     drop_index ''ix_password_recover_tokens_user_id'' ''password_recover_tokens'',
     drop_index ''ix_password_recover_tokens_token_hash'' ''password_recover_tokens'',
     drop_table ''password_recover_tokens'']"

definition upgrade_remove_username :: "ddl list" where
  "upgrade_remove_username =
    [drop_column ''users'' ''username'']"

definition downgrade_remove_username :: "ddl list" where
  "downgrade_remove_username =
    [add_column ''users'' (Column ''username'' (String_t 50) False)]"

definition upgrade_restructure_tables :: "ddl list" where
  "upgrade_restructure_tables =
    [create_table ''one_time_tokens''
       [Column ''used'' Boolean_t False,
        Column ''purpose'' (String_t 255) False,
        Column ''id'' UUID_t False,
        Column ''token_hash'' (String_t 255) False,
        Column ''user_id'' UUID_t False,
        Column ''expires_at'' DateTime_t False]
       [([''user_id''], ''users'', [''id''])] [''id''],
     create_index ''ix_one_time_tokens_token_hash'' ''one_time_tokens'' [''token_hash''] False,
     create_index ''ix_one_time_tokens_user_id'' ''one_time_tokens'' [''user_id''] False,
     drop_index ''ix_password_recover_tokens_token_hash'' ''password_recover_tokens'',
     drop_index ''ix_password_recover_tokens_user_id'' ''password_recover_tokens'',
     drop_table ''password_recover_tokens'',
     drop_index ''ix_security_events_id'' ''security_events'',
     drop_index ''ix_security_events_user_id'' ''security_events'',
     drop_table ''security_events'',
     drop_index ''ix_sent_emails_id'' ''sent_emails'',
     drop_index ''ix_sent_emails_user_id'' ''sent_emails'',
     drop_table ''sent_emails'',
     drop_index ''ix_email_tokens_token_hash'' ''email_tokens'',
     drop_index ''ix_email_tokens_user_id'' ''email_tokens'',
     drop_table ''email_tokens'']"

definition downgrade_restructure_tables :: "ddl list" where
  "downgrade_restructure_tables =
    [create_table ''email_tokens''
       [Column ''used'' Boolean_t False,
        Column ''id'' UUID_t False,
        Column ''token_hash'' (String_t 255) False,
        Column ''user_id'' UUID_t False,
        Column ''expires_at'' DateTime_t False]
       [([''user_id''], ''users'', [''id''])] [''id''],
     create_index ''ix_email_tokens_user_id'' ''email_tokens'' [''user_id''] False,
     create_index ''ix_email_tokens_token_hash'' ''email_tokens'' [''token_hash''] False,
     create_table ''sent_emails''
       [Column ''id'' UUID_t False,
        Column ''user_id'' UUID_t False,
        Column ''email_type'' (String_t 255) False,
        Column ''email'' (String_t 255) False,
        Column ''payload'' JSONB_t False,
        Column ''sent_at'' DateTime_t True]
       [([''user_id''], ''users'', [''id''])] [''id''],
     create_index ''ix_sent_emails_user_id'' ''sent_emails'' [''user_id''] False,
     create_index ''ix_sent_emails_id'' ''sent_emails'' [''id''] False,
     create_table ''security_events''
       [Column ''id'' UUID_t False,
        Column ''user_id'' UUID_t False,
        Column ''event_type'' (String_t 255) False,
        Column ''ip_address'' INET_t True,
        Column ''user_agent'' (String_t 512) True,
        Column ''created_at'' DateTime_t False]
       [([''user_id''], ''users'', [''id''])] [''id''],
     create_index ''ix_security_events_user_id'' ''security_events'' [''user_id''] False,
     create_index ''ix_security_events_id'' ''security_events'' [''id''] False,
     create_table ''password_recover_tokens''
       [Column ''used'' Boolean_t False,
        Column ''id'' UUID_t False,
        Column ''token_hash'' (String_t 255) False,
        Column ''user_id'' UUID_t False,
        Column ''expires_at'' DateTime_t False]
       [([''user_id''], ''users'', [''id''])] [''id''],
     create_index ''ix_password_recover_tokens_user_id'' ''password_recover_tokens'' [''user_id''] False,
     create_index ''ix_password_recover_tokens_token_hash'' ''password_recover_tokens'' [''token_hash''] False,
     drop_index ''ix_one_time_tokens_user_id'' ''one_time_tokens'',
     drop_index ''ix_one_time_tokens_token_hash'' ''one_time_tokens'',
     drop_table ''one_time_tokens'']"

definition upgrade_add_versions :: "ddl list" where
  "upgrade_add_versions =
    [add_column ''one_time_tokens'' (Column ''version'' Integer_t False),
     add_column ''refresh_tokens'' (Column ''version'' Integer_t False),
     add_column ''users'' (Column ''version'' Integer_t False)]"

definition downgrade_add_versions :: "ddl list" where
  "downgrade_add_versions =
    [drop_column ''users'' ''version'',
     drop_column ''refresh_tokens'' ''version'',
     drop_column ''one_time_tokens'' ''version'']"

definition upgrade_cascade_fks :: "ddl list" where
  "upgrade_cascade_fks =
    [drop_constraint ''one_time_tokens_user_id_fkey'' ''one_time_tokens'',
     create_foreign_key ''one_time_tokens_user_id_fkey'' ''one_time_tokens'' ''users'' [''user_id''] [''id''] True,
     drop_constraint ''refresh_tokens_user_id_fkey'' ''refresh_tokens'',
     create_foreign_key ''refresh_tokens_user_id_fkey'' ''refresh_tokens'' ''users'' [''user_id''] [''id''] True]"

definition downgrade_cascade_fks :: "ddl list" where
  "downgrade_cascade_fks =
    [drop_constraint ''refresh_tokens_user_id_fkey'' ''refresh_tokens'',
     create_foreign_key ''refresh_tokens_user_id_fkey'' ''refresh_tokens'' ''users'' [''user_id''] [''id''] False,
     drop_constraint ''one_time_tokens_user_id_fkey'' ''one_time_tokens'',
     create_foreign_key ''one_time_tokens_user_id_fkey'' ''one_time_tokens'' ''users'' [''user_id''] [''id''] False]"

text \<open>\<open>revision\<close>, \<open>down_revision\<close>, \<open>upgrade\<close> and \<open>downgrade\<close> of each file of \<^verbatim>\<open>versions\<close>.\<close>

record revision =
  revision_id :: string
  down_revision :: "string option"
  rev_upgrade :: "ddl list"
  rev_downgrade :: "ddl list"

definition versions :: "revision list" where
  "versions =
    [\<lparr>revision_id = ''364c0924848c'', down_revision = Some ''f5c23607d425'',
      rev_upgrade = upgrade_restructure_tables, rev_downgrade = downgrade_restructure_tables\<rparr>,
     \<lparr>revision_id = ''4a5651fa4918'', down_revision = Some ''abdf4009ef15'',
      rev_upgrade = upgrade_rename_reset_tokens, rev_downgrade = downgrade_rename_reset_tokens\<rparr>,
     \<lparr>revision_id = ''4dd9b045d9d8'', down_revision = Some ''5a61177eee13'',
      rev_upgrade = upgrade_cascade_fks, rev_downgrade = downgrade_cascade_fks\<rparr>,
     \<lparr>revision_id = ''5a61177eee13'', down_revision = Some ''364c0924848c'',
      rev_upgrade = upgrade_add_versions, rev_downgrade = downgrade_add_versions\<rparr>,
     \<lparr>revision_id = ''abdf4009ef15'', down_revision = None,
      rev_upgrade = upgrade_initial_tables, rev_downgrade = downgrade_initial_tables\<rparr>,
     \<lparr>revision_id = ''f5c23607d425'', down_revision = Some ''4a5651fa4918'',
      rev_upgrade = upgrade_remove_username, rev_downgrade = downgrade_remove_username\<rparr>]"

text \<open>
  A database under Alembic: the revision it is at (\<open>alembic_version\<close>) and its schema.
  \<open>alembic upgrade head\<close> follows the revisions from the current one; there are no more
  steps than revisions, which bounds the recursion. \<^verbatim>\<open>env.py\<close> runs all of them in one transaction.
\<close>

type_synonym migrated = "string option \<times> schema"

definition next_revision :: "string option \<Rightarrow> revision option" where
  "next_revision cur = List.find (\<lambda>r. down_revision r = cur) versions"

fun upgrade_steps :: "nat \<Rightarrow> migrated \<Rightarrow> ddl_error + migrated" where
  "upgrade_steps 0 m = Inr m"
| "upgrade_steps (Suc n) (cur, s) =
    (case next_revision cur of
       None \<Rightarrow> Inr (cur, s)
     | Some r \<Rightarrow> (case run_ddl (rev_upgrade r) s of Inl e \<Rightarrow> Inl e | Inr s' \<Rightarrow> upgrade_steps n (Some (revision_id r), s')))"


text \<open>\<open>with context.begin_transaction(): context.run_migrations()\<close>\<close>

definition run_migrations_online :: "migrated \<Rightarrow> (ddl_error + unit) \<times> migrated" where
  "run_migrations_online m =
    (case upgrade_steps (length versions) m of Inl e \<Rightarrow> (Inl e, m) | Inr m' \<Rightarrow> (Inr (), m'))"

section \<open>The schema that the models declare\<close>







lemmas revision_defs =
  upgrade_initial_tables_def downgrade_initial_tables_def
  upgrade_rename_reset_tokens_def downgrade_rename_reset_tokens_def
  upgrade_remove_username_def downgrade_remove_username_def
  upgrade_restructure_tables_def downgrade_restructure_tables_def
  upgrade_add_versions_def downgrade_add_versions_def
  upgrade_cascade_fks_def downgrade_cascade_fks_def

section \<open>Well-formed schemas\<close>



lemma update_table_names [simp]: "map fst (update_table n f s) = map fst s"
  by (induction n f s rule: update_table.induct) auto

lemma update_table_fst [simp]: "fst ` set (update_table n f s) = fst ` set s"
  by (metis list.set_map update_table_names)



lemma set_index_names: "set (index_names s) = (\<Union>(m, t) \<in> set s. index_name ` set (t_indexes t))"
  by (auto simp: index_names_def)












section \<open>What the migrations make\<close>

text \<open>The schema with a number of rows for each table.\<close>

definition with_rows :: "(string \<Rightarrow> nat) \<Rightarrow> schema \<Rightarrow> schema" where
  "with_rows f s = map (\<lambda>(n, t). (n, t\<lparr>t_rows := f n\<rparr>)) s"

definition at_revision :: "nat \<Rightarrow> migrated" where
  "at_revision k = (case upgrade_steps k (None, []) of Inl e \<Rightarrow> (None, []) | Inr m \<Rightarrow> m)"





lemma at_revision_4:
  "at_revision 4 =
    (Some ''364c0924848c'',
     [(''users'',
       \<lparr>t_columns =
          [Column ''id'' UUID_t False, Column ''email'' (String_t 255) False,
           Column ''is_email_verified'' Boolean_t False,
           Column ''password_hash'' (String_t 255) False,
           Column ''active'' Boolean_t False,
           Column ''created_at'' DateTime_t False],
          t_primary_key = [''id''], t_foreign_keys = [],
          t_indexes =
            [Index ''ix_users_email'' [''email''] True,
             Index ''ix_users_id'' [''id''] False],
          t_rows = 0\<rparr>),
      (''refresh_tokens'',
       \<lparr>t_columns =
          [Column ''revoked_at'' DateTime_t True,
           Column ''replaced_by_id'' UUID_t True,
           Column ''created_at'' DateTime_t False, Column ''id'' UUID_t False,
           Column ''token_hash'' (String_t 255) False,
           Column ''user_id'' UUID_t False,
           Column ''expires_at'' DateTime_t False],
          t_primary_key = [''id''],
          t_foreign_keys =
            [ForeignKey ''refresh_tokens_user_id_fkey'' [''user_id''] ''users''
              [''id''] False],
          t_indexes =
            [Index ''ix_refresh_tokens_token_hash'' [''token_hash''] False,
             Index ''ix_refresh_tokens_user_id'' [''user_id''] False],
          t_rows = 0\<rparr>),
      (''one_time_tokens'',
       \<lparr>t_columns =
          [Column ''used'' Boolean_t False,
           Column ''purpose'' (String_t 255) False, Column ''id'' UUID_t False,
           Column ''token_hash'' (String_t 255) False,
           Column ''user_id'' UUID_t False,
           Column ''expires_at'' DateTime_t False],
          t_primary_key = [''id''],
          t_foreign_keys =
            [ForeignKey ''one_time_tokens_user_id_fkey'' [''user_id'']
              ''users'' [''id''] False],
          t_indexes =
            [Index ''ix_one_time_tokens_token_hash'' [''token_hash''] False,
             Index ''ix_one_time_tokens_user_id'' [''user_id''] False],
          t_rows = 0\<rparr>)])"
  by code_simp

text \<open>The revision that adds the versions needs empty tables: its columns are not null and have no default. From the
  schema before it, whatever the numbers of rows, the upgrade succeeds exactly when there is no user and no token.\<close>

lemma versions_need_empty_tables:
  "fst (run_migrations_online (fst (at_revision 4), with_rows f (snd (at_revision 4)))) =
     (if f ''one_time_tokens'' = 0 \<and> f ''refresh_tokens'' = 0 \<and> f ''users'' = 0 then Inr () else Inl NotNullViolation)"
  unfolding at_revision_4 with_rows_def run_migrations_online_def
  by (simp add: versions_def next_revision_def numeral_nat upgrade_add_versions_def upgrade_cascade_fks_def alter_def)

end
