(* ===== verification/MigrationEnv.thy ===== *)
theory MigrationEnv
  imports Migrations Config Exceptions
begin

text \<open>
  \<^verbatim>\<open>migrations/env.py\<close> as it is run: it puts the URL of the settings into Alembic's configuration and
  runs the migrations. The configuration is a \<open>ConfigParser\<close>, whose \<open>set\<close> reads a percent sign in a value as the
  start of an interpolation and refuses one that is not.
\<close>


















end
