(* ===== verification/Components.thy ===== *)
theory Components
  imports DemoRuns Concurrency Announcements Conflicts Serializability Infrastructure MigrationEnv
begin

text \<open>
  What each component promises on its own: validators, token texts, entities, the security
  policy, access tokens, the repositories, the event queue and the wiring.
\<close>

section \<open>Validators and texts of tokens\<close>

text \<open>The address validator accepts a text exactly when, stripped and in lower case, it has the shape of an address.\<close>

lemma email_normal_form:
  "(validate_email v = Inr e \<longleftrightarrow> (\<exists>s. v = PyStr s \<and> e = py_lower (py_strip s) \<and> email_shape e))
   \<and> (validate_email v = Inr e \<longrightarrow> validate_email (PyStr e) = Inr e)
   \<and> (validate_email v = Inl x \<longrightarrow> (\<exists>m. x = AppError EmailValidationError m))"
proof (intro conjI)
  show "validate_email v = Inr e \<longleftrightarrow> (\<exists>s. v = PyStr s \<and> e = py_lower (py_strip s) \<and> email_shape e)"
  proof -
    have n: "\<not> email_shape (py_lower (py_strip []))"
      by (auto simp: py_strip_def py_lower_def dest: email_shape_nonempty)
    have "s \<noteq> []" if "email_shape (py_lower (py_strip s))" for s
    proof
      assume "s = []"
      with that n show False by simp
    qed
    then show ?thesis unfolding validate_email_Inr by blast
  qed
  show "validate_email v = Inr e \<longrightarrow> validate_email (PyStr e) = Inr e" by (intro impI validate_email_idem)
  show "validate_email v = Inl x \<longrightarrow> (\<exists>m. x = AppError EmailValidationError m)"
    by (intro impI validate_email_Inl)
qed

lemma password_normal_form:
  "(validate_password w = Inr p \<longleftrightarrow> (\<exists>s. w = PyStr s \<and> p = py_strip s \<and> length p \<in> {8..255}))
   \<and> (validate_password w = Inr p \<longrightarrow> validate_password (PyStr p) = Inr p)
   \<and> (validate_password w = Inl x \<longrightarrow> (\<exists>m. x = AppError PasswordValidationError m))"
  using validate_password_idem validate_password_Inl by (auto simp: validate_password_Inr)

text \<open>C26: The address validator accepts a text exactly when, stripped and in lower case, it is a nonempty
  local part, one \<open>@\<close>, and a domain with a dot inside; it returns that normal form, which it maps to
  itself, and rejects everything else with \<open>EmailValidationError\<close>. The password validator accepts exactly the texts
  that have 8 to 255 characters once stripped, and returns them stripped, which changes nothing a second time; everything
  else is a \<open>PasswordValidationError\<close>.\<close>

theorem validators_give_normal_forms:
  "(validate_email v = Inr e \<longleftrightarrow> (\<exists>s. v = PyStr s \<and> e = py_lower (py_strip s) \<and> email_shape e))
   \<and> (validate_email v = Inr e \<longrightarrow> validate_email (PyStr e) = Inr e)
   \<and> (validate_email v = Inl x \<longrightarrow> (\<exists>m. x = AppError EmailValidationError m))
   \<and> (validate_password w = Inr p \<longleftrightarrow> (\<exists>s. w = PyStr s \<and> p = py_strip s \<and> length p \<in> {8..255}))
   \<and> (validate_password w = Inr p \<longrightarrow> validate_password (PyStr p) = Inr p)
   \<and> (validate_password w = Inl y \<longrightarrow> (\<exists>m. y = AppError PasswordValidationError m))"
  using email_normal_form [of v e x] password_normal_form [of w p y] by simp

theorem validators_give_normal_forms_witness:
  "validate_email (PyStr '' Alice@Mail.Org '') = Inr ''alice@mail.org'' \<and> email_shape ''alice@mail.org''
    \<and> validate_password (PyStr ''  secret-8  '') = Inr ''secret-8'' \<and> validate_password (PyStr ''secret-8'') = Inr ''secret-8''"
proof -
  have v: "validate_email (PyStr '' Alice@Mail.Org '') = Inr ''alice@mail.org''" by code_simp
  have w: "validate_password (PyStr ''  secret-8  '') = Inr ''secret-8''" by code_simp
  from validators_give_normal_forms [of "PyStr '' Alice@Mail.Org ''" "''alice@mail.org''" _ "PyStr ''  secret-8  ''" "''secret-8''"] v w
  show ?thesis by blast
qed

text \<open>A new user can log in with the password of the registration, stripped, provided that bcrypt checks what it hashed.\<close>

lemma created_user_has_password:
  fixes w w' v :: "'w world_scheme"
  assumes "bcrypt_checks E" and "user_create E em (PyStr q) w = (Inr u, w')"
  shows "user_verify_password E u (py_strip q) v = (Inr True, v) \<and> length (py_strip q) \<in> {8..255}"
proof -
  from assms(2) obtain w1 w2 :: "'w world_scheme" where h: "validate_hash_password E (PyStr q) w1 = (Inr (u_password_hash u), w2)"
    by (auto simp: user_create_def run_simps split: sum.splits prod.splits)
  then obtain p salt where p: "validate_password (PyStr q) = Inr p"
    and b: "bcrypt_hashpw E (utf8_encode p) salt = Some (utf8_encode (u_password_hash u))"
    by (rule validate_hash_password_Inr)
  from assms(1) b have "bcrypt_checkpw E (utf8_encode p) (utf8_encode (u_password_hash u)) = Some True"
    unfolding bcrypt_checks_def by blast
  with p show ?thesis by (auto simp: validate_password_Inr user_verify_password_def run_simps)
qed

lemma created_user_has_password_example:
  "\<exists>u w'. user_create demo_sys (PyStr ''carol@mail.org'') (PyStr '' carol-password'') demo_world = (Inr u, w')
    \<and> user_verify_password demo_sys u ''carol-password'' w' = (Inr True, w')"
proof -
  have m: "validate_email (PyStr ''carol@mail.org'') = Inr ''carol@mail.org''"
    and p: "validate_password (PyStr '' carol-password'') = Inr ''carol-password''"
    and s: "py_strip '' carol-password'' = ''carol-password''" by code_simp+
  have g: "gensalt_at demo_sys t = []" for t by (simp add: demo_sys_def)
  have "demo_hashpw (utf8_encode ''carol-password'') [] = Some (utf8_encode ''carol-password'')" by code_simp
  then obtain u w' where c: "user_create demo_sys (PyStr ''carol@mail.org'') (PyStr '' carol-password'') demo_world = (Inr u, w')"
    using m p by (auto simp: user_create_def run_simps validate_hash_password_run hash_password_cases Let_def
        g utf8_decode_encode)
  from created_user_has_password [OF demo_bcrypt(1) c] c s show ?thesis by auto
qed

text \<open>The text of a generated token: for \<open>n\<close> bytes it has \<open>(4 n + 2) div 3\<close> characters of the URL-safe
  alphabet, different bytes give different texts, and what is stored of it is 64 hexadecimal digits; a
  negative length is refused.\<close>

lemma generated_token_text:
  "(case generate_token E n w of
      (Inl x, w') \<Rightarrow> n < 0 \<and> x = LibError ValueError
    | (Inr s, w') \<Rightarrow> 0 \<le> n \<and> int (length s) = (4 * n + 2) div 3 \<and> set s \<subseteq> set b64_alphabet
        \<and> length (hash_token s) = 64 \<and> set (hash_token s) \<subseteq> set hex_alphabet)
   \<and> (b64_token bs = b64_token cs \<longleftrightarrow> bs = cs)"
proof -
  have "int ((4 * nat n + 2) div 3) = (4 * n + 2) div 3" if "0 \<le> n"
    using that by (simp add: zdiv_int)
  then show ?thesis
    using set_b64_token set_hash_token by (auto simp: run_generate_token length_b64_token dest: b64_token_inj)
qed

section \<open>Entities\<close>

text \<open>C29: A user object, from \<open>create\<close> through any method calls, keeps its id, its address (the normal form
  of a valid one) and its creation time, never loses the verification of its address, and its pending events
  name this user and this address.\<close>

theorem user_object_invariant:
  assumes "user_reachable u" and "user_step u u'"
  shows "validate_email (PyStr (u_email u')) = Inr (u_email u')
    \<and> (\<forall>e \<in> set (u_events u'). event_of_user (u_id u') (u_email u') e)
    \<and> u_id u' = u_id u \<and> u_email u' = u_email u \<and> u_created_at u' = u_created_at u
    \<and> (u_is_email_verified u \<longrightarrow> u_is_email_verified u')"
  using user_reachable_wf [OF stepped [OF assms]] user_step_frame [OF assms(2)] by (simp add: user_wf_def)

theorem user_object_invariant_witness:
  "\<exists>u u'. user_reachable u \<and> user_step u u' \<and> u_email u' = ''carol@mail.org'' \<and> u_is_email_verified u'"
proof -
  have m: "validate_email (PyStr ''carol@mail.org'') = Inr ''carol@mail.org''"
    and p: "validate_password (PyStr ''carol-password'') = Inr ''carol-password''" by code_simp+
  have g: "gensalt_at demo_sys t = []" for t by (simp add: demo_sys_def)
  have "demo_hashpw (utf8_encode ''carol-password'') [] = Some (utf8_encode ''carol-password'')" by code_simp
  then obtain u w' where c: "user_create demo_sys (PyStr ''carol@mail.org'') (PyStr ''carol-password'') \<lparr>tick = 0\<rparr> = (Inr u, w')"
    and u: "u_email u = ''carol@mail.org''" "\<not> u_is_email_verified u"
    using m p by (auto simp: user_create_def run_simps validate_hash_password_run hash_password_cases Let_def
        g utf8_decode_encode)
  obtain u' w'' where v: "verify_email demo_sys u w' = (Inr u', w'')" "u_is_email_verified u'"
    using u by (auto simp: verify_email_def run_simps)
  note r = created [OF c] and st = step_verify [OF v(1)]
  from user_object_invariant [OF r st] r st u v show ?thesis by metis
qed

text \<open>A refresh token ends once: after \<open>use\<close> or \<open>revoke\<close> has succeeded, whatever methods run in
  between, both raise from then on; and the revocation time and the successor of a token never change.\<close>

lemma refresh_token_object_final:
  fixes w :: "'w world_scheme" and v :: "'v world_scheme"
  assumes "rt_use E t w = (Inr t1, w1) \<or> rt_revoke E t w = (Inr t1, w1)" and "rt_steps t1 t2"
  shows "(\<exists>e. fst (rt_use E' t2 v) = Inl e) \<and> (\<exists>e. fst (rt_revoke E' t2 v) = Inl e)
    \<and> r_revoked_at t2 = r_revoked_at t1 \<and> r_revoked_at t1 \<noteq> None
    \<and> (r_replaced_by_id t1 \<noteq> None \<longrightarrow> r_replaced_by_id t2 = r_replaced_by_id t1)"
proof -
  have r: "r_revoked_at t1 \<noteq> None"
    using assms(1) by (auto simp: run_rt_use run_rt_revoke run_rt_set_revoked split: if_splits)
  then show ?thesis using rt_steps_final [OF assms(2)]
    by (auto simp: rt_final_def run_rt_use run_rt_revoke)
qed

lemma refresh_token_object_final_example:
  "\<exists>t1 w1. rt_use demo_sys (rt_orm2domain alice_session) demo_world = (Inr t1, w1)
    \<and> (\<exists>e. fst (rt_use demo_sys t1 w1) = Inl e)"
proof -
  obtain t1 w1 where u: "rt_use demo_sys (rt_orm2domain alice_session) demo_world = (Inr t1, w1)"
    by (auto simp: run_rt_use run_rt_set_revoked rt_orm2domain_def alice_session_def)
  from refresh_token_object_final [OF disjI1 [OF u] rt_steps_refl, of demo_sys w1] u show ?thesis by blast
qed

text \<open>\<open>is_usable\<close> tells the truth: at the same moment \<open>use\<close> succeeds exactly when it is true (for a one-time
  token, with the token's own purpose), and \<open>use\<close> with another purpose fails without reading the clock.\<close>

lemma usable_iff_use:
  "(fst (ott_is_usable E t w) = Inr True \<longleftrightarrow> (\<exists>t'. fst (ott_use E t (o_purpose t) w) = Inr t'))
   \<and> (fst (rt_is_usable E r w) = Inr True \<longleftrightarrow> (\<exists>r'. fst (rt_use E r w) = Inr r'))
   \<and> (p \<noteq> o_purpose t \<longrightarrow> ott_use E t p w = (Inl (token_error ''Token purpose mismatch''), w))"
  by (auto simp: ott_is_usable_def rt_is_usable_def run_rt_use run_simps split: if_splits)

section \<open>The security policy\<close>



lemma py_split_no: "c \<notin> set p \<Longrightarrow> py_split c p = [p]"
  by (induction p) auto

lemma py_split_piece: "c \<notin> set p \<Longrightarrow> py_split c (p @ c # s) = p # py_split c s"
  by (induction p) auto







text \<open>The caller chooses its address. Whatever the peer and the other headers are, and although a setting
  \<open>trust_proxy\<close> exists (it is read nowhere), the address is the first entry of \<open>X-Forwarded-For\<close>: any text
  without a comma or outer space, so also one in the range of any given IPv4 address.\<close>

lemma client_chooses_address:
  assumes "ip \<noteq> []" and "CHR '','' \<notin> set ip" and "stripped ip" and "rest = [] \<or> hd rest = CHR '',''"
  shows "get_client_ip (r\<lparr>x_forwarded_for := Some (ip @ rest)\<rparr>) = ip"
proof -
  have "hd (py_split (CHR '','') (ip @ rest)) = ip"
    using assms(2,4) by (cases rest) (auto simp: py_split_piece py_split_no)
  then show ?thesis using assms(1,3) by (simp add: get_client_ip_def truthy_def py_strip_stripped)
qed

lemma client_chooses_address_witness:
  "get_client_ip \<lparr>x_forwarded_for = Some ''10.0.0.1, 192.168.0.9'', x_real_ip = None, client_host = Some ''203.0.113.5'',
      user_agent_header = None, cf_ipcountry = None, x_country_code = None, accept_language = None\<rparr> = ''10.0.0.1''"
proof -
  have s: "stripped ''10.0.0.1''" by code_simp
  let ?r = "\<lparr>x_forwarded_for = None, x_real_ip = None, client_host = Some ''203.0.113.5'',
      user_agent_header = None, cf_ipcountry = None, x_country_code = None, accept_language = None\<rparr>"
  have "get_client_ip (?r\<lparr>x_forwarded_for := Some (''10.0.0.1'' @ '', 192.168.0.9'')\<rparr>) = ''10.0.0.1''"
    by (rule client_chooses_address [OF _ _ s]) simp_all
  then show ?thesis by simp
qed

section \<open>Access tokens\<close>



section \<open>Events\<close>

text \<open>C33: An audit event survives the event log: what \<open>serialize\<close> writes, \<open>deserialize\<close> reads back as the same
  event; the text of any other event is refused with \<open>KeyError\<close>, because its class is not registered.\<close>

theorem event_round_trip:
  assumes "pydantic_roundtrip P"
  shows "deserialize P E (serialize P e) w = (if is_domain_event e then Inr e else Inl (LibError KeyError), w)"
  by (cases "is_domain_event e") (simp_all add: deserialize_serialize [OF assms] deserialize_other)

theorem event_round_trip_witness:
  "deserialize demo_pydantic demo_sys (serialize demo_pydantic (UserCreated 5 1 ''alice@mail.org'')) demo_world
    = (Inr (UserCreated 5 1 ''alice@mail.org''), demo_world)"
  using event_round_trip [OF demo_roundtrip, of demo_sys "UserCreated 5 1 ''alice@mail.org''" demo_world] by simp



section \<open>The event queue\<close>

lemma concat_windows:
  "length xs \<le> k * n \<Longrightarrow> concat (map (\<lambda>p. take n (drop (p * n) xs)) [0..<k]) = xs"
proof -
  have "concat (map (\<lambda>p. take n (drop (p * n) xs)) [0..<j]) = take (j * n) xs" for j
  proof (induction j)
    case (Suc j)
    have "Suc j * n = j * n + n" by simp
    with Suc show ?case by (simp only: upt_Suc_append le0 map_append concat_append take_add) simp
  qed simp
  then show "length xs \<le> k * n \<Longrightarrow> ?thesis" by simp
qed

text \<open>C35: The Redis queue answers as the in-memory queue does on the decoded log, for every offset, limit and
  order, out-of-range ones included; and pushing an event appends it if it is an audit event and is ignored otherwise. A read whose two commands
  have pushes between them answers as an undisturbed read does of the list before (newest first, or beyond its end) or after them.\<close>

theorem redis_queue_is_memory_queue:
  assumes "redisq_inv P R q"
  shows "redisq_get P E R offset limit desc q w = (Inr (memq_get offset limit desc (redisq_contents P E q)), w)
    \<and> redisq_contents P E (redisq_push P R e q)
      = (if is_domain_event e then memq_push e (redisq_contents P E q) else redisq_contents P E q)
    \<and> redisq_get_at P E R offset limit desc q (q @ new) w
      = redisq_get P E R offset limit desc (if desc \<or> offset \<ge> int (length q) then q else q @ new) w"
proof (intro conjI)
  show "redisq_get P E R offset limit desc q w = (Inr (memq_get offset limit desc (redisq_contents P E q)), w)"
  proof (cases "0 \<le> offset \<and> 0 < limit")
    case True
    then show ?thesis by (simp add: redisq_window [OF assms] memq.get_contents)
  next
    case False
    then have "offset < 0 \<or> limit \<le> 0" by auto
    then show ?thesis by (simp add: redisq_get_defs run_retM memq.get_outside)
  qed
  show "redisq_contents P E (redisq_push P R e q)
      = (if is_domain_event e then memq_push e (redisq_contents P E q) else redisq_contents P E q)"
    using redisq.push_contents [OF assms] by (simp add: memq_push_def)
  have "redis_lists R" using assms by (auto simp: redisq_inv_def)
  then show "redisq_get_at P E R offset limit desc q (q @ new) w
      = redisq_get P E R offset limit desc (if desc \<or> offset \<ge> int (length q) then q else q @ new) w"
    by (rule fun_cong [OF redisq_get_between])
qed

lemma redisq_contents_nil: "redisq_contents P E [] = []"
  by (simp add: redisq_contents_def run_simps)

theorem redis_queue_is_memory_queue_witness:
  "redisq_get demo_pydantic demo_sys demo_redis 0 10 True
      (redisq_push demo_pydantic demo_redis (UserActivated 5 1) []) demo_world = (Inr [UserActivated 5 1], demo_world)"
proof -
  have i: "redisq_inv demo_pydantic demo_redis []" by (simp add: redisq_inv_def demo_roundtrip demo_lists)
  have c: "redisq_contents demo_pydantic demo_sys (redisq_push demo_pydantic demo_redis (UserActivated 5 1) [])
      = [UserActivated 5 1]"
    using conjunct1 [OF conjunct2 [OF redis_queue_is_memory_queue [OF i, of demo_sys 0 1 True demo_world "UserActivated 5 1"]]]
    by (simp only: redisq_contents_nil is_domain_event.simps if_True memq_push_def append_Nil)
  have p: "redisq_inv demo_pydantic demo_redis (redisq_push demo_pydantic demo_redis (UserActivated 5 1) [])"
    by (rule redisq.push_inv [OF i])
  show ?thesis
    using conjunct1 [OF redis_queue_is_memory_queue [OF p, of demo_sys 0 10 True demo_world]]
    unfolding c by (simp add: memq_get_def py_slice_def)
qed

text \<open>C37: The events page shows the newest events first, ten to a page, and offers a next page exactly when that page
  would show an event; showing a page changes nothing. Read page by page the log is shown whole, each event once.\<close>

theorem events_page_shows:
  assumes "log_inv V w" and "1 \<le> page"
  shows "(\<exists>v v'. events_page V page w = (Inr v, w) \<and> events_page V (page + 1) w = (Inr v', w)
      \<and> pv_events v = map event_view_of (take 10 (drop (nat ((page - 1) * 10)) (rev (audit V w))))
      \<and> (pv_has_next v \<longleftrightarrow> pv_events v' \<noteq> []) \<and> (pv_has_prev v \<longleftrightarrow> page \<noteq> 1)
      \<and> pv_next_page v = page + 1 \<and> pv_prev_page v = page - 1)
    \<and> (length (audit V w) \<le> k * 10 \<longrightarrow>
        concat (map (\<lambda>p. case fst (events_page V (int p + 1) w) of Inl x \<Rightarrow> [] | Inr v \<Rightarrow> pv_events v) [0..<k])
        = map event_view_of (rev (audit V w)))"
proof
  have "1 \<le> page + 1" using assms(2) by simp
  from events_page_run [OF assms] events_page_run [OF assms(1) this] assms(2)
  show "\<exists>v v'. events_page V page w = (Inr v, w) \<and> events_page V (page + 1) w = (Inr v', w)
      \<and> pv_events v = map event_view_of (take 10 (drop (nat ((page - 1) * 10)) (rev (audit V w))))
      \<and> (pv_has_next v \<longleftrightarrow> pv_events v' \<noteq> []) \<and> (pv_has_prev v \<longleftrightarrow> page \<noteq> 1)
      \<and> pv_next_page v = page + 1 \<and> pv_prev_page v = page - 1"
    by (auto simp: page_events_def)
next
  have p: "(case fst (events_page V (int p + 1) w) of Inl x \<Rightarrow> [] | Inr v \<Rightarrow> pv_events v)
      = map event_view_of (take 10 (drop (p * 10) (rev (audit V w))))" for p
  proof -
    have "nat (int p * 10) = p * 10" by simp
    then show ?thesis using events_page_run [OF assms(1), of "int p + 1"] by (simp add: page_events_def)
  qed
  show "length (audit V w) \<le> k * 10 \<longrightarrow>
      concat (map (\<lambda>p. case fst (events_page V (int p + 1) w) of Inl x \<Rightarrow> [] | Inr v \<Rightarrow> pv_events v) [0..<k])
      = map event_view_of (rev (audit V w))"
  proof
    assume "length (audit V w) \<le> k * 10"
    then have "concat (map (\<lambda>p. take 10 (drop (p * 10) (rev (audit V w)))) [0..<k]) = rev (audit V w)"
      by (intro concat_windows) simp
    from arg_cong [OF this, of "map event_view_of"]
    show "concat (map (\<lambda>p. case fst (events_page V (int p + 1) w) of Inl x \<Rightarrow> [] | Inr v \<Rightarrow> pv_events v) [0..<k])
      = map event_view_of (rev (audit V w))"
      unfolding p by (simp add: map_concat comp_def)
  qed
qed

theorem events_page_shows_witness:
  "\<exists>v. events_page demo_env 1 demo_world = (Inr v, demo_world) \<and> pv_events v = [] \<and> \<not> pv_has_prev v"
proof -
  have "audit demo_env demo_world = []" by (simp add: audit_def redisq_contents_def run_simps)
  with events_page_shows [OF demo_log_inv, of 1 0] show ?thesis by auto
qed

section \<open>Repositories and wiring\<close>



text \<open>C39: Every use case can be put together: each of its parameters gets a provider, in order, whose port is the one
  of the annotation; and the transaction and all repositories of a use case take the database session from the one
  provider of sessions, so that they work in one transaction. The factories built at import are those of all use cases, none raises.
  Every provider of a port returns an instance of a class that inherits the port and overrides all of it: a call that fits the
  port's method, and does not name the parameter \<open>entity\<close> of \<open>save\<close> and \<open>delete\<close> by keyword (the repositories
  call it otherwise), reaches a body that takes it.\<close>

theorem use_cases_are_wired:
  "\<exists>fs. build_use_case (init_params u) = Inr fs \<and> map fst fs = map fst (tl (init_params u))
    \<and> (\<forall>(n, f) \<in> set fs. \<exists>p. (n, Some p) \<in> set (init_params u) \<and> provides f = Some p
        \<and> (p \<in> set database_ports \<longrightarrow> depends f = [get_session]))
    \<and> (''tx'', get_transaction) \<in> set fs
    \<and> build_use_case (init_params u) \<in> snd ` set factories
    \<and> snd ` set factories \<subseteq> range Inr
    \<and> (provides g = Some p \<and> m \<in> set (port_methods p) \<and> binds (ms_params m) n ks \<and> ''entity'' \<notin> set ks \<longrightarrow>
        (\<exists>c. provided_class g = Some c \<and> base_port c = p \<and> call_served c m n ks))"
proof -
  have "\<exists>c. provided_class g = Some c \<and> base_port c = p \<and> call_served c m n ks"
    if "provides g = Some p" "m \<in> set (port_methods p)" "binds (ms_params m) n ks" "''entity'' \<notin> set ks"
    using that calls_served provider_class by blast
  then show ?thesis
    by (cases u) (simp_all add: init_params_defs DEPENDENCY_PROVIDERS_def database_ports_def factories_def)
qed

theorem use_cases_are_wired_witness:
  "(\<exists>fs. build_use_case (init_params LoginUserCase) = Inr fs \<and> length fs = 6)
    \<and> (\<exists>c. provided_class get_event_queue = Some c
        \<and> call_served c (coro ''get'' [(''offset'', False), (''limit'', False), (''desc'', True)]) 0 [''offset'', ''limit''])"
proof -
  obtain fs where f: "build_use_case (init_params LoginUserCase) = Inr fs"
    and m: "map fst fs = map fst (tl (init_params LoginUserCase))"
    using use_cases_are_wired [of LoginUserCase] by blast
  from arg_cong [OF m, of length] have l: "length fs = 6" by (simp add: init_params_defs)
  have "\<exists>c. provided_class get_event_queue = Some c \<and> base_port c = EventQueuePort
      \<and> call_served c (coro ''get'' [(''offset'', False), (''limit'', False), (''desc'', True)]) 0 [''offset'', ''limit'']"
    using use_cases_are_wired [of LoginUserCase get_event_queue EventQueuePort
        "coro ''get'' [(''offset'', False), (''limit'', False), (''desc'', True)]" 0 "[''offset'', ''limit'']"] by (auto simp: event_queue_port_def)
  with f l show ?thesis by blast
qed

end
