(* ===== verification/Spec2Isabelle.thy ===== *)
theory Spec2Isabelle
  imports Components
begin

text \<open>
  A verification library of the authentication service under \<^verbatim>\<open>src/\<close>: a Python program in
  ports-and-adapters style. Users register with an address and a password, verify the address
  with a one-time token, log in for an access token (a JWT) and a refresh token, rotate and revoke refresh
  tokens, change and recover passwords. The state is in three PostgreSQL tables; events go to a log in
  Redis and, where they carry a one-time token, to a queue of notifications in memory.

  \<^bold>\<open>How a call runs.\<close> An endpoint of \<^verbatim>\<open>routers/auth.py\<close> calls \<open>execute\<close> of a use case of
  \<^verbatim>\<open>application/cases/user\<close>. Inside one transaction it loads entities from the repositories, calls methods
  of the entities and the domain services, which append events to the entities, pulls the events, and saves the
  entities, each save guarded by a version number. After the commit it publishes the events. An
  exception rolls the transaction back and becomes a status code at the endpoint.

  \<^bold>\<open>The theories\<close>, each with the files it models (below \<^verbatim>\<open>src/app\<close>):

  \<^item> \<open>Prelude\<close>: state-and-exception programs (\<open>prog\<close>, \<open>bindM\<close>, \<open>tryM\<close>) with their run lemmas, and
    the collections of facts \<open>run_simps\<close> and \<open>keeps_intros\<close> that carry the component proofs
    (\<open>Platform\<close> adds \<open>ticks_intros\<close>, \<open>App\<close> adds \<open>tx_intros\<close>).
  \<^item> \<open>PyText\<close>, \<open>PyCodec\<close>, \<open>PyRegex\<close>, \<open>PyTime\<close>, \<open>Sha256\<close>, \<open>Json\<close>: what the source uses of Python's
    standard library: strings, UTF-8, base64url, UUIDs, regular expressions (by derivatives), dates, SHA-256, JSON.
  \<^item> \<open>Exceptions\<close>: \<^verbatim>\<open>core/domain/exceptions\<close>, \<^verbatim>\<open>application/exceptions\<close>. \<open>Platform\<close>: \<^verbatim>\<open>core/utils\<close>, and the
    record \<open>sysenv\<close> of what is outside the program: clock, \<open>os.urandom\<close>, \<open>uuid4\<close>, bcrypt, PyJWT.
  \<^item> \<open>Events\<close>, \<open>EventSerializer\<close>: \<^verbatim>\<open>core/domain/events\<close>, \<^verbatim>\<open>application/events\<close>. \<open>Validators\<close>:
    \<^verbatim>\<open>core/domain/validators\<close>. \<open>UserEntity\<close>, \<open>TokenEntities\<close>: \<^verbatim>\<open>core/domain/entities\<close>, a record per class and a
    definition per method. \<open>DomainServices\<close>: \<^verbatim>\<open>core/domain/services\<close>.
  \<^item> \<open>Config\<close>: \<^verbatim>\<open>config/settings.py\<close> with its defaults and the database URLs, \<^verbatim>\<open>adapters/outbound/config.py\<close>. \<open>AccessToken\<close>:
    \<^verbatim>\<open>adapters/outbound/access_token\<close>.
  \<^item> \<open>Database\<close>: the tables of \<^verbatim>\<open>persistence/sqlalchemy/models\<close> as lists of rows and the statements
    that the repositories issue, with the constraints that PostgreSQL enforces. \<open>Repositories\<close>:
    \<^verbatim>\<open>persistence/sqlalchemy/repositories\<close>. \<open>RepositoryContract\<close>: the locale \<open>repository\<close>, what a client may rely
    on of optimistic concurrency, interpreted on the three repositories. \<open>Concurrency\<close>: interleaved sessions.
  \<^item> \<open>EventBus\<close>: \<^verbatim>\<open>adapters/outbound/event_bus\<close>, with the locale \<open>event_queue\<close> interpreted on the Redis and the
    in-memory queue. \<open>App\<close>: the world of a process (\<open>app_world\<close>: clock, database, log, notifications), the
    transaction and the publisher.
  \<^item> \<open>UseCases\<close>: the eight use cases, each as its transaction (\<open>_tx\<close>) and \<open>_execute\<close>. \<open>AuthSpec\<close>: the abstract
    specification on maps of entities (\<open>spec_step\<close>, an inductive relation), its invariant \<open>spec_inv\<close> and the
    order \<open>store_le\<close> of what is final. \<open>UseCaseRefinement\<close>: every transaction refines the
    specification, and what one that succeeds did. \<open>ServiceSystem\<close>: sequences of calls.
  \<^item> \<open>CallSteps\<close>: the same calls cut at their awaits: the reads (\<open>register_load\<close> and the other \<open>_load\<close> definitions), the saves and
    the commit (\<open>flush\<close>), the publication of each event; \<open>run_alone_call\<close> shows that the pieces make up the call.
    \<open>Sessions\<close>: what holds of a session under way (\<open>session_ok\<close>): what it has read may have changed since, which \<open>moved\<close> describes
    and the version check of a save finds out, so every commit is a step of the specification (\<open>flush_refines\<close>); what is
    unchanged would be read again (\<open>replays\<close>). \<open>Interleaving\<close>: any number of calls in such steps on one database (\<open>cstep\<close>, \<open>creach\<close>).
    \<open>Serializability\<close>: every commit has the effect of its whole call at that moment (\<open>commit_is_call\<close>), so that an interleaving leaves what
    the committed calls leave one after the other (\<open>cstrace\<close>, \<open>serial\<close>). \<open>Announcements\<close>: what interleaved calls publish. \<open>Conflicts\<close>:
    a commit is refused only if another has come before it.
  \<^item> \<open>Dto\<close>: \<^verbatim>\<open>application/dto\<close>. \<open>HttpApi\<close>: the endpoints of \<^verbatim>\<open>adapters/inbound/http/routers\<close>. \<open>HttpRoutes\<close>: the
    request models with their defaults, the routes with their prefixes, and \<open>serve\<close>, which answers a request.
  \<^item> \<open>Wiring\<close>: \<^verbatim>\<open>adapters/nexus.py\<close>, \<^verbatim>\<open>routers/dependencies/cases.py\<close>. \<open>Infrastructure\<close>: \<^verbatim>\<open>infrastructure\<close>, \<^verbatim>\<open>main.py\<close>, the objects
    that the modules and the providers make (\<open>process\<close>, \<open>call_provider\<close>), and which of them a request is given
    (\<open>given_ok\<close>). \<open>Ports\<close>: \<^verbatim>\<open>core/ports\<close>, against the
    classes that inherit them. \<open>Migrations\<close>: \<^verbatim>\<open>src/migrations/versions\<close>, against the schema of the models;
    \<open>MigrationEnv\<close>: \<^verbatim>\<open>src/migrations/env.py\<close>.
  \<^item> \<open>DemoEnv\<close>, \<open>DemoRuns\<close>: a concrete environment in which every hypothesis about third-party code holds, and
    runs of the service on it, for the witnesses. \<open>Components\<close>: the properties of single components. This theory:
    the properties that span components.

  \<^bold>\<open>Hypotheses about third-party code\<close>, each documented behaviour of it: \<open>bcrypt_checks\<close> (a hash checks against its
    password), \<open>bcrypt_limit\<close> (more than 72 bytes are refused), \<open>jwt_faithful\<close> (a token decodes to its claims until it expires),
    \<open>pydantic_roundtrip\<close> (a dumped field validates to itself), \<open>redis_lists\<close> (\<open>RPUSH\<close>, \<open>LLEN\<close>, \<open>LRANGE\<close>),
  \<open>fastapi_calls\<close> (a provider is called once for a request, after those that it depends on).

  \<^bold>\<open>Bounds.\<close> Clock, random bytes and UUIDs are functions of a counter of readings that every reading increases, so
  every sequence of answers is covered; times are integers of microseconds. The recursion of the JSON
  parser is bounded by twice the length of its text plus two, which \<open>scan_fuel\<close> shows to be enough; the steps of an
  upgrade by the number of revisions. Versions are four-byte integers in the database (\<open>int4\<close>), where an
  update beyond the range fails. Characters are Latin-1, of one or two bytes in UTF-8.

  \<^bold>\<open>Steps of interleaved calls.\<close> A read sees what is committed. A save locks its row until the transaction ends, a second save of the row
  waits for the lock and then finds the version changed, and an insert of a taken key or address fails; every use case
  reads before it saves and saves in the same order (user, one-time token, refresh tokens). So the saves and the commit of a
  transaction are one step, with the checks made on the state at that step.

  \<^bold>\<open>Not modelled.\<close> FastAPI's own part of a request (parsing of JSON, of headers and of the query; its calls of the providers), the HTML
  template and the application object; SQLAlchemy's identity map; what the constructors of engine, session and Redis client
  do with the arguments that \<open>Infrastructure\<close> records; logging; the offline mode of the
  migrations, which prints SQL. Of the ports, classes without bodies, \<open>Ports\<close> has the methods and the locales \<open>repository\<close> and
  \<open>event_queue\<close> have the contracts. A failure of Redis or PostgreSQL itself is not an answer here: a call that
  ends by it, before its commit or at a publication, is the case of a session that is dropped (\<open>c_drop\<close>). The tests are not modelled.
\<close>

section \<open>The service as a whole\<close>

subsection \<open>Calls on a sound state\<close>

text \<open>C1: Every call of the service, on a state that satisfies the invariants, either raises and
  leaves the database, the audit log and the notifications as they were, or ends normally and has
  made exactly one step of the abstract specification \<open>spec_step\<close> on the stored entities.\<close>

theorem calls_refine_spec:
  assumes "service_inv w" and "handle V c w = (r, w')"
  shows "case r of
      Inl e \<Rightarrow> db w' = db w \<and> event_log w' = event_log w \<and> notifications w' = notifications w
    | Inr x \<Rightarrow> spec_step (abs_store (db w)) (abs_store (db w'))"
  using handle_outcome [OF _ assms(2)] assms(1)
  by (auto simp: service_inv_def unchanged_def committed_def)

theorem calls_refine_spec_witness:
  "\<exists>w'. handle demo_env (VerifyEmail (PyStr ''verify-bob'')) demo_world = (Inr None, w')
    \<and> spec_step (abs_store demo_db) (abs_store (db w'))"
proof -
  have r: "handle demo_env (VerifyEmail (PyStr ''verify-bob'')) demo_world
      = (Inr None, snd (handle demo_env (VerifyEmail (PyStr ''verify-bob'')) demo_world))"
    using demo_verify by (simp add: prod_eq_iff)
  from calls_refine_spec [OF demo_service_inv r] r show ?thesis by auto
qed



text \<open>C6: No sequence of calls undoes what is final: a stored user keeps its id, address, creation
  time and activity, and stays verified; a one-time token stays used; a refresh token stays revoked,
  with the same revocation time, and keeps its successor; nothing stored disappears; versions never decrease.\<close>

theorem nothing_is_undone:
  assumes "service_inv w" and "later V w w'"
  shows "map_le_by user_le (user_lookup (db w)) (user_lookup (db w'))
    \<and> map_le_by ott_le (ott_lookup (db w)) (ott_lookup (db w'))
    \<and> map_le_by rt_le (rt_lookup (db w)) (rt_lookup (db w'))"
  using later_le [OF assms(2,1)] by (simp add: store_le_def)

theorem nothing_is_undone_witness:
  "\<exists>w'. later demo_env demo_world w' \<and> map_le_by user_le (user_lookup demo_db) (user_lookup (db w'))"
proof -
  have "later demo_env demo_world (snd (handle demo_env (VerifyEmail (PyStr ''verify-bob'')) demo_world))"
    by (rule later_call [OF later_refl handle_pair])
  with nothing_is_undone [OF demo_service_inv this] show ?thesis by auto
qed

subsection \<open>Tokens are used once\<close>

text \<open>C7: A one-time token works once. After a call that verified an address or recovered a
  password with a token, every later call with the same token, for either purpose and after any
  other calls in between, raises and changes nothing.\<close>

theorem one_time_token_used_once:
  assumes "service_inv w" and "consumes c = Some s" and "handle V c w = (Inr x, w1)"
    and "later V w1 w2" and "consumes c' = Some s" and "handle V c' w2 = (r, w3)"
  shows "(\<exists>e. r = Inl e) \<and> db w3 = db w2"
proof -
  have i: "service_inv w1" "service_inv w2"
    using handle_inv [OF assms(1,3)] later_inv [OF assms(4)] by blast+
  have "spent w2 s"
    using consumes_spends [OF _ assms(2,3)] spent_later [OF assms(4)] i assms(1) by (simp add: service_inv_def)
  then have "\<exists>e. r = Inl e" using spent_raises [of w2 c' s V] assms(5,6) i by (simp add: service_inv_def)
  then show ?thesis using handle_outcome [OF _ assms(6)] i by (auto simp: service_inv_def unchanged_def)
qed

theorem one_time_token_used_once_witness:
  "\<exists>w1 e. handle demo_env (VerifyEmail (PyStr ''verify-bob'')) demo_world = (Inr None, w1)
    \<and> fst (handle demo_env (Recover (PyStr ''verify-bob'') PyNone) w1) = Inl e"
proof -
  let ?w1 = "snd (handle demo_env (VerifyEmail (PyStr ''verify-bob'')) demo_world)"
  have r: "handle demo_env (VerifyEmail (PyStr ''verify-bob'')) demo_world = (Inr None, ?w1)"
    using demo_verify by (simp add: prod_eq_iff)
  have "(\<exists>e. fst (handle demo_env (Recover (PyStr ''verify-bob'') PyNone) ?w1) = Inl e) \<and>
      db (snd (handle demo_env (Recover (PyStr ''verify-bob'') PyNone) ?w1)) = db ?w1"
    by (rule one_time_token_used_once [OF demo_service_inv _ r later_refl _ handle_pair]) simp_all
  with r show ?thesis by blast
qed

text \<open>C8: A refresh token ends once. After a call that refreshed or revoked a token, every later
  refresh or revocation with the same token, after any calls in between, raises and changes nothing.\<close>

theorem refresh_token_ends_once:
  assumes "service_inv w" and "ends_session c = Some s" and "handle V c w = (Inr x, w1)"
    and "later V w1 w2" and "ends_session c' = Some s" and "handle V c' w2 = (r, w3)"
  shows "(\<exists>e. r = Inl e) \<and> db w3 = db w2 \<and> event_log w3 = event_log w2"
proof -
  have i: "service_inv w1" "service_inv w2"
    using handle_inv [OF assms(1,3)] later_inv [OF assms(4)] by blast+
  have "ended w2 s"
    using ends_session_ends [OF _ assms(2,3)] ended_later [OF assms(4)] i assms(1) by (simp add: service_inv_def)
  then have "\<exists>e. r = Inl e" using ended_raises [of w2 c' s V] assms(5,6) i by (simp add: service_inv_def)
  then show ?thesis using handle_outcome [OF _ assms(6)] i by (auto simp: service_inv_def unchanged_def)
qed

theorem refresh_token_ends_once_witness:
  "\<exists>p w1 e. handle demo_env (Refresh ''alice-session'' None None None) demo_world = (Inr p, w1)
    \<and> fst (handle demo_env (Refresh ''alice-session'' None None None) w1) = Inl e"
proof -
  let ?w1 = "snd (handle demo_env (Refresh ''alice-session'' None None None) demo_world)"
  obtain p where r: "handle demo_env (Refresh ''alice-session'' None None None) demo_world = (Inr (Some p), ?w1)"
    using demo_refresh by (auto simp: prod_eq_iff)
  have "(\<exists>e. fst (handle demo_env (Refresh ''alice-session'' None None None) ?w1) = Inl e) \<and>
      db (snd (handle demo_env (Refresh ''alice-session'' None None None) ?w1)) = db ?w1 \<and>
      event_log (snd (handle demo_env (Refresh ''alice-session'' None None None) ?w1)) = event_log ?w1"
    by (rule refresh_token_ends_once [OF demo_service_inv _ r later_refl _ handle_pair]) simp_all
  with r show ?thesis by blast
qed


subsection \<open>What is published\<close>

text \<open>C10: The audit trail. A call that ends normally appends to the audit log, which can be read back,
  exactly these events: a new registration \<open>UserCreated\<close>, a verification \<open>UserEmailVerified\<close>, a login
  \<open>RefreshTokenCreated\<close>, a revocation \<open>RefreshTokenRevoked\<close>, a password change or recovery its event;
  and to the notifications exactly the events that carry a one-time token. A successful refresh leaves
  no trace in the log, and the suspicion that a revocation raises does not reach it.\<close>

theorem audit_trail:
  assumes "db_inv (db w)" and "log_inv V w" and "handle V c w = (Inr x, w')"
  shows "log_inv V w' \<and> (\<exists>es. audit V w' = audit V w @ es \<and> map type_name es = audit_of w c)
    \<and> (\<exists>ns. notifications w' = notifications w @ ns \<and> map type_name ns = notices_of c)"
proof -
  obtain es where c: "committed V w es w'" and t: "map type_name (filter is_domain_event es) = audit_of w c"
    "map type_name (filter is_notification_event es) = notices_of c"
    using handle_published [OF assms(1,3)] by blast
  with committed_log [OF c assms(2)] show ?thesis by (auto simp: committed_def)
qed

theorem audit_trail_witness:
  "\<exists>w' es. handle demo_env (VerifyEmail (PyStr ''verify-bob'')) demo_world = (Inr None, w')
    \<and> audit demo_env w' = audit demo_env demo_world @ es \<and> map type_name es = [''UserEmailVerified'']"
proof -
  have r: "handle demo_env (VerifyEmail (PyStr ''verify-bob'')) demo_world
      = (Inr None, snd (handle demo_env (VerifyEmail (PyStr ''verify-bob'')) demo_world))"
    using demo_verify by (simp add: prod_eq_iff)
  have d: "db_inv (db demo_world)" by simp
  from audit_trail [OF d demo_log_inv r] r show ?thesis by auto
qed

text \<open>C13: Reuse of a refresh token that was replaced is answered by \<open>RefreshTokenReuse\<close>, and that is
  all: the detection publishes \<open>RefreshTokenReuseDetected\<close>, which the Redis queue does not accept, so
  nothing but the clock differs afterwards.\<close>

theorem reuse_leaves_no_trace:
  assumes "rt_get_by_string s (db w) = Inr (Some t)" and "r_replaced_by_id t \<noteq> None"
  shows "handle V (Refresh s ip ua loc) w = (Inl (mk_error RefreshTokenReuse None), w\<lparr>tick := Suc (tick w)\<rparr>)"
  using refresh_reuse [OF assms] by (simp add: handle_def run_simps)

theorem reuse_leaves_no_trace_witness:
  "handle demo_env (Refresh ''old'' None None None)
      (demo_world\<lparr>db := demo_db\<lparr>refresh_tokens := [alice_session\<lparr>rtr_token_hash := hash_token ''old'',
        rtr_revoked_at := Some 5, rtr_replaced_by_id := Some 22\<rparr>]\<rparr>\<rparr>)
    = (Inl (mk_error RefreshTokenReuse None),
       demo_world\<lparr>db := demo_db\<lparr>refresh_tokens := [alice_session\<lparr>rtr_token_hash := hash_token ''old'',
        rtr_revoked_at := Some 5, rtr_replaced_by_id := Some 22\<rparr>]\<rparr>, tick := 2\<rparr>)"
proof -
  let ?w = "demo_world\<lparr>db := demo_db\<lparr>refresh_tokens := [alice_session\<lparr>rtr_token_hash := hash_token ''old'',
        rtr_revoked_at := Some 5, rtr_replaced_by_id := Some 22\<rparr>]\<rparr>\<rparr>"
  have "rt_get_by_string ''old'' (db ?w) = Inr (Some (rt_orm2domain (alice_session\<lparr>rtr_token_hash := hash_token ''old'',
        rtr_revoked_at := Some 5, rtr_replaced_by_id := Some 22\<rparr>)))"
    by (simp add: rt_get_by_string_def scalar_one_or_none_def)
  from reuse_leaves_no_trace [OF this] show ?thesis
    by (simp add: rt_orm2domain_def numeral_2_eq_2)
qed

subsection \<open>Registration\<close>





text \<open>C16: An address that is not in its normal form is looked up as it was given but stored in its
  normal form: registering such a variant of a stored user's address with a valid password is
  answered by an exception that no handler catches (status 500), even where the user is known.\<close>

theorem register_variant_of_known_address:
  assumes "db_inv (db w)" and "user_get_by_email (PyStr m) (db w) = Inr None"
    and "validate_email (PyStr m) = Inr m'" and "u \<in> set (users (db w))" and "ur_email u = m'"
    and "validate_password pw = Inr p"
  shows "\<exists>l. fst (register_user V \<lparr>rui_email = PyStr m, rui_password = pw\<rparr> w) = ServerError (LibError l)"
proof -
  have "\<exists>l w1. register_tx V (PyStr m) pw w = (Inl (LibError l), w1)"
  proof (cases "register_tx V (PyStr m) pw w")
    case (Pair r w1)
    show ?thesis
    proof (cases r)
      case (Inr es)
      show ?thesis
      proof (rule register_tx_new [OF assms(1,2) Pair [unfolded Inr]])
        fix v :: user
        assume v: "validate_email (PyStr m) = Inr (u_email v)" "\<forall>x \<in> ran (user_lookup (db w)). u_email x \<noteq> u_email v"
        have "user_lookup (db w) (ur_id u) = Some (user_orm2domain u)"
          using table_map_SomeI [OF db_inv_keys(1) [OF assms(1)] assms(4)] by (simp add: user_lookup_def)
        then have "user_orm2domain u \<in> ran (user_lookup (db w))" by (rule ranI)
        with v assms(3,5) show ?thesis by (fastforce simp: user_orm2domain_def)
      qed
    next
      case (Inl e)
      then have "\<exists>l. e = LibError l"
        using Pair assms(2,3,6)
        by (auto simp: register_tx_def run_simps user_create_def validate_hash_password_run hash_password_cases
            request_verification_def request_email_verification_def Let_def user_pull_domain_events_def
            user_save_def insert_user_def ott_save_def insert_ott_def
            split: sum.splits option.splits if_splits prod.splits)
      then show ?thesis using Pair Inl by blast
    qed
  qed
  then obtain l w1 where "register_tx V (PyStr m) pw w = (Inl (LibError l), w1)" by blast
  then show ?thesis
    by (simp add: register_user_def register_execute_def respond_cases with_tx_def run_bindM)
qed

theorem register_variant_of_known_address_witness:
  "\<exists>l. fst (register_user demo_env \<lparr>rui_email = PyStr '' Alice@Mail.org'', rui_password = PyStr ''some-password''\<rparr> demo_world)
    = ServerError (LibError l)"
proof (rule register_variant_of_known_address)
  show "db_inv (db demo_world)" by simp
  show "user_get_by_email (PyStr '' Alice@Mail.org'') (db demo_world) = Inr None"
    by (simp add: user_get_by_email_def scalar_one_or_none_def demo_rows)
  show "validate_email (PyStr '' Alice@Mail.org'') = Inr ''alice@mail.org''" by code_simp
  show "alice \<in> set (users (db demo_world))" and "ur_email alice = ''alice@mail.org''" by (simp_all add: demo_rows)
  show "validate_password (PyStr ''some-password'') = Inr ''some-password''" by code_simp
qed

text \<open>bcrypt takes no more than 72 bytes, while the validator allows 255 characters: a password
  that is valid but longer in UTF-8 makes the registration of a new address fail with an uncaught
  \<open>ValueError\<close> (status 500), and nothing is stored.\<close>

lemma register_password_over_72_bytes:
  assumes "bcrypt_limit (sys V)" and "validate_password pw = Inr p" and "72 < length (utf8_encode p)"
    and "user_get_by_email em (db w) = Inr None" and "validate_email em = Inr m"
  shows "fst (register_user V \<lparr>rui_email = em, rui_password = pw\<rparr> w) = ServerError (LibError ValueError)
    \<and> db (snd (register_user V \<lparr>rui_email = em, rui_password = pw\<rparr> w)) = db w"
  using assms(2,4,5)
  by (simp add: register_user_def register_execute_def respond_cases with_tx_def register_tx_def run_simps
      user_create_def validate_hash_password_run hash_password_too_long [OF assms(1,3)])

lemma register_password_over_72_bytes_witness:
  "fst (register_user demo_env \<lparr>rui_email = PyStr ''carol@mail.org'', rui_password = PyStr (replicate 80 (CHR ''x''))\<rparr> demo_world)
    = ServerError (LibError ValueError)"
proof -
  have p: "validate_password (PyStr (replicate 80 (CHR ''x''))) = Inr (replicate 80 (CHR ''x''))"
    and l: "72 < length (utf8_encode (replicate 80 (CHR ''x'')))"
    and m: "validate_email (PyStr ''carol@mail.org'') = Inr ''carol@mail.org''"
    by code_simp+
  have b: "bcrypt_limit (sys demo_env)" by (simp add: demo_bcrypt)
  have f: "user_get_by_email (PyStr ''carol@mail.org'') (db demo_world) = Inr None"
    by (simp add: user_get_by_email_def scalar_one_or_none_def demo_rows)
  from register_password_over_72_bytes [OF b p l f m] show ?thesis by blast
qed

subsection \<open>Verification, sessions and passwords\<close>



text \<open>C18: A login answers by the first check that fails, without touching anything: an unknown
  address, a deactivated user, an unverified address, a password that bcrypt refuses to check, a wrong password, in this order.\<close>

theorem login_refused:
  assumes "db_inv (db w)" and "user_get_by_email (PyStr m) (db w) = Inr f"
    and "case f of None \<Rightarrow> True | Some u \<Rightarrow> \<not> can_login (sys V) u p"
  shows "handle V (Login m p ip ua loc) w =
    (Inl (case f of
        None \<Rightarrow> mk_error UserNotFound (Some ''User does not exist'')
      | Some u \<Rightarrow>
          if \<not> u_active u then user_error ''User is deactivated''
          else if \<not> u_is_email_verified u then user_error ''Email is not verified''
          else if bcrypt_checkpw (sys V) (utf8_encode p) (utf8_encode (u_password_hash u)) = None
          then LibError ValueError
          else user_error ''Invalid password''), w)"
  using assms
  by (cases f) (auto simp: handle_def login_execute_def login_tx_def with_tx_def run_simps assert_can_login_def
      can_login_def split: option.splits)

theorem login_refused_witness:
  "handle demo_env (Login ''bob@mail.org'' ''bob-password'' None None None) demo_world
    = (Inl (user_error ''Email is not verified''), demo_world)"
proof -
  have d: "db_inv (db demo_world)" by simp
  have f: "user_get_by_email (PyStr ''bob@mail.org'') (db demo_world) = Inr (Some (user_orm2domain bob))"
    by (simp add: user_get_by_email_def scalar_one_or_none_def demo_rows)
  show ?thesis
    using login_refused [OF d f, where V = demo_env and p = "''bob-password''" and ip = None and ua = None and loc = None]
    by (simp add: can_login_def user_orm2domain_def bob_def)
qed



text \<open>C20: A refresh that succeeds had a stored token that was neither revoked, replaced nor expired; it
  revokes it, links it to a new token of the same user that had not existed, and hands out the text of which the new
  token keeps the hash; no other stored entity changes. The new token starts without client data.\<close>

theorem refresh_rotates:
  assumes "db_inv (db w)" and "handle V (Refresh s ip ua loc) w = (Inr (Some pair), w')"
  shows "\<exists>t n now. rt_lookup (db w) (r_id t) = Some t \<and> r_token_hash t = hash_token s
    \<and> r_revoked_at t = None \<and> r_replaced_by_id t = None \<and> now_at (sys V) (tick w) \<le> r_expires_at t
    \<and> rt_lookup (db w) (r_id n) = None \<and> fresh_rt n \<and> r_user_id n = r_user_id t
    \<and> r_token_hash n = hash_token (refresh_token pair)
    \<and> rt_lookup (db w') = (rt_lookup (db w))
        (r_id t \<mapsto> rt_stored (t\<lparr>r_revoked_at := Some now, r_replaced_by_id := Some (r_id n)\<rparr>), r_id n \<mapsto> n)
    \<and> user_lookup (db w') = user_lookup (db w) \<and> ott_lookup (db w') = ott_lookup (db w)"
proof -
  from assms(2) have e: "refresh_execute V s ip ua loc w = (Inr pair, w')"
    by (auto simp: handle_def run_bindM run_retM split: prod.splits sum.splits)
  from refresh_outcome [OF assms(1) e] obtain es where t: "refresh_tx V s w = (Inr (es, pair), w')" by auto
  show ?thesis
  proof (rule refresh_tx_Inr [OF assms(1) t])
    fix t n now
    assume a: "rt_lookup (db w) (r_id t) = Some t" "r_token_hash t = hash_token s" "r_revoked_at t = None"
      "r_replaced_by_id t = None" "now_at (sys V) (tick w) \<le> r_expires_at t" "rt_lookup (db w) (r_id n) = None"
      "r_user_id n = r_user_id t" "fresh_rt n" "r_token_hash n = hash_token (refresh_token pair)"
      and s: "abs_store (db w') = (abs_store (db w))\<lparr>st_rts := (rt_lookup (db w))
        (r_id t \<mapsto> rt_stored (t\<lparr>r_revoked_at := Some now, r_replaced_by_id := Some (r_id n)\<rparr>), r_id n \<mapsto> n)\<rparr>"
    have "rt_lookup (db w') = (rt_lookup (db w))
        (r_id t \<mapsto> rt_stored (t\<lparr>r_revoked_at := Some now, r_replaced_by_id := Some (r_id n)\<rparr>), r_id n \<mapsto> n)"
      "user_lookup (db w') = user_lookup (db w)" "ott_lookup (db w') = ott_lookup (db w)"
      using arg_cong [OF s, of st_rts] arg_cong [OF s, of st_users] arg_cong [OF s, of st_otts] by simp_all
    with a show ?thesis by blast
  qed
qed

theorem refresh_rotates_witness:
  "\<exists>pair w' n. handle demo_env (Refresh ''alice-session'' None None None) demo_world = (Inr (Some pair), w')
    \<and> fresh_rt n \<and> rt_lookup (db w') (r_id n) = Some n \<and> r_token_hash n = hash_token (refresh_token pair)"
proof -
  obtain pair where r: "handle demo_env (Refresh ''alice-session'' None None None) demo_world
      = (Inr (Some pair), snd (handle demo_env (Refresh ''alice-session'' None None None) demo_world))"
    using demo_refresh by (auto simp: prod_eq_iff)
  have d: "db_inv (db demo_world)" by simp
  let ?w = "snd (handle demo_env (Refresh ''alice-session'' None None None) demo_world)"
  obtain t n now where n: "fresh_rt n" "r_token_hash n = hash_token (refresh_token pair)"
    and l: "rt_lookup (db ?w) = (rt_lookup (db demo_world))
      (r_id t \<mapsto> rt_stored (t\<lparr>r_revoked_at := Some now, r_replaced_by_id := Some (r_id n)\<rparr>), r_id n \<mapsto> n)"
    using refresh_rotates [OF d r] by blast
  from l have "rt_lookup (db ?w) (r_id n) = Some n" by simp
  with n r show ?thesis by blast
qed

text \<open>C21: A revocation that succeeds revokes the stored token and, whatever the client, raises the suspicion of
  a foreign client: no client data of a token is stored, so the policy sees an address that is not
  in the range of the caller's.\<close>

theorem revocation_always_suspicious:
  assumes "db_inv (db w)" and "revoke_tx V s ip ua loc w = (Inr es, w')"
  shows "\<exists>t now ts ts'. rt_lookup (db w) (r_id t) = Some t \<and> r_token_hash t = hash_token s \<and> r_revoked_at t = None
    \<and> rt_lookup (db w') = (rt_lookup (db w))(r_id t \<mapsto> rt_stored (t\<lparr>r_revoked_at := Some now\<rparr>))
    \<and> es = [SuspiciousRefreshTokenRevocation ts (r_user_id t) (r_id t) ip ua loc,
            RefreshTokenRevoked ts' (r_user_id t) (r_id t)]"
proof (rule revoke_tx_Inr [OF assms])
  fix t now ts ts'
  assume a: "rt_lookup (db w) (r_id t) = Some t" "r_token_hash t = hash_token s" "r_revoked_at t = None"
    "es = [SuspiciousRefreshTokenRevocation ts (r_user_id t) (r_id t) ip ua loc,
      RefreshTokenRevoked ts' (r_user_id t) (r_id t)]"
    and s: "abs_store (db w') = (abs_store (db w))\<lparr>st_rts := (rt_lookup (db w))
      (r_id t \<mapsto> rt_stored (t\<lparr>r_revoked_at := Some now\<rparr>))\<rparr>"
  from a arg_cong [OF s, of st_rts] show ?thesis by auto
qed

theorem revocation_always_suspicious_witness:
  "\<exists>es w' ts u i. revoke_tx demo_env ''alice-session'' (Some ''10.0.0.1'') None None demo_world = (Inr es, w')
    \<and> hd es = SuspiciousRefreshTokenRevocation ts u i (Some ''10.0.0.1'') None None"
proof -
  have d: "db_inv (db demo_world)" by simp
  have "\<exists>es w'. revoke_tx demo_env ''alice-session'' (Some ''10.0.0.1'') None None demo_world = (Inr es, w')"
    by (simp add: demo_eval Let_def assess_risk_eq)
  then obtain es w' where r: "revoke_tx demo_env ''alice-session'' (Some ''10.0.0.1'') None None demo_world = (Inr es, w')"
    by blast
  from revocation_always_suspicious [OF d r] r show ?thesis by auto
qed

text \<open>C22: A password change that succeeds was made with an access token of the stored user and the old
  password, and stores a hash of the stripped new one; when bcrypt checks its own hashes, the stripped text
  logs in from then on (if the user is active and verified). The login does not strip, so for a password given with
  outer white space it is another text that the user has to type. No token changes: the refresh tokens of the user work on.\<close>

theorem change_password_sets_hash:
  assumes "db_inv (db w)" and "bcrypt_checks (sys V)" and "handle V (ChangePassword a p q) w = (Inr x, w')"
  shows "\<exists>u u'. fst (access_token_verify (sys V) (cfg V) a w) = Inr (u_id u) \<and> user_lookup (db w) (u_id u) = Some u
    \<and> bcrypt_checkpw (sys V) (utf8_encode p) (utf8_encode (u_password_hash u)) = Some True \<and> p \<noteq> q
    \<and> user_lookup (db w') = (user_lookup (db w))(u_id u \<mapsto> u')
    \<and> u' = user_stored (u\<lparr>u_password_hash := u_password_hash u'\<rparr>)
    \<and> bcrypt_checkpw (sys V) (utf8_encode (py_strip q)) (utf8_encode (u_password_hash u')) = Some True
    \<and> ott_lookup (db w') = ott_lookup (db w) \<and> rt_lookup (db w') = rt_lookup (db w)"
proof -
  from assms(3) have e: "change_password_execute V a p q w = (Inr (), w')"
    by (auto simp: handle_def run_bindM run_retM split: prod.splits sum.splits)
  from execute_outcome(4) [OF assms(1) e] obtain es w1 where t: "change_password_tx V a p q w = (Inr es, w1)"
    and w1: "db w' = db w1" by auto
  show ?thesis
  proof (rule change_password_tx_Inr [OF assms(1) t])
    fix u w2 h ts
    assume u: "access_token_verify (sys V) (cfg V) a w = (Inr (u_id u), w2)" "user_lookup (db w) (u_id u) = Some u"
      "bcrypt_checkpw (sys V) (utf8_encode p) (utf8_encode (u_password_hash u)) = Some True" "p \<noteq> q"
      and h: "validate_hash_password (sys V) (PyStr q) w2 = (Inr h, w2\<lparr>tick := Suc (tick w2)\<rparr>)"
      and s: "abs_store (db w1) = (abs_store (db w))
        \<lparr>st_users := (user_lookup (db w))(u_id u \<mapsto> user_stored (u\<lparr>u_password_hash := h\<rparr>))\<rparr>"
    obtain p' salt where v: "validate_password (PyStr q) = Inr p'"
      and b: "bcrypt_hashpw (sys V) (utf8_encode p') salt = Some (utf8_encode h)"
      using validate_hash_password_Inr [OF h] .
    have "bcrypt_checkpw (sys V) (utf8_encode (py_strip q)) (utf8_encode h) = Some True"
      using v b assms(2) by (auto simp: validate_password_Inr bcrypt_checks_def)
    moreover have "user_lookup (db w') = (user_lookup (db w))(u_id u \<mapsto> user_stored (u\<lparr>u_password_hash := h\<rparr>))"
      "ott_lookup (db w') = ott_lookup (db w)" "rt_lookup (db w') = rt_lookup (db w)"
      using arg_cong [OF s, of st_users] arg_cong [OF s, of st_otts] arg_cong [OF s, of st_rts] w1 by simp_all
    ultimately show ?thesis using u
      by (intro exI [of _ u] exI [of _ "user_stored (u\<lparr>u_password_hash := h\<rparr>)"]) (simp add: user_stored_def)
  qed
qed

theorem change_password_sets_hash_witness:
  "\<exists>w' u'. handle demo_env (ChangePassword alice_access ''alice-password'' ''new-password'') demo_world = (Inr None, w')
    \<and> user_lookup (db w') = (user_lookup demo_db)(1 \<mapsto> u') \<and> u_password_hash u' = ''new-password''"
proof -
  have r: "handle demo_env (ChangePassword alice_access ''alice-password'' ''new-password'') demo_world
      = (Inr None, snd (handle demo_env (ChangePassword alice_access ''alice-password'' ''new-password'') demo_world))"
    using demo_change_password by (simp add: prod_eq_iff)
  have d: "db_inv (db demo_world)" and b: "bcrypt_checks (sys demo_env)" by (simp_all add: demo_bcrypt)
  have q: "py_strip ''new-password'' = ''new-password''" by code_simp
  let ?w = "snd (handle demo_env (ChangePassword alice_access ''alice-password'' ''new-password'') demo_world)"
  obtain u u' :: user where u: "fst (access_token_verify (sys demo_env) (cfg demo_env) alice_access demo_world) = Inr (u_id u)"
    and s: "user_lookup (db ?w) = (user_lookup (db demo_world))(u_id u \<mapsto> u')"
    and c: "bcrypt_checkpw (sys demo_env) (utf8_encode (py_strip ''new-password'')) (utf8_encode (u_password_hash u')) = Some True"
    using change_password_sets_hash [OF d b r] by blast
  from u have i: "u_id u = 1" by (simp add: alice_access_verifies)
  from c have h: "u_password_hash u' = ''new-password''" by (auto simp: demo_checkpw_def utf8_encode_inj q)
  from r s [unfolded i] h show ?thesis by (metis demo_world_sel(2))
qed



subsection \<open>The HTTP endpoints\<close>



text \<open>C9: The HTTP interface. A request is one call of the service, on the client data of its headers, answered by
  the call's outcome, or it changes nothing and is refused (404 by Starlette, 401, 422) or shows a page. Whatever is not
  a success has changed nothing; an error of the application's hierarchy, of whatever class, has the one status of
  the endpoint, 401 for a login and 400 otherwise, so a lost race, which raises \<open>ConcurrencyError\<close>, is never a 409; and
  requests lead from reachable states to reachable states.\<close>

theorem http_requests_are_calls:
  assumes "db_inv (db w)" and "log_inv V w" and "serve V m w = (a, w')"
  shows "(case message_call (pyd V) m of
        None \<Rightarrow> w' = w \<and> (a \<in> {NotRouted, Rejected 401, Rejected 422} \<or> (\<exists>v. a = PageAnswer v))
      | Some c \<Rightarrow> a = Answer (answer c (fst (handle V c w))) \<and> w' = snd (handle V c w))
    \<and> ((\<forall>x. a \<noteq> Answer (Success x)) \<longrightarrow> unchanged w w')
    \<and> (\<forall>st t. a = Answer (HttpError st t) \<longrightarrow> (\<exists>c k. message_call (pyd V) m = Some c
        \<and> fst (handle V c w) = Inl (AppError k t) \<and> st = (case c of Login _ _ _ _ _ \<Rightarrow> 401 | _ \<Rightarrow> 400)))
    \<and> (reachable V w \<longrightarrow> reachable V w')"
proof (cases "message_call (pyd V) m")
  case None
  with serve_run [OF assms(2), of m] assms(3) show ?thesis by (auto simp: bare_def unchanged_def)
next
  case (Some c)
  with serve_run [OF assms(2), of m] assms(3)
  have a: "a = Answer (answer c (fst (handle V c w)))" and w': "w' = snd (handle V c w)" by simp_all
  have "unchanged w w'" if "\<forall>x. a \<noteq> Answer (Success x)"
    using answer_failed [OF assms(1), of c V] that a w' by blast
  moreover have "reachable V w \<longrightarrow> reachable V w'"
    unfolding w' using reachable_call [OF _ handle_pair] by blast
  ultimately show ?thesis using Some a w' by (auto simp: answer_error)
qed

theorem http_requests_are_calls_witness:
  "\<exists>w'. serve demo_env (demo_post ''/auth/api/token''
        [(''email'', JStr ''bob@mail.org''), (''password'', JStr ''bob-password'')]) demo_world
      = (Answer (HttpError 401 ''Email is not verified''), w') \<and> unchanged demo_world w'"
proof -
  let ?m = "demo_post ''/auth/api/token'' [(''email'', JStr ''bob@mail.org''), (''password'', JStr ''bob-password'')]"
  let ?c = "Login ''bob@mail.org'' ''bob-password'' (Some ''unknown'') (Some ''unknown'') None"
  have d: "db_inv (db demo_world)" by simp
  have c: "message_call (pyd demo_env) ?m = Some ?c"
    by (simp add: message_call_def demo_client find_routes body_call_def LoginUserModel_def str_field_def
        json_member_def demo_pydantic_def)
  have "user_get_by_email (PyStr ''bob@mail.org'') (db demo_world) = Inr (Some (user_orm2domain bob))"
    by (simp add: user_get_by_email_def scalar_one_or_none_def demo_rows)
  then have h: "fst (handle demo_env ?c demo_world) = Inl (user_error ''Email is not verified'')"
    by (simp add: handle_def login_execute_def login_tx_def with_tx_def run_simps assert_can_login_def
        user_orm2domain_def bob_def)
  obtain a w' where e: "serve demo_env ?m demo_world = (a, w')" by fastforce
  note p = http_requests_are_calls [OF d demo_log_inv e]
  have a: "a = Answer (HttpError 401 ''Email is not verified'')"
    using conjunct1 [OF p] unfolding c option.case h by (simp add: answer_def user_error_def mk_error_def)
  have "unchanged demo_world w'" using p by (simp add: a)
  with e [unfolded a] show ?thesis by (intro exI conjI)
qed

text \<open>C30: The examples in the request models are defaults that the service acts on: a request whose body is
  the empty JSON object registers \<open>example@gmail.com\<close> with the password \<open>password\<close>, which the validators
  accept, and logs that account in, on the form for Swagger too; so once this address is verified, anyone is let in
  without giving an address or a password.\<close>

theorem empty_body_is_example_account:
  assumes "log_inv V w" and "hm_method m = ''POST''" and "hm_body m = Some (JObj [])" and "hm_form m = (\<lambda>k. None)"
  shows "(hm_path m = ''/auth/api/register'' \<longrightarrow> serve V m w =
        (Answer (answer (Register (PyStr ''example@gmail.com'') (PyStr ''password'')) (fst (handle V (Register (PyStr ''example@gmail.com'') (PyStr ''password'')) w))),
         snd (handle V (Register (PyStr ''example@gmail.com'') (PyStr ''password'')) w)))
    \<and> validate_email (PyStr ''example@gmail.com'') = Inr ''example@gmail.com''
    \<and> validate_password (PyStr ''password'') = Inr ''password''
    \<and> (hm_path m \<in> {''/auth/api/token'', ''/auth/api/swagger_token''} \<longrightarrow>
        (\<exists>c. (\<exists>ip ua loc. c = Login ''example@gmail.com'' ''password'' ip ua loc)
          \<and> serve V m w = (Answer (answer c (fst (handle V c w))), snd (handle V c w))))"
proof (intro conjI impI)
  show "validate_email (PyStr ''example@gmail.com'') = Inr ''example@gmail.com''" by code_simp
  show "validate_password (PyStr ''password'') = Inr ''password''" by code_simp
next
  assume "hm_path m = ''/auth/api/register''"
  then have "message_call (pyd V) m = Some (Register (PyStr ''example@gmail.com'') (PyStr ''password''))"
    using assms(2,3) by (simp add: message_call_def find_routes body_call_def
        RegisterUserInputDTO_def skip_field_def json_member_def)
  with serve_run [OF assms(1), of m] show "serve V m w =
        (Answer (answer (Register (PyStr ''example@gmail.com'') (PyStr ''password'')) (fst (handle V (Register (PyStr ''example@gmail.com'') (PyStr ''password'')) w))),
         snd (handle V (Register (PyStr ''example@gmail.com'') (PyStr ''password'')) w))" by simp
next
  assume p: "hm_path m \<in> {''/auth/api/token'', ''/auth/api/swagger_token''}"
  obtain ip ua loc where c: "client_data m = (ip, ua, loc)" by (cases "client_data m") auto
  have "message_call (pyd V) m = Some (Login ''example@gmail.com'' ''password'' ip ua loc)"
  proof (cases "hm_path m = ''/auth/api/token''")
    case True
    then show ?thesis using assms(2,3)
      by (simp add: message_call_def find_routes body_call_def LoginUserModel_def str_field_def json_member_def c)
  next
    case False
    with p have "hm_path m = ''/auth/api/swagger_token''" by simp
    then show ?thesis using assms(2,4) by (simp add: message_call_def find_routes form_str_def c)
  qed
  with serve_run [OF assms(1), of m] show "\<exists>c. (\<exists>ip ua loc. c = Login ''example@gmail.com'' ''password'' ip ua loc)
      \<and> serve V m w = (Answer (answer c (fst (handle V c w))), snd (handle V c w))" by auto
qed

theorem empty_body_is_example_account_witness:
  "fst (serve demo_env (demo_post ''/auth/api/token'' []) demo_world) = Answer (HttpError 401 ''User does not exist'')"
proof -
  let ?m = "demo_post ''/auth/api/token'' []"
  have m: "hm_method ?m = ''POST''" "hm_body ?m = Some (JObj [])" "hm_form ?m = (\<lambda>k. None)"
    "hm_path ?m \<in> {''/auth/api/token'', ''/auth/api/swagger_token''}"
    by (simp_all add: demo_post_def)
  from empty_body_is_example_account [OF demo_log_inv m(1-3)] m(4) obtain c ip ua loc
    where c: "c = Login ''example@gmail.com'' ''password'' ip ua loc"
      and s: "serve demo_env ?m demo_world = (Answer (answer c (fst (handle demo_env c demo_world))), snd (handle demo_env c demo_world))"
    by blast
  have "user_get_by_email (PyStr ''example@gmail.com'') (db demo_world) = Inr None"
    by (simp add: user_get_by_email_def scalar_one_or_none_def demo_rows)
  then have "fst (handle demo_env c demo_world) = Inl (mk_error UserNotFound (Some ''User does not exist''))"
    by (simp add: c handle_def login_execute_def login_tx_def with_tx_def run_simps)
  then show ?thesis by (simp only: s fst_conv) (simp add: c answer_def mk_error_def)
qed



subsection \<open>Sessions that interleave\<close>

text \<open>C25: Optimistic concurrency on users. However the sessions that load, edit and save users interleave, no
  two saves of one user succeed on the same version, so none overwrites what it has not read; and the stored version of a user has
  gone up by one with every save that succeeded.\<close>

theorem no_lost_update_of_users:
  assumes "occ_reach user_save user_lookup u_id u_version db_inv d s"
  shows "distinct (commits s) \<and> db_inv (shared s)
    \<and> (\<forall>i u v u'. user_lookup d i = Some u \<and> u_version u = Some v \<and> user_lookup (shared s) i = Some u' \<longrightarrow>
        u_version u' = Some (v + int (length (bases i (commits s)))))"
  using user_repo.no_lost_update [OF assms] user_repo.occ_invariant [OF assms] user_repo.version_counts [OF assms]
  by blast

theorem no_lost_update_of_users_witness:
  "\<exists>s u' d. occ_reach user_save user_lookup u_id u_version db_inv demo_db s
    \<and> user_save (user_orm2domain alice) demo_db = Inr (u', d) \<and> commits s = [(1, Some 2)] \<and> distinct (commits s)
    \<and> (\<forall>v. user_lookup (shared s) 1 = Some v \<longrightarrow> u_version v = Some 3)"
proof -
  let ?a = "user_orm2domain alice"
  let ?s0 = "\<lparr>shared = demo_db, copy = (\<lambda>n. None), commits = []\<rparr>"
  let ?s1 = "?s0\<lparr>copy := (copy ?s0)(0 := Some ?a)\<rparr>"
  have k: "u_id ?a = 1" "u_version ?a = Some 2" by (simp_all add: user_orm2domain_def alice_def)
  have l: "user_lookup demo_db 1 = Some ?a"
    by (simp add: user_lookup_def table_map_def demo_rows)
  obtain u' d where s: "user_save ?a demo_db = Inr (u', d)"
    using user_save_current [OF demo_db_inv k(2), of ?a] l k by (auto simp: int4_def)
  let ?s2 = "?s1\<lparr>shared := d, copy := (copy ?s1)(0 := Some u'), commits := commits ?s1 @ [(u_id ?a, u_version ?a)]\<rparr>"
  have r0: "occ_reach user_save user_lookup u_id u_version db_inv demo_db ?s0"
    by (rule occ_start) simp
  have st1: "occ_step user_save user_lookup u_id u_version db_inv ?s0 ?s1"
    by (rule occ_load [of user_lookup ?s0 1]) (simp add: l)
  have st2: "occ_step user_save user_lookup u_id u_version db_inv ?s1 ?s2"
    by (rule occ_save [of ?s1 0 ?a]) (simp_all add: s)
  have r: "occ_reach user_save user_lookup u_id u_version db_inv demo_db ?s2"
    by (rule occ_more [OF occ_more [OF r0 st1] st2])
  have c: "commits ?s2 = [(1, Some 2)]" by (simp add: k)
  have v: "u_version v = Some 3" if "user_lookup (shared ?s2) 1 = Some v" for v
  proof -
    have "u_version v = Some (2 + int (length (bases 1 (commits ?s2))))"
      using no_lost_update_of_users [OF r] that l k(2) by blast
    then show ?thesis unfolding c by (simp add: bases_def)
  qed
  have "distinct (commits ?s2)" using no_lost_update_of_users [OF r] by blast
  with r s c v show ?thesis by blast
qed

text \<open>Two sessions that have loaded the same token: once one has saved its copy, the other cannot.\<close>

lemma rotation_race:
  assumes "db_inv d" and "rt_save a d = Inr (a', d')" and "r_version a = Some v"
    and "occ_reach rt_save rt_lookup r_id r_version db_inv d' s"
    and "r_id b = r_id a" and "r_version b = r_version a"
  shows "rt_save b (shared s) = Inl (mk_error ConcurrencyError (Some ''RefreshToken version conflict''))"
proof -
  have i: "int4 (v + 1)" using assms(2,3) by (auto simp: rt_save_def update_rt_def Let_def split: if_splits)
  obtain t where t: "rt_lookup d' (r_id a) = Some t" "r_version t = Some (v + 1)"
    using rt_repo.save_stored [OF assms(1,2)] rt_repo.save_ver [OF assms(2)] assms(3) by auto
  have n: "r_version q \<noteq> Some v" if "rt_lookup (shared s) (r_id b) = Some q" for q
    using rt_repo.version_counts [OF assms(4) t that [unfolded assms(5)]] by simp
  have "db_inv (shared s)" using rt_repo.occ_invariant [OF assms(4)] by blast
  then show ?thesis using rt_save_stale [OF _ _ i n] assms(3,6) by simp
qed

lemma one_time_token_race:
  assumes "db_inv d" and "ott_save a d = Inr (a', d')" and "o_version a = Some v"
    and "occ_reach ott_save ott_lookup o_id o_version db_inv d' s"
    and "o_id b = o_id a" and "o_version b = o_version a"
  shows "ott_save b (shared s) = Inl (mk_error ConcurrencyError (Some ''OneTimeToken version conflict''))"
proof -
  have i: "int4 (v + 1)" using assms(2,3) by (auto simp: ott_save_def update_ott_def Let_def split: if_splits)
  obtain t where t: "ott_lookup d' (o_id a) = Some t" "o_version t = Some (v + 1)"
    using ott_repo.save_stored [OF assms(1,2)] ott_repo.save_ver [OF assms(2)] assms(3) by auto
  have n: "o_version q \<noteq> Some v" if "ott_lookup (shared s) (o_id b) = Some q" for q
    using ott_repo.version_counts [OF assms(4) t that [unfolded assms(5)]] by simp
  have "db_inv (shared s)" using ott_repo.occ_invariant [OF assms(4)] by blast
  then show ?thesis using ott_save_stale [OF _ _ i n] assms(3,6) by simp
qed

text \<open>A token that two sessions have loaded is changed by one of them at most. Once the first has saved its copy of a
  refresh token (to rotate or revoke it) or of a one-time token (to spend it), the save of the other, at any later moment and
  whatever it and other sessions did in between, raises \<open>ConcurrencyError\<close>.\<close>

lemma token_race_one_wins:
  assumes "db_inv d"
  shows "(rt_save a d = Inr (a', d') \<and> r_version a = Some v
        \<and> occ_reach rt_save rt_lookup r_id r_version db_inv d' s \<and> r_id b = r_id a \<and> r_version b = r_version a \<longrightarrow>
      rt_save b (shared s) = Inl (mk_error ConcurrencyError (Some ''RefreshToken version conflict'')))
    \<and> (ott_save x d = Inr (x', d') \<and> o_version x = Some v
        \<and> occ_reach ott_save ott_lookup o_id o_version db_inv d' s' \<and> o_id y = o_id x \<and> o_version y = o_version x \<longrightarrow>
      ott_save y (shared s') = Inl (mk_error ConcurrencyError (Some ''OneTimeToken version conflict'')))"
  using rotation_race [OF assms] one_time_token_race [OF assms] by blast

lemma token_race_in_the_example:
  "\<exists>a' d. rt_save (rt_orm2domain alice_session\<lparr>r_revoked_at := Some 5, r_replaced_by_id := Some 22\<rparr>) demo_db = Inr (a', d)
    \<and> rt_save (rt_orm2domain alice_session\<lparr>r_revoked_at := Some 6\<rparr>) d
      = Inl (mk_error ConcurrencyError (Some ''RefreshToken version conflict''))"
proof -
  let ?a = "rt_orm2domain alice_session\<lparr>r_revoked_at := Some 5, r_replaced_by_id := Some 22\<rparr>"
  have "\<exists>a' d. rt_save ?a demo_db = Inr (a', d)"
    by (simp add: rt_save_def update_rt_def rt_orm2domain_def demo_rows int4_def rt_row_fits_def update_where_def
      rowcount_def user_ids_def varchar255_def Let_def)
  then obtain a' d where s: "rt_save ?a demo_db = Inr (a', d)" by blast
  have i: "db_inv d" by (rule rt_repo.save_inv [OF demo_db_inv s])
  have v: "r_version ?a = Some 1" by (simp add: rt_orm2domain_def alice_session_def)
  have r: "occ_reach rt_save rt_lookup r_id r_version db_inv d \<lparr>shared = d, copy = (\<lambda>n. None), commits = []\<rparr>"
    by (rule occ_start) (rule i)
  from conjunct1 [OF token_race_one_wins [OF demo_db_inv], of ?a a' d 1 "\<lparr>shared = d, copy = (\<lambda>n. None), commits = []\<rparr>"
      "rt_orm2domain alice_session\<lparr>r_revoked_at := Some 6\<rparr>"] s v r show ?thesis by auto
qed

subsection \<open>Whole calls at once\<close>

text \<open>A refresh and a revocation of the same token have both read it when the refresh commits: the revocation fails.\<close>

lemma demo_race:
  "\<exists>p q w1 w2 x w3 w4.
     start_call demo_env (Refresh ''alice-session'' None None None) demo_world = (Inr (Loaded p), w1)
   \<and> start_call demo_env (Revoke ''alice-session'' None None None) w1 = (Inr (Loaded q), w2)
   \<and> proceed demo_env (Loaded p) w2 = (Inr x, w3) \<and> cs_ended [p] = [21]
   \<and> proceed demo_env (Loaded q) w3 = (Inl (mk_error ConcurrencyError (Some ''RefreshToken version conflict'')), w4)"
  by (simp add: demo_eval refresh_load_def revoke_load_def flush_def cs_ended_def rotate_def rt_mark_as_replaced_by_def Let_def config_defs
      demo_settings_def default_settings_def assess_risk_eq)

lemma demo_race_reached:
  "\<exists>s q. creach demo_env demo_world s \<and> cs_ended (cs_saved s) = [21] \<and> cs_sessions s 2 = Some (Loaded q)
    \<and> fst (proceed demo_env (Loaded q) (cs_world s)) = Inl (mk_error ConcurrencyError (Some ''RefreshToken version conflict''))"
proof -
  obtain p q w1 w2 x w3 w4 where r:
    "start_call demo_env (Refresh ''alice-session'' None None None) demo_world = (Inr (Loaded p), w1)"
    "start_call demo_env (Revoke ''alice-session'' None None None) w1 = (Inr (Loaded q), w2)"
    "proceed demo_env (Loaded p) w2 = (Inr x, w3)" "cs_ended [p] = [21]"
    "proceed demo_env (Loaded q) w3 = (Inl (mk_error ConcurrencyError (Some ''RefreshToken version conflict'')), w4)"
    using demo_race by blast
  obtain s1 where s1: "creach demo_env demo_world s1" "cs_world s1 = w1" "cs_sessions s1 = [1 \<mapsto> Loaded p]" "cs_saved s1 = []"
    by (rule creach_first [OF r(1), of 1])
  obtain s2 where s2: "creach demo_env demo_world s2" "cs_world s2 = w2"
      "cs_sessions s2 = [1 \<mapsto> Loaded p, 2 \<mapsto> Loaded q]" "cs_saved s2 = []"
    by (rule creach_start [OF s1(1), where n = 2]) (use r(2) s1 in \<open>simp_all del: start_call.simps\<close>)
  obtain s3 where s3: "creach demo_env demo_world s3" "cs_world s3 = w3"
      "cs_sessions s3 = [1 \<mapsto> Loaded p, 2 \<mapsto> Loaded q, 1 \<mapsto> x]" "cs_saved s3 = saved_by (Loaded p)"
    by (rule creach_proceed [OF s2(1), where n = 1]) (use r(3) s2 in \<open>simp_all del: proceed.simps\<close>)
  show ?thesis
    by (rule exI [of _ s3], rule exI [of _ q]) (use r(4,5) s3 in \<open>simp add: saved_by_def del: proceed.simps\<close>)
qed



text \<open>The verification of an address and the revocation of a token overlap: the revocation begins and commits between the
  two reads and the commit of the verification.\<close>

lemma demo_overlap:
  "\<exists>x w1 q w2 p w3 y w4 z w5.
     start_call demo_env (VerifyEmail (PyStr ''verify-bob'')) demo_world = (Inr x, w1)
   \<and> start_call demo_env (Revoke ''alice-session'' None None None) w1 = (Inr (Loaded q), w2)
   \<and> proceed demo_env x w2 = (Inr (Loaded p), w3)
   \<and> proceed demo_env (Loaded q) w3 = (Inr y, w4) \<and> proceed demo_env (Loaded p) w4 = (Inr z, w5)
   \<and> saved_by x = []
   \<and> length (one_time_tokens (db w3)) \<le> 1 \<and> length (refresh_tokens (db w3)) \<le> 1
   \<and> length (one_time_tokens (db w4)) \<le> 1 \<and> length (refresh_tokens (db w4)) \<le> 1"
  by (simp add: demo_eval verify_email_load_def revoke_load_def flush_def saved_by_def Let_def config_defs
      demo_settings_def default_settings_def assess_risk_eq)

lemma demo_overlap_trace:
  "\<exists>s h. cstrace demo_env demo_world h s
    \<and> map fst h = [Revoke ''alice-session'' None None None, VerifyEmail (PyStr ''verify-bob'')]"
proof -
  let ?v = "VerifyEmail (PyStr ''verify-bob'')" and ?r = "Revoke ''alice-session'' None None None"
  obtain x w1 q w2 p w3 y w4 z w5 where r: "start_call demo_env ?v demo_world = (Inr x, w1)"
    "start_call demo_env ?r w1 = (Inr (Loaded q), w2)" "proceed demo_env x w2 = (Inr (Loaded p), w3)"
    "proceed demo_env (Loaded q) w3 = (Inr y, w4)" "proceed demo_env (Loaded p) w4 = (Inr z, w5)" "saved_by x = []"
    and t: "tokens_distinct (db w3)" "tokens_distinct (db w4)"
    using demo_overlap by (elim exE conjE) (blast intro: tokens_distinct_short)
  obtain s1 where s1: "cstrace demo_env demo_world [] s1" "cs_world s1 = w1" "cs_calls s1 = [1 \<mapsto> ?v]" "cs_sessions s1 = [1 \<mapsto> x]"
    by (rule cstrace_start [OF tr_init, where n = 1]) (use r(1) in \<open>simp_all del: start_call.simps\<close>)
  obtain s2 where s2: "cstrace demo_env demo_world [] s2" "cs_world s2 = w2"
      "cs_calls s2 = [1 \<mapsto> ?v, 2 \<mapsto> ?r]" "cs_sessions s2 = [1 \<mapsto> x, 2 \<mapsto> Loaded q]"
    by (rule cstrace_start [OF s1(1), where n = 2]) (use r(2) s1 in \<open>simp_all del: start_call.simps\<close>)
  obtain s3 where s3: "cstrace demo_env demo_world [] s3" "cs_world s3 = w3"
      "cs_calls s3 = [1 \<mapsto> ?v, 2 \<mapsto> ?r]" "cs_sessions s3 = [1 \<mapsto> x, 2 \<mapsto> Loaded q, 1 \<mapsto> Loaded p]"
    by (rule cstrace_read [OF s2(1), where n = 1]) (use r(3,6) s2 in \<open>simp_all del: proceed.simps\<close>)
  obtain s4 where s4: "cstrace demo_env demo_world [(?r, q)] s4" "cs_world s4 = w4"
      "cs_calls s4 = [1 \<mapsto> ?v, 2 \<mapsto> ?r]" "cs_sessions s4 = [1 \<mapsto> x, 2 \<mapsto> Loaded q, 1 \<mapsto> Loaded p, 2 \<mapsto> y]"
    by (rule cstrace_commit [OF s3(1), where n = 2]) (use r(4) t(1) s3 in \<open>simp_all del: proceed.simps\<close>)
  obtain s5 where "cstrace demo_env demo_world [(?r, q), (?v, p)] s5"
    by (rule cstrace_commit [OF s4(1), where n = 1]) (use r(5) t(2) s4 in \<open>simp_all del: proceed.simps\<close>)
  then show ?thesis by (intro exI conjI) (assumption, simp)
qed

text \<open>C3: Calls that run at once are serialisable. Whatever the interleaving, the calls that have committed, executed one after the
  other in the order of their commits, each alone and as one step, get the same answers and leave the same tables:
  \<open>ks\<close> counts the readings of the clock and of the random sources at which each of them starts. (No two stored tokens may share a hash.)\<close>

theorem concurrent_calls_serializable:
  assumes "service_inv w" and "cstrace V w h s"
  shows "creach V w s \<and> map snd h = cs_saved s
    \<and> (\<exists>ks v. serial V h ks w = Some v \<and> db v = db (cs_world s))"
  using cstrace_creach [OF assms(2)] commits_in_order [OF assms] by blast

theorem concurrent_calls_serializable_witness:
  "\<exists>s h ks v. map fst h = [Revoke ''alice-session'' None None None, VerifyEmail (PyStr ''verify-bob'')]
    \<and> creach demo_env demo_world s \<and> serial demo_env h ks demo_world = Some v \<and> db v = db (cs_world s)"
proof -
  obtain s h where h: "cstrace demo_env demo_world h s"
    and c: "map fst h = [Revoke ''alice-session'' None None None, VerifyEmail (PyStr ''verify-bob'')]"
    using demo_overlap_trace by (elim exE conjE)
  from concurrent_calls_serializable [OF demo_service_inv h] obtain ks v where
    "creach demo_env demo_world s" "serial demo_env h ks demo_world = Some v" "db v = db (cs_world s)"
    by (elim conjE exE)
  with c show ?thesis by (intro exI conjI)
qed

text \<open>C5: However many calls run at once, the commits together spend every one-time token at most once and end
  (rotate or revoke) every refresh token at most once, and what they have spent or ended is stored so.\<close>

theorem tokens_spent_once_concurrently:
  assumes "db_inv (db w)" and "creach V w s"
  shows "distinct (cs_spent (cs_saved s)) \<and> distinct (cs_ended (cs_saved s))
    \<and> (\<forall>i \<in> set (cs_spent (cs_saved s)). \<exists>t. ott_lookup (db (cs_world s)) i = Some t \<and> o_used t)
    \<and> (\<forall>i \<in> set (cs_ended (cs_saved s)). \<exists>t. rt_lookup (db (cs_world s)) i = Some t \<and> r_revoked_at t \<noteq> None)"
  using creach_inv [OF assms(2,1)] by (simp add: cinv_def ott_used_in_def rt_revoked_in_def)

theorem tokens_spent_once_concurrently_witness:
  "\<exists>s. creach demo_env demo_world s \<and> cs_sessions s 2 \<noteq> None \<and> (\<exists>t. rt_lookup (db (cs_world s)) 21 = Some t \<and> r_revoked_at t \<noteq> None)"
proof -
  obtain s q where s: "creach demo_env demo_world s" "cs_ended (cs_saved s) = [21]" "cs_sessions s 2 = Some (Loaded q)"
    using demo_race_reached by (elim exE conjE)
  have "db_inv (db demo_world)" by simp
  from tokens_spent_once_concurrently [OF this s(1)] s show ?thesis by auto
qed

text \<open>C12: A conflict has a cause. When a call that runs among others is refused its commit with \<open>ConcurrencyError\<close>, one of the
  entities that it was about to save is stored with a newer version than it was read with: another call has committed
  since. The refused commit has changed nothing. So of calls that meet one gets through.\<close>

theorem conflict_means_other_commit:
  assumes "db_inv (db w)" and "creach V w s" and "cs_sessions s n = Some (Loaded p)"
    and "proceed V (Loaded p) (cs_world s) = (Inl e, w')" and "isinstance e ConcurrencyError"
  shows "overtaken (db (cs_world s)) p \<and> db w' = db (cs_world s)"
proof -
  have "db_inv (db (cs_world s))" and "session_ok V (cs_calls s n) (abs_store (db (cs_world s))) (Loaded p)"
    using creach_inv [OF assms(2,1)] assms(3) unfolding cinv_def by blast+
  from proceed_conflict [OF this assms(4,5)] proceed_raises [OF assms(4)] show ?thesis by blast
qed

theorem conflict_means_other_commit_witness:
  "\<exists>s q. creach demo_env demo_world s \<and> cs_sessions s 2 = Some (Loaded q) \<and> overtaken (db (cs_world s)) q"
proof -
  obtain s q where s: "creach demo_env demo_world s" "cs_sessions s 2 = Some (Loaded q)"
    and f: "fst (proceed demo_env (Loaded q) (cs_world s)) = Inl (mk_error ConcurrencyError (Some ''RefreshToken version conflict''))"
    using demo_race_reached by (elim exE conjE)
  obtain w' where r: "proceed demo_env (Loaded q) (cs_world s)
      = (Inl (mk_error ConcurrencyError (Some ''RefreshToken version conflict'')), w')"
    using f by (metis prod.collapse)
  have d: "db_inv (db demo_world)" by simp
  have "isinstance (mk_error ConcurrencyError (Some ''RefreshToken version conflict'')) ConcurrencyError"
    by (simp add: mk_error_def issubclass.simps)
  from conflict_means_other_commit [OF d s r this] s show ?thesis by blast
qed

text \<open>The verification of an address: two reads, the commit, and the publication of its event.\<close>

lemma demo_verify_steps:
  "\<exists>x w1 w2 p w3 a w4 z.
      start_call demo_env (VerifyEmail (PyStr ''verify-bob'')) demo_world = (Inr x, w1)
    \<and> proceed demo_env x w1 = (Inr (Loaded p), w2)
    \<and> proceed demo_env (Loaded p) w2 = (Inr a, w3) \<and> proceed demo_env a w3 = (Inr z, w4) \<and> db w2 = demo_db
    \<and> event_log w4 = redisq_push demo_pydantic demo_redis (UserEmailVerified 2000000 2 ''bob@mail.org'') []"
  by (simp add: demo_eval verify_email_load_def flush_def)

lemma demo_published:
  "\<exists>s. creach demo_env demo_world s \<and> cs_saved s \<noteq> []
    \<and> event_log (cs_world s) = redisq_push demo_pydantic demo_redis (UserEmailVerified 2000000 2 ''bob@mail.org'') []"
proof -
  obtain x w1 w2 p w3 a w4 z where r: "start_call demo_env (VerifyEmail (PyStr ''verify-bob'')) demo_world = (Inr x, w1)"
    "proceed demo_env x w1 = (Inr (Loaded p), w2)" "proceed demo_env (Loaded p) w2 = (Inr a, w3)" "proceed demo_env a w3 = (Inr z, w4)"
    and l: "event_log w4 = redisq_push demo_pydantic demo_redis (UserEmailVerified 2000000 2 ''bob@mail.org'') []"
    using demo_verify_steps by (elim exE conjE)
  obtain s1 where s1: "creach demo_env demo_world s1" "cs_world s1 = w1" "cs_sessions s1 = [1 \<mapsto> x]"
    by (rule creach_first [OF r(1), of 1])
  obtain s2 where s2: "creach demo_env demo_world s2" "cs_world s2 = w2" "cs_sessions s2 = [1 \<mapsto> Loaded p]"
    by (rule creach_proceed [OF s1(1), where n = 1]) (use r(2) s1 in \<open>simp_all del: proceed.simps\<close>)
  obtain s3 where s3: "creach demo_env demo_world s3" "cs_world s3 = w3" "cs_sessions s3 = [1 \<mapsto> a]"
      "cs_saved s3 = cs_saved s2 @ saved_by (Loaded p)"
    by (rule creach_proceed [OF s2(1), where n = 1]) (use r(3) s2 in \<open>simp_all del: proceed.simps\<close>)
  obtain s4 where s4: "creach demo_env demo_world s4" "cs_world s4 = w4" "cs_saved s4 = cs_saved s3 @ saved_by a"
    by (rule creach_proceed [OF s3(1), where n = 1]) (use r(4) s3 in \<open>simp_all del: proceed.simps\<close>)
  show ?thesis by (rule exI [of _ s4]) (use s3 s4 l in \<open>simp add: saved_by_def\<close>)
qed

text \<open>C11: However many calls run at once, what is published is published after the commit of the transaction that
  pulled it, and at most once: the audit log grows by a list of events, the notifications likewise, that is
  a sub-multiset of what the committed transactions have pulled. (A call that is dropped between its commit and
  its publication loses its events.)\<close>

theorem published_after_commit:
  assumes "log_inv V w" and "creach V w s"
  shows "log_inv V (cs_world s) \<and>
    (\<exists>out. audit V (cs_world s) = audit V w @ filter is_domain_event out
      \<and> notifications (cs_world s) = notifications w @ filter is_notification_event out
      \<and> mset out \<subseteq># mset (concat (map pe_events (cs_saved s))))"
proof -
  obtain out where a: "announces V out w (cs_world s)" and m: "mset out + all_awaited (cs_sessions s) \<subseteq># pulled (cs_saved s)"
    using creach_pub_inv [OF assms(2)] unfolding pub_inv_def by blast
  have "log_inv V (cs_world s) \<and> audit V (cs_world s) = audit V w @ filter is_domain_event out"
    by (rule audit_push [OF assms(1)]) (use a in \<open>simp add: announces_def\<close>)
  moreover have "mset out \<subseteq># pulled (cs_saved s)" using m mset_subset_eq_add_left subset_mset.order_trans by blast
  ultimately show ?thesis using a unfolding announces_def pulled_def by blast
qed

theorem published_after_commit_witness:
  "\<exists>s out. creach demo_env demo_world s \<and> cs_saved s \<noteq> []
    \<and> audit demo_env (cs_world s) = audit demo_env demo_world @ filter is_domain_event out
    \<and> audit demo_env (cs_world s) \<noteq> []"
proof -
  obtain s where s: "creach demo_env demo_world s" "cs_saved s \<noteq> []"
    and l: "event_log (cs_world s) = redisq_push demo_pydantic demo_redis (UserEmailVerified 2000000 2 ''bob@mail.org'') []"
    using demo_published by (elim exE conjE)
  have "\<exists>out. audit demo_env (cs_world s) = audit demo_env demo_world @ filter is_domain_event out"
    using published_after_commit [OF demo_log_inv s(1)] by blast
  moreover have "audit demo_env (cs_world s) \<noteq> []"
    using audit_push [OF demo_log_inv, of "cs_world s" "[UserEmailVerified 2000000 2 ''bob@mail.org'']"] l
    by (simp add: demo_world_def)
  ultimately show ?thesis using s by blast
qed

end
